(* ===== verification/Prelude.thy ===== *)
theory Prelude
  imports Main "HOL-Library.Word"
begin

text \<open>
  Shared vocabulary of the DeltaOS development: the machine types of the kernel, its error type
  and result type (\<open>src/src/lib.rs\<close>), the wrap-around arithmetic that the release build of the
  kernel uses on \<open>usize\<close>, the byte memory, and the generic contracts (locales) that several
  components implement: a set of bits packed into words, and a source of fresh frames.
\<close>

unbundle bit_operations_syntax

section \<open>Machine types\<close>

type_synonym u8 = "8 word"
type_synonym u16 = "16 word"
type_synonym u32 = "32 word"
type_synonym u64 = "64 word"

text \<open>
  Sizes, indices and physical addresses of the allocators are \<open>usize\<close>. They are modelled as
  natural numbers below \<open>2 ^ 64\<close>; the operations that can leave this range wrap explicitly,
  as the release profile of the kernel (\<open>cargo build --release\<close> in the Makefile) does.
\<close>

type_synonym usize = nat
type_synonym PhysAddr = usize

abbreviation USIZE :: nat where
  "USIZE \<equiv> 18446744073709551616"

definition usize_add :: "usize \<Rightarrow> usize \<Rightarrow> usize" where
  "usize_add a b = (a + b) mod USIZE"

definition usize_sub :: "usize \<Rightarrow> usize \<Rightarrow> usize" where
  "usize_sub a b = (a + (USIZE - b mod USIZE)) mod USIZE"

definition usize_mul :: "usize \<Rightarrow> usize \<Rightarrow> usize" where
  "usize_mul a b = (a * b) mod USIZE"

definition saturating_sub :: "usize \<Rightarrow> usize \<Rightarrow> usize" where
  "saturating_sub a b = (if a < b then 0 else a - b)"

section \<open>Errors and results\<close>

datatype KernelError =
    OutOfMemory | InvalidAddress | PageNotMapped | PageAlreadyMapped | InvalidArgument
  | DeviceNotFound | FileSystemNotFound | FileNotFound | IoError | ModuleNotFound
  | AccessDenied | GeneralFault

type_synonym 'a KernelResult = "KernelError + 'a"

abbreviation Err :: "'e \<Rightarrow> 'e + 'a" where
  "Err \<equiv> Inl"

abbreviation Ok :: "'a \<Rightarrow> 'e + 'a" where
  "Ok \<equiv> Inr"

fun isize_of_error :: "KernelError \<Rightarrow> int" where
  "isize_of_error OutOfMemory = -12"
| "isize_of_error InvalidAddress = -14"
| "isize_of_error PageNotMapped = -2"
| "isize_of_error PageAlreadyMapped = -17"
| "isize_of_error InvalidArgument = -22"
| "isize_of_error DeviceNotFound = -19"
| "isize_of_error FileSystemNotFound = -19"
| "isize_of_error FileNotFound = -2"
| "isize_of_error IoError = -5"
| "isize_of_error ModuleNotFound = -2"
| "isize_of_error AccessDenied = -13"
| "isize_of_error GeneralFault = -1"

section \<open>Constants of the kernel's memory layout\<close>

definition PAGE_SIZE :: usize where "PAGE_SIZE = 4096"
definition KERNEL_BASE :: usize where "KERNEL_BASE = 0x100000"
definition HEAP_BASE :: usize where "HEAP_BASE = 0x800000"
definition HEAP_SIZE :: usize where "HEAP_SIZE = 0x200000"
definition PMM_BITMAP_BASE :: usize where "PMM_BITMAP_BASE = 0x500000"
definition PMM_BITMAP_SIZE :: usize where "PMM_BITMAP_SIZE = 0x200000"
definition VMM_PAGES_BASE :: usize where "VMM_PAGES_BASE = 0x700000"
definition VMM_PAGES_SIZE :: usize where "VMM_PAGES_SIZE = 0x100000"
definition TASK_STACKS_BASE :: usize where "TASK_STACKS_BASE = 0xA00000"
definition PAGE_ENTRIES :: usize where "PAGE_ENTRIES = 512"

named_theorems layout \<open>constants of the memory layout\<close>

lemmas layout_consts [layout] =
  PAGE_SIZE_def KERNEL_BASE_def HEAP_BASE_def HEAP_SIZE_def PMM_BITMAP_BASE_def
  PMM_BITMAP_SIZE_def VMM_PAGES_BASE_def VMM_PAGES_SIZE_def TASK_STACKS_BASE_def
  PAGE_ENTRIES_def

section \<open>Byte memory\<close>

type_synonym pmem = "usize \<Rightarrow> u8"

definition write_bytes :: "pmem \<Rightarrow> usize \<Rightarrow> u8 \<Rightarrow> usize \<Rightarrow> pmem" where
  "write_bytes m addr v n = (\<lambda>a. if addr \<le> a \<and> a < addr + n then v else m a)"

lemma take_take_append: "take n (take n xs @ ys) = take n (xs @ ys)"
  by (cases "length xs \<le> n") simp_all

lemma write_bytes_in [simp]:
  "addr \<le> a \<Longrightarrow> a < addr + n \<Longrightarrow> write_bytes m addr v n a = v"
  by (simp add: write_bytes_def)

lemma write_bytes_out [simp]:
  "a < addr \<or> addr + n \<le> a \<Longrightarrow> write_bytes m addr v n a = m a"
  by (auto simp: write_bytes_def)

section \<open>Arithmetic\<close>

lemma usize_add_eq [simp]: "a + b < USIZE \<Longrightarrow> usize_add a b = a + b"
  by (simp add: usize_add_def)

lemma usize_mul_eq [simp]: "a * b < USIZE \<Longrightarrow> usize_mul a b = a * b"
  by (simp add: usize_mul_def)

lemma wrapped_sub:
  fixes a b n :: nat
  assumes "b \<le> a" "a < n"
  shows "(a + (n - b mod n)) mod n = a - b"
proof -
  have "a + (n - b mod n) = (a - b) + n" using assms by simp
  then have "(a + (n - b mod n)) mod n = (a - b) mod n" by (simp only: mod_add_self2)
  also have "\<dots> = a - b" using assms by simp
  finally show ?thesis .
qed

lemma usize_sub_eq [simp]: "b \<le> a \<Longrightarrow> a < USIZE \<Longrightarrow> usize_sub a b = a - b"
  unfolding usize_sub_def by (rule wrapped_sub)

lemma saturating_sub_eq [simp]: "saturating_sub a b = a - b"
  by (simp add: saturating_sub_def)

lemma usize_add_bound: "usize_add a b < USIZE"
  by (simp add: usize_add_def)

lemma of_nat_inj_u64: "a < 2 ^ 64 \<Longrightarrow> b < 2 ^ 64 \<Longrightarrow> (word_of_nat a :: u64) = word_of_nat b \<longleftrightarrow> a = b"
  by (simp add: word_unat_eq_iff unat_of_nat take_bit_nat_eq_self)

section \<open>Single-bit masks\<close>

lemma bit_byte_mask:
  "i < 8 \<Longrightarrow> bit (2 ^ i :: u8) j \<longleftrightarrow> j = i"
  by (auto simp: bit_exp_iff)

lemma bit_u32_mask:
  "i < 32 \<Longrightarrow> bit (2 ^ i :: u32) j \<longleftrightarrow> j = i"
  by (auto simp: bit_exp_iff)

section \<open>Contract: a set of bits\<close>

text \<open>
  A component that packs booleans into words offers a test, a set and a clear operation on
  indices. The laws are the array laws restricted to the indices in range; the client lemmas
  count the clear bits below a bound, which is how the free-page counter is justified.
\<close>

locale bitset =
  fixes get :: "'m \<Rightarrow> nat \<Rightarrow> bool"
    and set1 :: "'m \<Rightarrow> nat \<Rightarrow> 'm"
    and clear1 :: "'m \<Rightarrow> nat \<Rightarrow> 'm"
    and in_range :: "nat \<Rightarrow> bool"
  assumes get_set1: "in_range i \<Longrightarrow> get (set1 m i) j \<longleftrightarrow> j = i \<or> get m j"
    and get_clear1: "in_range i \<Longrightarrow> get (clear1 m i) j \<longleftrightarrow> j \<noteq> i \<and> get m j"
begin

lemma clear_bits_set1:
  assumes "in_range i"
  shows "{j. j < n \<and> \<not> get (set1 m i) j} = {j. j < n \<and> \<not> get m j} - {i}"
  using assms by (auto simp: get_set1)

lemma clear_bits_clear1:
  assumes "in_range i" "i < n"
  shows "{j. j < n \<and> \<not> get (clear1 m i) j} = insert i {j. j < n \<and> \<not> get m j}"
  using assms by (auto simp: get_clear1)

lemma card_clear_bits_set1:
  assumes "in_range i" "i < n" "\<not> get m i"
  shows "card {j. j < n \<and> \<not> get (set1 m i) j} = card {j. j < n \<and> \<not> get m j} - 1"
  using assms by (simp add: clear_bits_set1)

lemma card_clear_bits_clear1:
  assumes "in_range i" "i < n" "get m i"
  shows "card {j. j < n \<and> \<not> get (clear1 m i) j} = card {j. j < n \<and> \<not> get m j} + 1"
  using assms by (simp add: clear_bits_clear1)

lemma get_fold_set1:
  assumes "\<forall>i \<in> set is. in_range i"
  shows "get (fold (\<lambda>i m. set1 m i) is m) j \<longleftrightarrow> j \<in> set is \<or> get m j"
  using assms by (induction "is" arbitrary: m) (auto simp: get_set1)

end

section \<open>Contract: a source of fresh frames\<close>

text \<open>
  Three allocators of the kernel hand out addresses from a pool that only shrinks: the page
  bitmap (\<open>alloc_page\<close>), the page-table bump allocator (\<open>alloc_page_table\<close>) and the stack bump
  allocator (\<open>alloc_stack\<close>). \<open>pool\<close> is the set of addresses that are still available.
\<close>

fun alloc_many :: "('s \<Rightarrow> ('e + 'a) \<times> 's) \<Rightarrow> nat \<Rightarrow> 's \<Rightarrow> 'a list \<times> 's" where
  "alloc_many alloc 0 s = ([], s)"
| "alloc_many alloc (Suc n) s =
     (case alloc s of
        (Inl e, s') \<Rightarrow> ([], s')
      | (Inr a, s') \<Rightarrow> (let (as, s'') = alloc_many alloc n s' in (a # as, s'')))"

locale frame_source =
  fixes alloc :: "'s \<Rightarrow> ('e + 'a) \<times> 's"
    and pool :: "'s \<Rightarrow> 'a set"
    and invar :: "'s \<Rightarrow> bool"
  assumes alloc_Inr: "invar s \<Longrightarrow> alloc s = (Inr a, s') \<Longrightarrow>
            a \<in> pool s \<and> pool s' = pool s - {a} \<and> invar s'"
    and alloc_Inl: "invar s \<Longrightarrow> alloc s = (Inl e, s') \<Longrightarrow> pool s = {} \<and> s' = s"
    and finite_pool: "invar s \<Longrightarrow> finite (pool s)"
begin

lemma alloc_total:
  assumes "invar s" "pool s \<noteq> {}"
  shows "\<exists>a s'. alloc s = (Inr a, s')"
proof (cases "alloc s")
  case (Pair r s')
  then show ?thesis using assms alloc_Inl by (cases r) auto
qed

lemma alloc_many_spec:
  assumes "invar s" "alloc_many alloc n s = (as, s')"
  shows "distinct as \<and> set as \<subseteq> pool s \<and> pool s' = pool s - set as \<and> invar s'
    \<and> length as = min n (card (pool s))"
  using assms
proof (induction n arbitrary: s as s')
  case 0
  then show ?case by simp
next
  case (Suc n)
  obtain r t where rt: "alloc s = (r, t)" by (cases "alloc s")
  show ?case
  proof (cases r)
    case (Inl e)
    then show ?thesis using Suc.prems rt alloc_Inl[of s e t] by auto
  next
    case (Inr a)
    obtain bs u where bs: "alloc_many alloc n t = (bs, u)" by (cases "alloc_many alloc n t")
    have step: "a \<in> pool s" "pool t = pool s - {a}" "invar t"
      using alloc_Inr[of s a t] Suc.prems(1) rt Inr by auto
    have IH: "distinct bs \<and> set bs \<subseteq> pool t \<and> pool u = pool t - set bs \<and> invar u
        \<and> length bs = min n (card (pool t))"
      using Suc.IH[OF step(3) bs] .
    have as: "as = a # bs" "s' = u" using Suc.prems(2) rt Inr bs by auto
    have fin: "finite (pool s)" using finite_pool[OF Suc.prems(1)] .
    have "card (pool s) = Suc (card (pool t))"
      unfolding step(2) using card.remove[OF fin step(1)] .
    then have "length as = min (Suc n) (card (pool s))" using IH as by simp
    moreover have "distinct as \<and> set as \<subseteq> pool s \<and> pool s' = pool s - set as \<and> invar s'"
      using IH as step(1) unfolding step(2) by auto
    ultimately show ?thesis by blast
  qed
qed

end

end
