(* ===== verification/Bytes.thy ===== *)
theory Bytes
  imports Prelude
begin

text \<open>
  Byte buffers as the parsers of the kernel use them: indexing and slicing that panic out of range
  (\<open>None\<close>), little-endian integers (\<open>from_le_bytes\<close>, \<open>to_le_bytes\<close>) and the assembly of a \<open>String\<close> from
  UTF-16 units. Strings are lists of bytes in UTF-8, as \<open>str\<close> is.
\<close>

section \<open>Checked access\<close>

definition byte_at :: "u8 list \<Rightarrow> usize \<Rightarrow> u8 option" where
  "byte_at data i = (if i < length data then Some (data ! i) else None)"

definition slice :: "u8 list \<Rightarrow> usize \<Rightarrow> usize \<Rightarrow> u8 list option" where
  "slice data i j = (if i \<le> j \<and> j \<le> length data then Some (take (j - i) (drop i data)) else None)"

fun bytes_at :: "u8 list \<Rightarrow> usize \<Rightarrow> nat \<Rightarrow> u8 list option" where
  "bytes_at data i 0 = Some []"
| "bytes_at data i (Suc n) =
     (case byte_at data i of
        None \<Rightarrow> None
      | Some b \<Rightarrow> map_option (Cons b) (bytes_at data (i + 1) n))"

section \<open>Little-endian integers\<close>

primrec le_word :: "u8 list \<Rightarrow> 'a :: len word" where
  "le_word [] = 0"
| "le_word (b # bs) = ucast b + 256 * le_word bs"

definition le_u16 :: "u8 list \<Rightarrow> usize \<Rightarrow> u16 option" where
  "le_u16 data i = map_option le_word (bytes_at data i 2)"

definition le_u32 :: "u8 list \<Rightarrow> usize \<Rightarrow> u32 option" where
  "le_u32 data i = map_option le_word (bytes_at data i 4)"

definition le_u64 :: "u8 list \<Rightarrow> usize \<Rightarrow> u64 option" where
  "le_u64 data i = map_option le_word (bytes_at data i 8)"

primrec to_le_bytes :: "nat \<Rightarrow> nat \<Rightarrow> u8 list" where
  "to_le_bytes 0 n = []"
| "to_le_bytes (Suc k) n = word_of_nat (n mod 256) # to_le_bytes k (n div 256)"

section \<open>Strings\<close>

text \<open>\<open>char::from_u32\<close> on a UTF-16 unit: surrogates are not characters.\<close>

definition char_from_u16 :: "u16 \<Rightarrow> nat option" where
  "char_from_u16 u = (if 0xD800 \<le> unat u \<and> unat u \<le> 0xDFFF then None else Some (unat u))"

text \<open>\<open>String::push\<close>: the UTF-8 encoding of a character below \<open>0x10000\<close>.\<close>

definition utf8 :: "nat \<Rightarrow> string" where
  "utf8 c =
     (if c < 0x80 then [char_of c]
      else if c < 0x800 then [char_of (0xC0 + c div 64), char_of (0x80 + c mod 64)]
      else [char_of (0xE0 + c div 4096), char_of (0x80 + c div 64 mod 64), char_of (0x80 + c mod 64)])"

definition push_u16 :: "u16 \<Rightarrow> string \<Rightarrow> string" where
  "push_u16 u name = (case char_from_u16 u of None \<Rightarrow> name | Some c \<Rightarrow> name @ utf8 c)"

section \<open>Laws\<close>

lemma bytes_at_eq:
  "bytes_at data i n = (if i + n \<le> length data \<or> n = 0 then Some (take n (drop i data)) else None)"
proof (induction n arbitrary: i)
  case (Suc n)
  show ?case
  proof (cases "i < length data")
    case True
    then have "take (Suc n) (drop i data) = data ! i # take n (drop (Suc i) data)"
      by (simp add: Cons_nth_drop_Suc[symmetric])
    then show ?thesis using True Suc.IH[of "Suc i"] by (auto simp: byte_at_def)
  qed (simp add: byte_at_def)
qed simp

lemma byte_at_in [simp]: "i < length data \<Longrightarrow> byte_at data i = Some (data ! i)"
  by (simp add: byte_at_def)

lemma le_in:
  "i + 2 \<le> length data \<Longrightarrow> le_u16 data i = Some (le_word (take 2 (drop i data)))"
  "i + 4 \<le> length data \<Longrightarrow> le_u32 data i = Some (le_word (take 4 (drop i data)))"
  "i + 8 \<le> length data \<Longrightarrow> le_u64 data i = Some (le_word (take 8 (drop i data)))"
  by (simp_all add: le_u16_def le_u32_def le_u64_def bytes_at_eq)

lemma le_defined:
  "i + 2 \<le> length data \<Longrightarrow> \<exists>v. le_u16 data i = Some v"
  "i + 4 \<le> length data \<Longrightarrow> \<exists>v. le_u32 data i = Some v"
  "i + 8 \<le> length data \<Longrightarrow> \<exists>v. le_u64 data i = Some v"
  by (simp_all add: le_in)

lemma slice_in [simp]: "i \<le> j \<Longrightarrow> j \<le> length data \<Longrightarrow> slice data i j = Some (take (j - i) (drop i data))"
  by (simp add: slice_def)

lemma slice_None: "slice data i j = None \<longleftrightarrow> j < i \<or> length data < j"
  by (auto simp: slice_def)

lemma length_to_le_bytes [simp]: "length (to_le_bytes k n) = k"
  by (induction k arbitrary: n) auto

lemma to_le_bytes_numeral [simp]:
  "to_le_bytes (numeral k) n = word_of_nat (n mod 256) # to_le_bytes (pred_numeral k) (n div 256)"
  unfolding numeral_eq_Suc[of k] by simp

lemma unat_of_nat_small:
  "n < 2 ^ 8 \<Longrightarrow> unat (word_of_nat n :: u8) = n"
  "n < 2 ^ 16 \<Longrightarrow> unat (word_of_nat n :: u16) = n"
  "n < 2 ^ 32 \<Longrightarrow> unat (word_of_nat n :: u32) = n"
  "n < 2 ^ 64 \<Longrightarrow> unat (word_of_nat n :: u64) = n"
  by (simp_all add: unat_of_nat take_bit_nat_eq_self)

lemma le_word_to_le_bytes:
  "le_word (to_le_bytes k n) = (word_of_nat (n mod 256 ^ k) :: 'a :: len word)"
proof (induction k arbitrary: n)
  case (Suc k)
  have u: "ucast (word_of_nat (n mod 256) :: u8) = (word_of_nat (n mod 256) :: 'a word)"
    by (simp add: word_unat_eq_iff unsigned_ucast_eq unat_of_nat take_bit_eq_mod)
  have "le_word (to_le_bytes (Suc k) n) = (word_of_nat (n mod 256 + 256 * ((n div 256) mod 256 ^ k)) :: 'a word)"
    using Suc.IH u by simp
  also have "n mod 256 + 256 * ((n div 256) mod 256 ^ k) = n mod 256 ^ Suc k"
    by (simp add: mod_mult2_eq)
  finally show ?case .
qed simp

lemma le_word_to_le_bytes_id:
  fixes w :: "'a :: len word"
  assumes "LENGTH('a) \<le> 8 * k"
  shows "le_word (to_le_bytes k (unat w)) = w"
proof -
  have "unat w < 2 ^ LENGTH('a)" by (rule unsigned_less)
  also have "(2 :: nat) ^ LENGTH('a) \<le> 2 ^ (8 * k)" by (rule power_increasing) (use assms in auto)
  also have "(2 :: nat) ^ (8 * k) = 256 ^ k" by (simp add: power_mult)
  finally show ?thesis by (simp add: le_word_to_le_bytes)
qed

lemma utf8_ascii: "c < 0x80 \<Longrightarrow> utf8 c = [char_of c]"
  by (simp add: utf8_def)

end
