(* ===== verification/Ordered_Map.thy ===== *)
theory Ordered_Map
  imports Main
begin

text \<open>
  The standard library's \<open>BTreeMap\<close>, which the file system layer, the NTFS volume and the module
  manager use: an association list with strictly increasing keys. A map has one representation
  only, so that equality of maps is equality of their contents, and iteration goes through the
  keys in increasing order. The contract \<open>handle_table\<close> describes a component that hands out
  increasing handles as keys of such a map.
\<close>

type_synonym ('k, 'v) btree = "('k \<times> 'v) list"

section \<open>Operations\<close>

definition btree_inv :: "('k :: linorder, 'v) btree \<Rightarrow> bool" where
  "btree_inv m = sorted_wrt (<) (map fst m)"

abbreviation btree_get :: "('k, 'v) btree \<Rightarrow> 'k \<Rightarrow> 'v option" where
  "btree_get \<equiv> map_of"

definition contains_key :: "('k, 'v) btree \<Rightarrow> 'k \<Rightarrow> bool" where
  "contains_key m k = (btree_get m k \<noteq> None)"

fun btree_insert :: "'k :: linorder \<Rightarrow> 'v \<Rightarrow> ('k, 'v) btree \<Rightarrow> ('k, 'v) btree" where
  "btree_insert k v [] = [(k, v)]"
| "btree_insert k v ((k', v') # m) =
     (if k < k' then (k, v) # (k', v') # m
      else if k = k' then (k, v) # m
      else (k', v') # btree_insert k v m)"

definition btree_remove :: "'k \<Rightarrow> ('k, 'v) btree \<Rightarrow> ('k, 'v) btree" where
  "btree_remove k m = filter (\<lambda>p. fst p \<noteq> k) m"

abbreviation btree_keys :: "('k, 'v) btree \<Rightarrow> 'k list" where
  "btree_keys \<equiv> map fst"

definition key_set :: "('k, 'v) btree \<Rightarrow> 'k set" where
  "key_set m = set (btree_keys m)"

abbreviation btree_values :: "('k, 'v) btree \<Rightarrow> 'v list" where
  "btree_values \<equiv> map snd"

section \<open>Laws\<close>

lemma btree_get_insert [simp]:
  "btree_get (btree_insert k v m) = (btree_get m)(k \<mapsto> v)"
  by (induction k v m rule: btree_insert.induct) (auto simp: fun_upd_twist)

lemma btree_get_remove [simp]:
  "btree_get (btree_remove k m) = (btree_get m)(k := None)"
  by (induction m) (auto simp: btree_remove_def)

lemma contains_key_insert [simp]:
  "contains_key (btree_insert k v m) j \<longleftrightarrow> j = k \<or> contains_key m j"
  by (simp add: contains_key_def)

lemma contains_key_iff: "contains_key m k \<longleftrightarrow> k \<in> key_set m"
  by (auto simp: contains_key_def key_set_def map_of_eq_None_iff)

lemma key_set_simps [simp]: "key_set [] = {}" "key_set ((k, v) # m) = insert k (key_set m)"
  by (simp_all add: key_set_def)

lemma key_set_mem: "(k, v) \<in> set m \<Longrightarrow> k \<in> key_set m"
  by (force simp: key_set_def)

lemma keys_insert [simp]:
  "key_set (btree_insert k v m) = insert k (key_set m)"
  by (induction k v m rule: btree_insert.induct) auto

lemma keys_remove [simp]:
  "key_set (btree_remove k m) = key_set m - {k}"
  by (auto simp: btree_remove_def key_set_def)

lemma btree_inv_Nil [simp]: "btree_inv []"
  by (simp add: btree_inv_def)

lemma btree_inv_Cons:
  "btree_inv ((k, v) # m) \<longleftrightarrow> (\<forall>j \<in> key_set m. k < j) \<and> btree_inv m"
  by (auto simp: btree_inv_def key_set_def)

lemma btree_inv_insert [simp]:
  "btree_inv m \<Longrightarrow> btree_inv (btree_insert k v m)"
proof (induction k v m rule: btree_insert.induct)
  case (2 k v k' v' m)
  then have m: "\<forall>j \<in> key_set m. k' < j" "btree_inv m" by (simp_all add: btree_inv_Cons)
  consider "k < k'" | "k = k'" | "k' < k" by (rule linorder_cases)
  then show ?case
  proof cases
    case 3
    then have "\<forall>j \<in> key_set (btree_insert k v m). k' < j" using m(1) by simp
    moreover have "\<not> k < k'" "k \<noteq> k'" using 3 by auto
    ultimately show ?thesis using 2(1) m(2) by (simp add: btree_inv_Cons)
  qed (use m in \<open>auto simp: btree_inv_Cons dest: less_trans\<close>)
qed (simp add: btree_inv_def)

lemma btree_inv_remove [simp]:
  "btree_inv m \<Longrightarrow> btree_inv (btree_remove k m)"
  by (induction m) (auto simp: btree_remove_def btree_inv_def)

lemma btree_inv_distinct: "btree_inv m \<Longrightarrow> distinct (btree_keys m)"
  by (induction m) (auto simp: btree_inv_def)

lemma btree_get_mem:
  "btree_inv m \<Longrightarrow> btree_get m k = Some v \<longleftrightarrow> (k, v) \<in> set m"
  using btree_inv_distinct[of m] by simp

lemma btree_remove_absent:
  "\<not> contains_key m k \<Longrightarrow> btree_remove k m = m"
  by (induction m) (auto simp: btree_remove_def contains_key_def split: if_splits)

lemma btree_remove_insert [simp]:
  "\<not> contains_key m k \<Longrightarrow> btree_remove k (btree_insert k v m) = m"
proof (induction k v m rule: btree_insert.induct)
  case (2 k v k' v' m)
  then have "\<not> contains_key m k" "k \<noteq> k'" by (auto simp: contains_key_iff)
  with 2 show ?case using btree_remove_absent[of m k] by (auto simp: btree_remove_def)
qed (simp add: btree_remove_def)

lemma btree_insert_twice [simp]: "btree_insert k v (btree_insert k w m) = btree_insert k v m"
  by (induction k w m rule: btree_insert.induct) auto

lemma set_btree_insert:
  "btree_inv m \<Longrightarrow> set (btree_insert k v m) = insert (k, v) {p \<in> set m. fst p \<noteq> k}"
proof (induction k v m rule: btree_insert.induct)
  case (2 k v k' v' m)
  then have m: "\<forall>p \<in> set m. k' < fst p" "btree_inv m" by (auto simp: btree_inv_Cons key_set_def)
  consider "k < k'" | "k = k'" | "k' < k" by (rule linorder_cases)
  then show ?case
  proof cases
    case 3
    then show ?thesis using 2(1) m(2) by auto
  qed (use m in fastforce)+
qed simp

text \<open>A key beyond all keys is appended: the case of an increasing counter.\<close>

lemma btree_insert_last:
  "\<forall>j \<in> key_set m. j < k \<Longrightarrow> btree_insert k v m = m @ [(k, v)]"
  by (induction k v m rule: btree_insert.induct) (auto dest: less_asym)

section \<open>Contract: handles from a counter\<close>

text \<open>
  A component that stores objects under handles taken from a counter. \<open>acquire\<close> returns the handle
  under which it stored an object. A handle is fresh: it is above every handle in use, so that a stale handle never
  denotes a newer object. A handle table also has \<open>release\<close>, which drops any handle in use.
\<close>

locale handle_source =
  fixes handles :: "'s \<Rightarrow> 'h :: linorder set"
    and invar :: "'s \<Rightarrow> bool"
    and acquire :: "'a \<Rightarrow> 's \<Rightarrow> ('e + 'h) \<times> 's"
    and ready :: "'s \<Rightarrow> bool"
  assumes acquire_Ok: "invar s \<Longrightarrow> ready s \<Longrightarrow> acquire a s = (Inr h, s') \<Longrightarrow>
            (\<forall>j \<in> handles s. j < h) \<and> handles s' = insert h (handles s) \<and> invar s'"
    and acquire_Err: "invar s \<Longrightarrow> acquire a s = (Inl e, s') \<Longrightarrow> handles s' = handles s \<and> invar s'"
begin

lemma acquire_fresh:
  assumes "invar s" "ready s" "acquire a s = (Inr h, s')"
  shows "h \<notin> handles s" "handles s' - handles s = {h}"
  using acquire_Ok[OF assms] by auto

lemma acquire_invar:
  assumes "invar s" "ready s"
  shows "invar (snd (acquire a s))"
proof -
  obtain r s' where r: "acquire a s = (r, s')" by fastforce
  show ?thesis
  proof (cases r)
    case (Inl e)
    then show ?thesis using acquire_Err[OF assms(1), of a e s'] r by simp
  next
    case (Inr h)
    then show ?thesis using acquire_Ok[OF assms, of a h s'] r by simp
  qed
qed

end

locale handle_table = handle_source handles invar acquire ready
  for handles :: "'s \<Rightarrow> 'h :: linorder set" and invar :: "'s \<Rightarrow> bool"
    and acquire :: "'a \<Rightarrow> 's \<Rightarrow> ('e + 'h) \<times> 's" and ready :: "'s \<Rightarrow> bool" +
  fixes release :: "'h \<Rightarrow> 's \<Rightarrow> ('e + unit) \<times> 's"
  assumes release_Ok: "invar s \<Longrightarrow> release h s = (Inr (), s') \<Longrightarrow>
            h \<in> handles s \<and> handles s' = handles s - {h} \<and> invar s'"
    and release_Err: "invar s \<Longrightarrow> release h s = (Inl e, s') \<Longrightarrow> h \<notin> handles s \<and> s' = s"
begin

lemma acquire_release:
  assumes "invar s" "ready s" "acquire a s = (Inr h, s1)"
  shows "\<exists>s2. release h s1 = (Inr (), s2) \<and> handles s2 = handles s \<and> invar s2"
proof -
  have a: "\<forall>j \<in> handles s. j < h" "handles s1 = insert h (handles s)" "invar s1"
    using acquire_Ok[OF assms] by auto
  obtain r s2 where r: "release h s1 = (r, s2)" by (cases "release h s1")
  show ?thesis
  proof (cases r)
    case (Inl e)
    then show ?thesis using release_Err[OF a(3)] r a(2) by auto
  next
    case (Inr u)
    then show ?thesis using release_Ok[OF a(3), of h s2] r a by auto
  qed
qed

lemma release_twice:
  assumes "invar s" "release h s = (Inr (), s1)"
  shows "\<exists>e. release h s1 = (Inl e, s1)"
proof -
  have a: "handles s1 = handles s - {h}" "invar s1" using release_Ok[OF assms] by auto
  obtain r s2 where r: "release h s1 = (r, s2)" by (cases "release h s1")
  show ?thesis
  proof (cases r)
    case (Inl e)
    then show ?thesis using release_Err[OF a(2)] r by auto
  next
    case (Inr u)
    then show ?thesis using release_Ok[OF a(2), of h s2] r a(1) by auto
  qed
qed

end

end
