(* ===== verification/Vfs.thy ===== *)
theory Vfs
  imports Bytes Ordered_Map "HOL-Library.Sublist" "HOL-Library.List_Lexorder" "HOL-Library.Char_ord"
begin

text \<open>
  The virtual file system (\<open>src/src/fs/vfs.rs\<close>): its data types, the descriptor operations and the \<open>Vfs\<close> itself.
  The traits \<open>Inode\<close> and \<open>FileSystem\<close> are records of their methods, which the operations take as arguments; a
  boxed trait object is a value of the type \<open>'i\<close> or \<open>'f\<close> the methods work on. A method that takes
  \<open>&mut self\<close> returns the changed object. File offsets (\<open>i64\<close>) are 64-bit words read as two's complement.
\<close>

section \<open>Data\<close>

datatype FileSystemType = NTFS | FAT32 | RamFs | ProcFs | DevFs | UnknownFs

fun fs_type_display :: "FileSystemType \<Rightarrow> string" where
  "fs_type_display NTFS = ''ntfs''"
| "fs_type_display FAT32 = ''fat32''"
| "fs_type_display RamFs = ''ramfs''"
| "fs_type_display ProcFs = ''procfs''"
| "fs_type_display DevFs = ''devfs''"
| "fs_type_display UnknownFs = ''unknown''"

datatype FileType = Regular | Directory | Symlink | Device | Pipe | UnknownFile

record FilePermissions =
  owner_read :: bool
  owner_write :: bool
  owner_execute :: bool
  group_read :: bool
  group_write :: bool
  group_execute :: bool
  others_read :: bool
  others_write :: bool
  others_execute :: bool

definition file_permissions_default :: FilePermissions where
  "file_permissions_default =
     \<lparr>owner_read = True, owner_write = True, owner_execute = False,
      group_read = True, group_write = False, group_execute = False,
      others_read = True, others_write = False, others_execute = False\<rparr>"

record FileMetadata =
  fm_inode :: u64
  fm_file_type :: FileType
  fm_size :: u64
  fm_permissions :: FilePermissions
  fm_created :: u64
  fm_modified :: u64
  fm_accessed :: u64
  fm_nlinks :: u64
  fm_uid :: u32
  fm_gid :: u32

record DirEntry =
  de_name :: string
  de_inode :: u64
  de_file_type :: FileType

type_synonym OpenFlags = u32

definition READ_ONLY :: OpenFlags where "READ_ONLY = 0x01"
definition WRITE_ONLY :: OpenFlags where "WRITE_ONLY = 0x02"
definition READ_WRITE :: OpenFlags where "READ_WRITE = 0x03"
definition CREATE :: OpenFlags where "CREATE = 0x10"
definition TRUNCATE :: OpenFlags where "TRUNCATE = 0x20"
definition APPEND :: OpenFlags where "APPEND = 0x40"
definition EXCLUSIVE :: OpenFlags where "EXCLUSIVE = 0x80"

definition flags_contain :: "OpenFlags \<Rightarrow> OpenFlags \<Rightarrow> bool" where
  "flags_contain fl f = (fl AND f = f)"

type_synonym FileOffset = u64

record FileSystemStats =
  total_size :: u64
  free_space :: u64
  total_inodes :: u64
  free_inodes :: u64
  block_size :: u64
  max_name_length :: u32

section \<open>Traits\<close>

record 'i Inode =
  i_metadata :: "'i \<Rightarrow> FileMetadata KernelResult"
  i_read :: "'i \<Rightarrow> FileOffset \<Rightarrow> u8 list \<Rightarrow> usize KernelResult \<times> u8 list"
  i_write :: "'i \<Rightarrow> FileOffset \<Rightarrow> u8 list \<Rightarrow> usize KernelResult \<times> 'i"
  i_readdir :: "'i \<Rightarrow> DirEntry list KernelResult"
  i_lookup :: "'i \<Rightarrow> string \<Rightarrow> 'i KernelResult"
  i_create :: "'i \<Rightarrow> string \<Rightarrow> FileType \<Rightarrow> 'i KernelResult \<times> 'i"
  i_unlink :: "'i \<Rightarrow> string \<Rightarrow> unit KernelResult \<times> 'i"
  i_truncate :: "'i \<Rightarrow> u64 \<Rightarrow> unit KernelResult \<times> 'i"
  i_clone_inode :: "'i \<Rightarrow> 'i"

record ('f, 'i) FileSystem =
  f_fs_type :: "'f \<Rightarrow> FileSystemType"
  f_label :: "'f \<Rightarrow> string"
  f_root_inode :: "'f \<Rightarrow> 'i"
  f_get_inode :: "'f \<Rightarrow> u64 \<Rightarrow> 'i KernelResult"
  f_sync :: "'f \<Rightarrow> unit KernelResult"
  f_statfs :: "'f \<Rightarrow> FileSystemStats KernelResult"

record MountFlags =
  read_only :: bool
  no_exec :: bool
  no_suid :: bool

definition mount_flags_default :: MountFlags where
  "mount_flags_default = \<lparr>read_only = False, no_exec = False, no_suid = False\<rparr>"

record 'f MountPoint =
  mp_path :: string
  mp_fs :: 'f
  mp_flags :: MountFlags

section \<open>File descriptors\<close>

record 'i FileDescriptor =
  fd_inode :: 'i
  fd_flags :: OpenFlags
  fd_offset :: FileOffset

definition file_descriptor_new :: "'i \<Rightarrow> OpenFlags \<Rightarrow> 'i FileDescriptor" where
  "file_descriptor_new inode fl = \<lparr>fd_inode = inode, fd_flags = fl, fd_offset = 0\<rparr>"

definition fd_read ::
  "'i Inode \<Rightarrow> u8 list \<Rightarrow> 'i FileDescriptor \<Rightarrow> usize KernelResult \<times> u8 list \<times> 'i FileDescriptor" where
  "fd_read io buffer f =
     (if \<not> flags_contain (fd_flags f) READ_ONLY \<and> \<not> flags_contain (fd_flags f) READ_WRITE
      then (Err AccessDenied, buffer, f)
      else case i_read io (fd_inode f) (fd_offset f) buffer of
             (Err e, buffer') \<Rightarrow> (Err e, buffer', f)
           | (Ok bytes_read, buffer') \<Rightarrow>
               (Ok bytes_read, buffer', f\<lparr>fd_offset := fd_offset f + word_of_nat bytes_read\<rparr>))"

definition fd_write ::
  "'i Inode \<Rightarrow> u8 list \<Rightarrow> 'i FileDescriptor \<Rightarrow> usize KernelResult \<times> 'i FileDescriptor" where
  "fd_write io data f =
     (if \<not> flags_contain (fd_flags f) WRITE_ONLY \<and> \<not> flags_contain (fd_flags f) READ_WRITE
      then (Err AccessDenied, f)
      else case i_write io (fd_inode f) (fd_offset f) data of
             (Err e, inode') \<Rightarrow> (Err e, f\<lparr>fd_inode := inode'\<rparr>)
           | (Ok bytes_written, inode') \<Rightarrow>
               (Ok bytes_written,
                f\<lparr>fd_inode := inode', fd_offset := fd_offset f + word_of_nat bytes_written\<rparr>))"

definition fd_seek :: "FileOffset \<Rightarrow> 'i FileDescriptor \<Rightarrow> FileOffset KernelResult \<times> 'i FileDescriptor" where
  "fd_seek off f = (let f' = f\<lparr>fd_offset := off\<rparr> in (Ok (fd_offset f'), f'))"

definition fd_position :: "'i FileDescriptor \<Rightarrow> FileOffset" where
  "fd_position f = fd_offset f"

definition fd_metadata :: "'i Inode \<Rightarrow> 'i FileDescriptor \<Rightarrow> FileMetadata KernelResult" where
  "fd_metadata io f = i_metadata io (fd_inode f)"

section \<open>The virtual file system\<close>

record ('f, 'i) Vfs =
  mount_points :: "(string, 'f MountPoint) btree"
  next_fd :: u64
  open_files :: "(u64, 'i FileDescriptor) btree"

definition vfs_new :: "('f, 'i) Vfs" where
  "vfs_new = \<lparr>mount_points = [], next_fd = 3, open_files = []\<rparr>"

definition vfs_mount ::
  "string \<Rightarrow> 'f \<Rightarrow> MountFlags \<Rightarrow> ('f, 'i) Vfs \<Rightarrow> unit KernelResult \<times> ('f, 'i) Vfs" where
  "vfs_mount path fs fl v =
     (if contains_key (mount_points v) path then (Err PageAlreadyMapped, v)
      else (Ok (), v\<lparr>mount_points :=
              btree_insert path \<lparr>mp_path = path, mp_fs = fs, mp_flags = fl\<rparr> (mount_points v)\<rparr>))"

definition vfs_unmount :: "string \<Rightarrow> ('f, 'i) Vfs \<Rightarrow> unit KernelResult \<times> ('f, 'i) Vfs" where
  "vfs_unmount path v =
     (if contains_key (mount_points v) path
      then (Ok (), v\<lparr>mount_points := btree_remove path (mount_points v)\<rparr>)
      else (Err FileSystemNotFound, v))"

definition better_mount :: "string \<Rightarrow> string \<Rightarrow> string \<times> usize \<Rightarrow> string \<times> usize" where
  "better_mount path mount_path = (\<lambda>(best_mount, best_len).
     if prefix mount_path path \<and> length mount_path > best_len
     then (mount_path, length mount_path) else (best_mount, best_len))"

definition resolve_mount_point :: "string \<Rightarrow> ('f, 'i) Vfs \<Rightarrow> (string \<times> string) KernelResult" where
  "resolve_mount_point path v =
     (let (best_mount, best_len) = fold (better_mount path) (btree_keys (mount_points v)) ([], 0) in
      if best_mount = []
      then (if contains_key (mount_points v) ''/'' then Ok (''/'', path) else Err FileSystemNotFound)
      else Ok (best_mount, drop best_len path))"

fun split_slash :: "string \<Rightarrow> string list" where
  "split_slash [] = [[]]"
| "split_slash (c # cs) =
     (if c = CHR ''/'' then [] # split_slash cs
      else case split_slash cs of [] \<Rightarrow> [[c]] | p # ps \<Rightarrow> (c # p) # ps)"

fun lookup_all :: "'i Inode \<Rightarrow> 'i \<Rightarrow> string list \<Rightarrow> 'i KernelResult" where
  "lookup_all io cur [] = Ok cur"
| "lookup_all io cur (c # cs) =
     (case i_lookup io cur c of Err e \<Rightarrow> Err e | Ok cur' \<Rightarrow> lookup_all io cur' cs)"

definition traverse_path :: "'i Inode \<Rightarrow> 'i \<Rightarrow> string \<Rightarrow> 'i KernelResult" where
  "traverse_path io root path =
     (if path = [] \<or> path = ''/'' then Ok root
      else lookup_all io root (filter (\<lambda>s. s \<noteq> []) (split_slash path)))"

definition vfs_inode_of ::
  "('f, 'i) FileSystem \<Rightarrow> 'i Inode \<Rightarrow> string \<Rightarrow> ('f, 'i) Vfs \<Rightarrow> 'i KernelResult" where
  "vfs_inode_of fo io path v =
     (case resolve_mount_point path v of
        Err e \<Rightarrow> Err e
      | Ok (mount_path, relative_path) \<Rightarrow>
          (case btree_get (mount_points v) mount_path of
             None \<Rightarrow> Err FileSystemNotFound
           | Some mount \<Rightarrow> traverse_path io (f_root_inode fo (mp_fs mount)) relative_path))"

definition vfs_open ::
  "('f, 'i) FileSystem \<Rightarrow> 'i Inode \<Rightarrow> string \<Rightarrow> OpenFlags \<Rightarrow> ('f, 'i) Vfs \<Rightarrow> u64 KernelResult \<times> ('f, 'i) Vfs" where
  "vfs_open fo io path fl v =
     (case vfs_inode_of fo io path v of
        Err e \<Rightarrow> (Err e, v)
      | Ok inode \<Rightarrow>
          let fd = next_fd v in
          (Ok fd, v\<lparr>next_fd := next_fd v + 1,
                    open_files := btree_insert fd (file_descriptor_new inode fl) (open_files v)\<rparr>))"

definition vfs_close :: "u64 \<Rightarrow> ('f, 'i) Vfs \<Rightarrow> unit KernelResult \<times> ('f, 'i) Vfs" where
  "vfs_close fd v =
     (if contains_key (open_files v) fd
      then (Ok (), v\<lparr>open_files := btree_remove fd (open_files v)\<rparr>)
      else (Err InvalidArgument, v))"

definition vfs_read ::
  "'i Inode \<Rightarrow> u64 \<Rightarrow> u8 list \<Rightarrow> ('f, 'i) Vfs \<Rightarrow> usize KernelResult \<times> u8 list \<times> ('f, 'i) Vfs" where
  "vfs_read io fd buffer v =
     (case btree_get (open_files v) fd of
        None \<Rightarrow> (Err InvalidArgument, buffer, v)
      | Some f \<Rightarrow>
          let (r, buffer', f') = fd_read io buffer f
          in (r, buffer', v\<lparr>open_files := btree_insert fd f' (open_files v)\<rparr>))"

definition vfs_write ::
  "'i Inode \<Rightarrow> u64 \<Rightarrow> u8 list \<Rightarrow> ('f, 'i) Vfs \<Rightarrow> usize KernelResult \<times> ('f, 'i) Vfs" where
  "vfs_write io fd data v =
     (case btree_get (open_files v) fd of
        None \<Rightarrow> (Err InvalidArgument, v)
      | Some f \<Rightarrow>
          let (r, f') = fd_write io data f
          in (r, v\<lparr>open_files := btree_insert fd f' (open_files v)\<rparr>))"

definition vfs_readdir ::
  "('f, 'i) FileSystem \<Rightarrow> 'i Inode \<Rightarrow> string \<Rightarrow> ('f, 'i) Vfs \<Rightarrow> DirEntry list KernelResult" where
  "vfs_readdir fo io path v =
     (case vfs_inode_of fo io path v of Err e \<Rightarrow> Err e | Ok inode \<Rightarrow> i_readdir io inode)"

definition vfs_statfs ::
  "('f, 'i) FileSystem \<Rightarrow> string \<Rightarrow> ('f, 'i) Vfs \<Rightarrow> FileSystemStats KernelResult" where
  "vfs_statfs fo path v =
     (case resolve_mount_point path v of
        Err e \<Rightarrow> Err e
      | Ok (mount_path, _) \<Rightarrow>
          (case btree_get (mount_points v) mount_path of
             None \<Rightarrow> Err FileSystemNotFound
           | Some mount \<Rightarrow> f_statfs fo (mp_fs mount)))"

definition list_mounts :: "('f, 'i) FileSystem \<Rightarrow> ('f, 'i) Vfs \<Rightarrow> (string \<times> FileSystemType) list" where
  "list_mounts fo v = map (\<lambda>m. (mp_path m, f_fs_type fo (mp_fs m))) (btree_values (mount_points v))"

section \<open>Path resolution\<close>

lemma prefix_same_length: "prefix a c \<Longrightarrow> prefix b c \<Longrightarrow> length a = length b \<Longrightarrow> a = b"
  by (auto simp: prefix_def)

text \<open>The loop keeps the longest mount path seen so far that is a prefix of the path.\<close>

lemma fold_better_mount:
  assumes "fold (better_mount path) ks (b, length b) = (b', n)" "prefix b path"
  shows "n = length b' \<and> prefix b' path \<and> (b' = b \<or> b' \<in> set ks) \<and> length b \<le> length b' \<and>
    (\<forall>q \<in> set ks. prefix q path \<longrightarrow> length q \<le> length b')"
  using assms
proof (induction ks arbitrary: b)
  case (Cons k ks)
  show ?case
  proof (cases "prefix k path \<and> length k > length b")
    case True
    then have "fold (better_mount path) ks (k, length k) = (b', n)"
      using Cons.prems(1) by (simp add: better_mount_def[of _ k])
    from Cons.IH[OF this] True show ?thesis by auto
  next
    case False
    then have "fold (better_mount path) ks (b, length b) = (b', n)"
      using Cons.prems(1) by (auto simp: better_mount_def[of _ k])
    from Cons.IH[OF this Cons.prems(2)] False show ?thesis by auto
  qed
qed auto

lemma resolve_mount_point_cases:
  obtains (mounted) m rel where
      "resolve_mount_point path v = Ok (m, rel)" "m \<noteq> []" "path = m @ rel" "contains_key (mount_points v) m"
      "\<forall>q \<in> key_set (mount_points v). prefix q path \<longrightarrow> length q \<le> length m"
  | (root) "resolve_mount_point path v = Ok (''/'', path)" "contains_key (mount_points v) ''/''"
      "\<forall>q \<in> key_set (mount_points v). prefix q path \<longrightarrow> q = []"
  | (missing) "resolve_mount_point path v = Err FileSystemNotFound" "\<not> contains_key (mount_points v) ''/''"
      "\<forall>q \<in> key_set (mount_points v). prefix q path \<longrightarrow> q = []"
proof -
  obtain b n where f: "fold (better_mount path) (btree_keys (mount_points v)) ([], length ([] :: string)) = (b, n)"
    by (rule prod.exhaust)
  note F = fold_better_mount[OF f, folded key_set_def]
  show thesis
  proof (cases "b = []")
    case True
    then have q: "\<forall>q \<in> key_set (mount_points v). prefix q path \<longrightarrow> q = []" using F by simp
    show thesis
    proof (cases "contains_key (mount_points v) ''/''")
      case True
      with \<open>b = []\<close> f show thesis by (intro root) (use q in \<open>simp_all add: resolve_mount_point_def\<close>)
    next
      case False
      with \<open>b = []\<close> f show thesis by (intro missing) (use q in \<open>simp_all add: resolve_mount_point_def\<close>)
    qed
  next
    case False
    moreover have "b \<in> key_set (mount_points v)" "prefix b path" "n = length b" using F False by auto
    moreover from this have "path = b @ drop (length b) path" by (auto simp: prefix_def)
    ultimately show thesis using f F
      by (intro mounted[of b "drop (length b) path"]) (auto simp: resolve_mount_point_def contains_key_iff)
  qed
qed

text \<open>
  Path resolution finds the innermost mount: the result is a mounted path that is a prefix of the
  path, the remainder is what follows it, and no other mounted prefix is longer; when no
  non-empty mounted path is a prefix, the path is taken relative to the mount at \<open>/\<close> if there is one
  and \<open>FileSystemNotFound\<close> is returned otherwise. In particular the mount found is always present in
  the mount table.
\<close>
theorem resolve_mount_point_longest:
  "(\<exists>m rel. resolve_mount_point path v = Ok (m, rel) \<and> contains_key (mount_points v) m \<and> m \<noteq> [] \<and> path = m @ rel \<and>
      (\<forall>q. contains_key (mount_points v) q \<longrightarrow> prefix q path \<longrightarrow> prefix q m)) \<or>
   (\<forall>q. contains_key (mount_points v) q \<longrightarrow> prefix q path \<longrightarrow> q = []) \<and>
   resolve_mount_point path v =
     (if contains_key (mount_points v) ''/'' then Ok (''/'', path) else Err FileSystemNotFound)"
proof (cases rule: resolve_mount_point_cases[of path v])
  case (mounted m rel)
  have "prefix q m" if "contains_key (mount_points v) q" "prefix q path" for q
  proof -
    have "length q \<le> length m" using mounted(5) that by (auto simp: contains_key_iff)
    moreover have "prefix m path" using mounted(3) by simp
    ultimately show ?thesis using that(2) prefix_length_prefix by blast
  qed
  then show ?thesis using mounted by blast
qed (auto simp: contains_key_iff)

definition demo_vfs :: "(nat, nat) Vfs" where
  "demo_vfs = snd (vfs_mount ''/dev'' 1 mount_flags_default (snd (vfs_mount ''/'' 0 mount_flags_default vfs_new)))"

theorem resolve_mount_point_longest_witness:
  "resolve_mount_point ''/dev/tty'' demo_vfs = Ok (''/dev'', ''/tty'') \<and> prefix ''/'' ''/dev'' \<and>
   resolve_mount_point ''/tty'' demo_vfs = Ok (''/'', ''tty'')"
proof -
  have a: "resolve_mount_point ''/dev/tty'' demo_vfs = Ok (''/dev'', ''/tty'')"
    "resolve_mount_point ''/tty'' demo_vfs = Ok (''/'', ''tty'')" "contains_key (mount_points demo_vfs) ''/''"
    by (simp_all add: demo_vfs_def vfs_mount_def vfs_new_def contains_key_def resolve_mount_point_def better_mount_def
        less_char_def)
  then show ?thesis using resolve_mount_point_longest[of "''/dev/tty''" demo_vfs] by auto
qed

section \<open>Descriptors\<close>

definition vfs_inv :: "('f, 'i) Vfs \<Rightarrow> bool" where
  "vfs_inv v \<longleftrightarrow> btree_inv (mount_points v) \<and> btree_inv (open_files v) \<and>
     (\<forall>fd \<in> key_set (open_files v). 3 \<le> fd \<and> fd < next_fd v)"

lemma vfs_new_inv: "vfs_inv vfs_new"
  by (simp add: vfs_inv_def vfs_new_def)

lemma vfs_inv_fresh: "vfs_inv v \<Longrightarrow> \<not> contains_key (open_files v) (next_fd v)"
  by (auto simp: vfs_inv_def contains_key_iff)

lemma word_next:
  fixes w :: u64
  assumes "unat w + 1 < 2 ^ 64"
  shows "unat (w + 1) = unat w + 1" "w < w + 1"
  using assms by (simp_all add: unat_add_lem[THEN iffD1] word_less_nat_alt)

text \<open>While the counter does not wrap, \<open>open\<close> and \<open>close\<close> manage a table of fresh handles.\<close>

definition fd_left :: "('f, 'i) Vfs \<Rightarrow> bool" where
  "fd_left v \<longleftrightarrow> unat (next_fd v) + 1 < 2 ^ 64 \<and> 3 \<le> next_fd v"

lemma vfs_open_Ok:
  assumes "vfs_inv v" "fd_left v" "vfs_open fo io path fl v = (Ok fd, v')"
  shows "fd = next_fd v \<and> vfs_inv v' \<and> next_fd v' = next_fd v + 1 \<and>
    key_set (open_files v') = insert fd (key_set (open_files v))"
proof -
  from assms(3) obtain inode where v: "fd = next_fd v" "v' = v\<lparr>next_fd := next_fd v + 1,
      open_files := btree_insert fd (file_descriptor_new inode fl) (open_files v)\<rparr>"
    by (auto simp: vfs_open_def Let_def split: sum.splits)
  have n: "next_fd v < next_fd v + 1" using assms(2) word_next(2) by (simp add: fd_left_def)
  have "j < next_fd v + 1" if "j < next_fd v" for j using that n by (rule less_trans)
  then show ?thesis using assms(1,2) n unfolding v vfs_inv_def fd_left_def by simp
qed

lemma vfs_close_outcome:
  assumes "vfs_inv v" "vfs_close fd v = (r, v')"
  shows "vfs_inv v' \<and> next_fd v' = next_fd v \<and>
    key_set (open_files v') = key_set (open_files v) - {fd} \<and>
    (if contains_key (open_files v) fd then r = Ok () else r = Err InvalidArgument \<and> v' = v)"
  using assms unfolding vfs_inv_def vfs_close_def
  by (auto simp: contains_key_iff split: if_splits)

interpretation fds: handle_table "\<lambda>v. key_set (open_files v)" vfs_inv
  "\<lambda>(path, fl). vfs_open fo io path fl" fd_left vfs_close
  for fo :: "('f, 'i) FileSystem" and io :: "'i Inode"
proof (unfold_locales, goal_cases)
  case (1 s a h s')
  obtain path fl where a: "a = (path, fl)" by (rule prod.exhaust)
  have "vfs_open fo io path fl s = (Ok h, s')" using 1(3) by (simp add: a)
  from vfs_open_Ok[OF 1(1,2) this] 1(1) show ?case unfolding vfs_inv_def[of s] by blast
next
  case (2 s a e s')
  then show ?case by (cases a) (auto simp: vfs_open_def Let_def split: sum.splits)
next
  case (3 s h s')
  then show ?case using vfs_close_outcome[OF 3] by (auto simp: contains_key_iff split: if_splits)
next
  case (4 s h e s')
  then show ?case using vfs_close_outcome[OF 4] by (auto simp: contains_key_iff split: if_splits)
qed

datatype 'f vfs_op =
    OpMount string 'f MountFlags
  | OpUnmount string
  | OpOpen string OpenFlags
  | OpClose u64
  | OpRead u64 "u8 list"
  | OpWrite u64 "u8 list"

text \<open>
  A run of operations, with a record of the descriptors that \<open>open\<close> returned and of those that
  \<open>close\<close> closed, oldest first.
\<close>

definition vfs_exec ::
  "('f, 'i) FileSystem \<Rightarrow> 'i Inode \<Rightarrow> 'f vfs_op \<Rightarrow> u64 list \<times> u64 list \<times> ('f, 'i) Vfs \<Rightarrow> u64 list \<times> u64 list \<times> ('f, 'i) Vfs" where
  "vfs_exec fo io op = (\<lambda>(opened, closed, v).
     case op of
       OpMount path fs fl \<Rightarrow> (opened, closed, snd (vfs_mount path fs fl v))
     | OpUnmount path \<Rightarrow> (opened, closed, snd (vfs_unmount path v))
     | OpOpen path fl \<Rightarrow>
         (case vfs_open fo io path fl v of (Err _, v') \<Rightarrow> (opened, closed, v') | (Ok fd, v') \<Rightarrow> (opened @ [fd], closed, v'))
     | OpClose fd \<Rightarrow>
         (case vfs_close fd v of (Err _, v') \<Rightarrow> (opened, closed, v') | (Ok _, v') \<Rightarrow> (opened, closed @ [fd], v'))
     | OpRead fd buffer \<Rightarrow> (opened, closed, snd (snd (vfs_read io fd buffer v)))
     | OpWrite fd data \<Rightarrow> (opened, closed, snd (vfs_write io fd data v)))"

definition fd_seq :: "nat \<Rightarrow> u64 list" where
  "fd_seq n = map word_of_nat [3..<3 + n]"

definition vfs_track :: "u64 list \<times> u64 list \<times> ('f, 'i) Vfs \<Rightarrow> bool" where
  "vfs_track = (\<lambda>(opened, closed, v).
     vfs_inv v \<and> unat (next_fd v) = 3 + length opened \<and> fd_seq (length opened) = opened \<and>
     distinct closed \<and> set closed \<subseteq> set opened \<and> key_set (open_files v) = set opened - set closed)"

lemma vfs_update_keeps:
  assumes "vfs_inv v" "btree_get (open_files v) fd = Some f"
  shows "vfs_inv (v\<lparr>open_files := btree_insert fd f' (open_files v)\<rparr>)"
    "key_set (btree_insert fd f' (open_files v)) = key_set (open_files v)"
proof -
  have "fd \<in> key_set (open_files v)" using assms(2) by (simp add: contains_key_def flip: contains_key_iff)
  then show "key_set (btree_insert fd f' (open_files v)) = key_set (open_files v)" by auto
  then show "vfs_inv (v\<lparr>open_files := btree_insert fd f' (open_files v)\<rparr>)"
    using assms(1) unfolding vfs_inv_def by simp
qed

lemma vfs_track_quiet:
  assumes "vfs_track (opened, closed, v)" "vfs_inv v'" "next_fd v' = next_fd v" "key_set (open_files v') = key_set (open_files v)"
  shows "vfs_track (opened, closed, v')"
  using assms by (simp add: vfs_track_def)

lemma fd_seq_Suc: "fd_seq (Suc n) = fd_seq n @ [word_of_nat (3 + n)]"
  using upt_Suc_append[of 3 "3 + n"] by (simp add: fd_seq_def)

lemma vfs_track_open:
  assumes t: "vfs_track (opened, closed, v)" and len: "length opened + 4 < 2 ^ 64"
    and o: "vfs_open fo io path fl v = (Ok fd, v')"
  shows "vfs_track (opened @ [fd], closed, v')"
proof -
  have n: "unat (next_fd v) = 3 + length opened" and i: "vfs_inv v" using t by (simp_all add: vfs_track_def)
  have l: "fd_left v" using n len by (simp add: fd_left_def word_le_nat_alt)
  note O = vfs_open_Ok[OF i l o]
  have fd: "fd = word_of_nat (3 + length opened)" using O by (simp flip: n)
  have "fd \<notin> set closed"
  proof
    assume "fd \<in> set closed"
    then have "fd \<in> set opened" using t by (auto simp: vfs_track_def)
    moreover have "fd_seq (length opened) = opened" using t by (simp add: vfs_track_def)
    ultimately have "fd \<in> set (fd_seq (length opened))" by simp
    then obtain k where k: "k < 3 + length opened" "fd = word_of_nat k" by (auto simp: fd_seq_def)
    then show False using fd len of_nat_inj_u64[of k "3 + length opened"] by simp
  qed
  moreover have "unat (next_fd v') = 3 + length (opened @ [fd])"
    using O n l word_next(1)[of "next_fd v"] by (simp add: fd_left_def)
  moreover have "fd_seq (length (opened @ [fd])) = opened @ [fd]" using t fd by (simp add: fd_seq_Suc vfs_track_def)
  ultimately show ?thesis using t O by (auto simp: vfs_track_def)
qed

lemma vfs_track_close:
  assumes "vfs_track (opened, closed, v)" "vfs_close fd v = (Ok u, v')"
  shows "vfs_track (opened, closed @ [fd], v')"
proof -
  have i: "vfs_inv v" using assms(1) by (simp add: vfs_track_def)
  have "fd \<in> key_set (open_files v)" using vfs_close_outcome[OF i assms(2)] by (auto simp: contains_key_iff split: if_splits)
  then show ?thesis using assms(1) vfs_close_outcome[OF i assms(2)] by (auto simp: vfs_track_def)
qed

lemma vfs_exec_track:
  assumes t: "vfs_track (opened, closed, v)" and len: "length opened + 4 < 2 ^ 64"
    and e: "vfs_exec fo io op (opened, closed, v) = (opened', closed', v')"
  shows "vfs_track (opened', closed', v') \<and> length opened' \<le> length opened + 1"
proof (cases op)
  case (OpOpen path fl)
  show ?thesis
  proof (cases "vfs_open fo io path fl v")
    case (Pair r w)
    then show ?thesis
    proof (cases r)
      case (Inl e)
      then have "w = v" using Pair by (auto simp: vfs_open_def Let_def split: sum.splits)
      then show ?thesis using Pair Inl OpOpen e t by (simp add: vfs_exec_def)
    next
      case (Inr fd)
      then show ?thesis using Pair OpOpen e vfs_track_open[OF t len] by (auto simp: vfs_exec_def)
    qed
  qed
next
  case (OpClose fd)
  show ?thesis
  proof (cases "vfs_close fd v")
    case (Pair r w)
    then show ?thesis
    proof (cases r)
      case (Inl e)
      then have "w = v" using Pair by (auto simp: vfs_close_def split: if_splits)
      then show ?thesis using Pair Inl OpClose e t by (simp add: vfs_exec_def)
    next
      case (Inr u)
      then show ?thesis using Pair OpClose e vfs_track_close[OF t] by (auto simp: vfs_exec_def)
    qed
  qed
next
  case (OpRead fd buffer)
  then show ?thesis using e t vfs_update_keeps[of v fd]
    by (auto simp: vfs_exec_def vfs_read_def split: option.splits prod.splits intro!: vfs_track_quiet[OF t] simp: vfs_track_def)
next
  case (OpWrite fd buffer)
  then show ?thesis using e t vfs_update_keeps[of v fd]
    by (auto simp: vfs_exec_def vfs_write_def split: option.splits prod.splits intro!: vfs_track_quiet[OF t] simp: vfs_track_def)
next
  case (OpMount path fs fl)
  then have "v' = snd (vfs_mount path fs fl v)" "opened' = opened" "closed' = closed" using e by (simp_all add: vfs_exec_def)
  then show ?thesis using t by (cases "contains_key (mount_points v) path") (simp_all add: vfs_mount_def vfs_track_def vfs_inv_def)
next
  case (OpUnmount path)
  then have "v' = snd (vfs_unmount path v)" "opened' = opened" "closed' = closed" using e by (simp_all add: vfs_exec_def)
  then show ?thesis using t by (cases "contains_key (mount_points v) path") (simp_all add: vfs_unmount_def vfs_track_def vfs_inv_def)
qed

lemma vfs_run_track:
  assumes "vfs_track (opened, closed, v)" "length opened + length ops + 4 < 2 ^ 64"
    and "fold (vfs_exec fo io) ops (opened, closed, v) = st"
  shows "vfs_track st"
  using assms
proof (induction ops arbitrary: opened closed v)
  case (Cons op ops)
  obtain o1 c1 v1 where e: "vfs_exec fo io op (opened, closed, v) = (o1, c1, v1)" by (rule prod_cases3)
  have "vfs_track (o1, c1, v1) \<and> length o1 \<le> length opened + 1"
    using vfs_exec_track[OF Cons.prems(1) _ e] Cons.prems(2) by simp
  then show ?case using Cons.IH[of o1 c1 v1] Cons.prems(2,3) e by simp
qed simp

text \<open>
  C15. Descriptors are never reused and the table of open files is exact. In every run of fewer than
  \<open>2 ^ 64 - 4\<close> operations on a new \<open>Vfs\<close>, over any file systems, the descriptors that \<open>open\<close> returned are
  \<open>3, 4, 5, ...\<close> in this order; each is closed at most once, only after it was returned; and the open
  descriptors are those that were returned and not closed.
\<close>
theorem vfs_descriptor_table:
  assumes "fold (vfs_exec fo io) ops ([], [], vfs_new) = (opened, closed, v)" "length ops + 4 < 2 ^ 64"
  shows "opened = map word_of_nat [3..<3 + length opened] \<and> distinct closed \<and> set closed \<subseteq> set opened \<and>
    (\<forall>fd. contains_key (open_files v) fd \<longleftrightarrow> fd \<in> set opened - set closed)"
proof -
  have "vfs_track (([], [], vfs_new) :: u64 list \<times> u64 list \<times> ('a, 'b) Vfs)"
    by (simp add: vfs_track_def vfs_new_inv) (simp add: vfs_new_def fd_seq_def)
  from vfs_run_track[OF this _ assms(1)] assms(2) show ?thesis
    by (simp add: vfs_track_def contains_key_iff fd_seq_def)
qed

definition flat_inode :: "unit Inode" where
  "flat_inode =
     \<lparr>i_metadata = (\<lambda>_. Err IoError), i_read = (\<lambda>_ _ buffer. (Ok 0, buffer)), i_write = (\<lambda>_ _ _. (Err IoError, ())),
      i_readdir = (\<lambda>_. Ok []), i_lookup = (\<lambda>_ _. Err FileNotFound), i_create = (\<lambda>_ _ _. (Err IoError, ())),
      i_unlink = (\<lambda>_ _. (Err IoError, ())), i_truncate = (\<lambda>_ _. (Err IoError, ())), i_clone_inode = id\<rparr>"

definition flat_fs :: "(unit, unit) FileSystem" where
  "flat_fs =
     \<lparr>f_fs_type = (\<lambda>_. RamFs), f_label = (\<lambda>_. ''flat''), f_root_inode = id, f_get_inode = (\<lambda>_ _. Err FileNotFound),
      f_sync = (\<lambda>_. Ok ()), f_statfs = (\<lambda>_. Err IoError)\<rparr>"

definition demo_ops :: "unit vfs_op list" where
  "demo_ops = [OpMount ''/'' () mount_flags_default, OpOpen ''/'' READ_ONLY, OpOpen ''/'' READ_ONLY, OpClose 3]"

lemma demo_ops_run:
  "fst (fold (vfs_exec flat_fs flat_inode) demo_ops ([], [], vfs_new)) = [3, 4]"
  "fst (snd (fold (vfs_exec flat_fs flat_inode) demo_ops ([], [], vfs_new))) = [3]"
  by (simp_all add: demo_ops_def vfs_exec_def vfs_mount_def vfs_open_def vfs_inode_of_def vfs_close_def vfs_new_def
      contains_key_def resolve_mount_point_def better_mount_def traverse_path_def flat_fs_def)

theorem vfs_descriptor_table_witness:
  "\<exists>v. fold (vfs_exec flat_fs flat_inode) demo_ops ([], [], vfs_new) = ([3, 4], [3], v) \<and>
     contains_key (open_files v) 4 \<and> \<not> contains_key (open_files v) 3"
proof -
  obtain opened closed v where v: "fold (vfs_exec flat_fs flat_inode) demo_ops ([], [], vfs_new) = (opened, closed, v)"
    by (rule prod_cases3)
  then have oc: "opened = [3, 4]" "closed = [3]" using demo_ops_run by simp_all
  have "length demo_ops + 4 < 2 ^ 64" by (simp add: demo_ops_def)
  from vfs_descriptor_table[OF v this] have "\<forall>fd. contains_key (open_files v) fd \<longleftrightarrow> fd \<in> {3, 4} - {3}" unfolding oc by simp
  then show ?thesis using v unfolding oc by simp
qed

section \<open>Contract: positional reading\<close>

text \<open>Reading a file with buffers of given sizes until an error, and the bytes delivered.\<close>

fun read_chunks :: "'i Inode \<Rightarrow> nat list \<Rightarrow> 'i FileDescriptor \<Rightarrow> u8 list \<times> 'i FileDescriptor" where
  "read_chunks io [] f = ([], f)"
| "read_chunks io (k # ks) f =
     (case fd_read io (replicate k 0) f of
        (Err e, buffer, f') \<Rightarrow> ([], f')
      | (Ok n, buffer, f') \<Rightarrow> (let (bs, f'') = read_chunks io ks f' in (take n buffer @ bs, f'')))"

text \<open>
  What the descriptor layer relies on when it reads a file of known content: the method fills the
  buffer from the offset on, as far as the content goes, and reports how much it wrote.
\<close>

locale file_reader =
  fixes io :: "'i Inode"
    and content :: "'i \<Rightarrow> u8 list option"
  assumes read_law: "content i = Some c \<Longrightarrow> length c < 2 ^ 63 \<Longrightarrow> length buffer < 2 ^ 63 \<Longrightarrow>
    i_read io i off buffer =
      (Ok (min (length buffer) (length c - unat off)),
       take (length buffer) (drop (unat off) c) @ drop (min (length buffer) (length c - unat off)) buffer)"
begin

lemma read_chunks_content:
  assumes "content (fd_inode f) = Some c" "length c < 2 ^ 63" "flags_contain (fd_flags f) READ_ONLY"
    and "\<forall>k \<in> set ks. k < 2 ^ 63" "unat (fd_offset f) \<le> length c"
  shows "fst (read_chunks io ks f) = take (sum_list ks) (drop (unat (fd_offset f)) c)"
  using assms(1,3-5)
proof (induction ks arbitrary: f)
  case (Cons k ks)
  let ?o = "unat (fd_offset f)"
  define n where "n = min k (length c - ?o)"
  define f' where "f' = f\<lparr>fd_offset := fd_offset f + word_of_nat n\<rparr>"
  have r: "fd_read io (replicate k 0) f = (Ok n, take k (drop ?o c) @ drop n (replicate k 0), f')"
    using Cons.prems assms(2) read_law[OF Cons.prems(1) assms(2), of "replicate k 0" "fd_offset f"]
    by (simp add: fd_read_def n_def f'_def)
  have t: "take n (take k (drop ?o c) @ drop n (replicate k 0)) = take k (drop ?o c)"
    by (cases "k \<le> length c - ?o") (simp_all add: n_def)
  have "?o + n < 2 ^ 64" using assms(2) Cons.prems(4) by (simp add: n_def)
  moreover from this have "unat (word_of_nat n :: u64) = n" by (simp add: unat_of_nat take_bit_nat_eq_self)
  ultimately have o: "unat (fd_offset f') = ?o + n" by (simp add: f'_def unat_add_lem[THEN iffD1])
  have "fst (read_chunks io ks f') = take (sum_list ks) (drop (?o + n) c)"
    using Cons.IH[of f'] Cons.prems o by (simp add: f'_def n_def)
  then have "fst (read_chunks io (k # ks) f) = take k (drop ?o c) @ take (sum_list ks) (drop (?o + n) c)"
    using r t by (simp add: split_beta)
  also have "\<dots> = take (k + sum_list ks) (drop ?o c)"
    by (cases "k \<le> length c - ?o") (simp_all add: n_def take_add add.commute)
  finally show ?case by simp
qed simp

end

end
