(* ===== verification/Ntfs.thy ===== *)
theory Ntfs
  imports Vfs "HOL-Library.Monad_Syntax"
begin

text \<open>
  The NTFS driver (\<open>src/src/fs/ntfs.rs\<close>): the boot sector, file records and run lists as parsers of byte
  buffers, the journal, the inodes and the volume, and their implementation of the traits of the
  virtual file system. A parser returns \<open>None\<close> where the code panics: on an index or a slice out of
  range. Signed integers are words read as two's complement; shift distances are taken modulo 64, as the release
  build does. The raw pointer from an inode to its volume is the volume itself: inodes read its
  \<open>bpb\<close> only, which no operation changes.
\<close>

section \<open>Constants and data\<close>

definition NTFS_SIGNATURE :: "u8 list" where
  "NTFS_SIGNATURE = [0x4E, 0x54, 0x46, 0x53, 0x20, 0x20, 0x20, 0x20]"

definition MFT_NUMBER_ROOT :: u64 where "MFT_NUMBER_ROOT = 5"
definition MFT_RECORD_SIZE :: usize where "MFT_RECORD_SIZE = 1024"
definition MFT_RECORD_SIGNATURE :: u32 where "MFT_RECORD_SIGNATURE = 0x454C4946"

datatype NtfsAttributeType =
    StandardInformation | AttributeList | FileName | ObjectId | SecurityDescriptor | VolumeName
  | VolumeInformation | Data | IndexRoot | IndexAllocation | Bitmap | ReparsePoint | EaInformation
  | Ea | LoggedUtilityStream | End

fun attribute_type_discr :: "NtfsAttributeType \<Rightarrow> u32" where
  "attribute_type_discr StandardInformation = 0x10"
| "attribute_type_discr AttributeList = 0x20"
| "attribute_type_discr FileName = 0x30"
| "attribute_type_discr ObjectId = 0x40"
| "attribute_type_discr SecurityDescriptor = 0x50"
| "attribute_type_discr VolumeName = 0x60"
| "attribute_type_discr VolumeInformation = 0x70"
| "attribute_type_discr Data = 0x80"
| "attribute_type_discr IndexRoot = 0x90"
| "attribute_type_discr IndexAllocation = 0xA0"
| "attribute_type_discr Bitmap = 0xB0"
| "attribute_type_discr ReparsePoint = 0xC0"
| "attribute_type_discr EaInformation = 0xD0"
| "attribute_type_discr Ea = 0xE0"
| "attribute_type_discr LoggedUtilityStream = 0x100"
| "attribute_type_discr End = 0xFFFFFFFF"

definition attribute_type_from :: "u32 \<Rightarrow> NtfsAttributeType" where
  "attribute_type_from v =
     (if v = 0x10 then StandardInformation
      else if v = 0x20 then AttributeList
      else if v = 0x30 then FileName
      else if v = 0x40 then ObjectId
      else if v = 0x50 then SecurityDescriptor
      else if v = 0x60 then VolumeName
      else if v = 0x70 then VolumeInformation
      else if v = 0x80 then Data
      else if v = 0x90 then IndexRoot
      else if v = 0xA0 then IndexAllocation
      else if v = 0xB0 then Bitmap
      else if v = 0xC0 then ReparsePoint
      else if v = 0xD0 then EaInformation
      else if v = 0xE0 then Ea
      else if v = 0x100 then LoggedUtilityStream
      else if v = 0xFFFFFFFF then End
      else End)"

definition IN_USE :: u16 where "IN_USE = 0x0001"
definition IS_DIRECTORY :: u16 where "IS_DIRECTORY = 0x0002"

record NtfsBpb =
  bytes_per_sector :: u16
  sectors_per_cluster :: u8
  total_sectors :: u64
  mft_start_cluster :: u64
  mftmirr_start_cluster :: u64
  mft_record_size :: u8
  index_record_size :: u8
  volume_serial :: u64
  cluster_size :: u32

record DataRun =
  run_length :: u64
  run_offset :: u64

record NtfsAttribute =
  attr_type :: NtfsAttributeType
  attr_total_size :: u32
  non_resident :: bool
  attr_name :: "string option"
  resident_data :: "u8 list option"
  run_list :: "DataRun list"
  data_size :: u64
  initialized_size :: u64

record MftRecord =
  record_number :: u32
  mft_flags :: u16
  sequence_number :: u16
  attributes :: "NtfsAttribute list"
  bytes_in_use :: u32

section \<open>Boot sector\<close>

definition ntfs_bpb_parse :: "u8 list \<Rightarrow> NtfsBpb KernelResult option" where
  "ntfs_bpb_parse boot_sector =
     (if length boot_sector < 512 then Some (Err IoError)
      else do {
        sig \<leftarrow> slice boot_sector 3 11;
        if sig \<noteq> NTFS_SIGNATURE then Some (Err FileSystemNotFound)
        else do {
          bps \<leftarrow> le_u16 boot_sector 11;
          spc \<leftarrow> byte_at boot_sector 13;
          sectors \<leftarrow> le_u64 boot_sector 40;
          mft_start \<leftarrow> le_u64 boot_sector 48;
          mftmirr_start \<leftarrow> le_u64 boot_sector 56;
          mft_size_raw \<leftarrow> byte_at boot_sector 64;
          index_size_raw \<leftarrow> byte_at boot_sector 68;
          serial \<leftarrow> le_u64 boot_sector 72;
          Some (Ok \<lparr>bytes_per_sector = bps, sectors_per_cluster = spc, total_sectors = sectors,
                    mft_start_cluster = mft_start, mftmirr_start_cluster = mftmirr_start,
                    mft_record_size = mft_size_raw, index_record_size = index_size_raw,
                    volume_serial = serial, cluster_size = ucast bps * ucast spc\<rparr>)
        }
      })"

definition mft_record_size_bytes :: "NtfsBpb \<Rightarrow> usize" where
  "mft_record_size_bytes b =
     (if sint (mft_record_size b) > 0
      then nat (sint (mft_record_size b)) * unat (bytes_per_sector b)
      else 2 ^ (unat (scast (- mft_record_size b) :: u32) mod 64))"

section \<open>Run lists\<close>

text \<open>\<open>acc |= (byte as u64) << (i * 8)\<close> over the bytes of a field.\<close>

definition or_bytes :: "u8 list \<Rightarrow> u64" where
  "or_bytes bs = fold (\<lambda>(i, b) acc. acc OR push_bit ((i * 8) mod 64) (ucast b)) (enumerate 0 bs) 0"

definition sign_extend :: "u8 \<Rightarrow> nat \<Rightarrow> u64 \<Rightarrow> u64" where
  "sign_extend last_byte offset_len off =
     (if last_byte AND 0x80 \<noteq> 0 then off OR push_bit ((offset_len * 8) mod 64) (NOT 0) else off)"

function parse_run_list_from :: "u8 list \<Rightarrow> usize \<Rightarrow> DataRun list option" where
  "parse_run_list_from data offset =
     (if offset < length data
      then do {
        header \<leftarrow> byte_at data offset;
        if header = 0 then Some []
        else let
          o1 = offset + 1;
          size_len = unat (header AND 0x0F);
          offset_len = unat (drop_bit 4 header AND 0x0F)
        in if size_len = 0 \<or> o1 + size_len > length data then Some []
        else do {
          lbytes \<leftarrow> bytes_at data o1 size_len;
          let o2 = o1 + size_len;
          if offset_len = 0
          then do {
            rest \<leftarrow> parse_run_list_from data o2;
            Some (\<lparr>run_length = or_bytes lbytes, run_offset = 0\<rparr> # rest)
          }
          else if o2 + offset_len > length data then Some []
          else do {
            obytes \<leftarrow> bytes_at data o2 offset_len;
            last_byte \<leftarrow> byte_at data (o2 + offset_len - 1);
            rest \<leftarrow> parse_run_list_from data (o2 + offset_len);
            Some (\<lparr>run_length = or_bytes lbytes, run_offset = sign_extend last_byte offset_len (or_bytes obytes)\<rparr> # rest)
          }
        }
      }
      else Some [])"
  by pat_completeness auto
termination
  by (relation "measure (\<lambda>(data, offset). length data - offset)") auto

definition parse_run_list :: "u8 list \<Rightarrow> DataRun list option" where
  "parse_run_list data = parse_run_list_from data 0"

section \<open>File records\<close>

fun name_units :: "u8 list \<Rightarrow> usize \<Rightarrow> nat \<Rightarrow> string \<Rightarrow> string option" where
  "name_units data off 0 name = Some name"
| "name_units data off (Suc n) name =
     (if off + 1 < length data
      then do { ch \<leftarrow> le_u16 data off; name_units data (off + 2) n (push_u16 ch name) }
      else name_units data (off + 2) n name)"

definition parse_attribute_name :: "u8 list \<Rightarrow> usize \<Rightarrow> usize \<Rightarrow> string option option" where
  "parse_attribute_name data offset tsize = do {
     name_length \<leftarrow> byte_at data (offset + 9);
     name_offset \<leftarrow> le_u16 data (offset + 10);
     if name_length > 0 \<and> unat name_offset + unat name_length * 2 \<le> tsize
     then map_option Some (name_units data (offset + unat name_offset) (unat name_length) [])
     else Some None
   }"

definition parse_non_resident :: "u8 list \<Rightarrow> usize \<Rightarrow> usize \<Rightarrow> NtfsAttribute \<Rightarrow> NtfsAttribute option" where
  "parse_non_resident data offset tsize attr =
     (if offset + 0x40 \<le> length data
      then do {
        dsize \<leftarrow> le_u64 data (offset + 0x30);
        isize \<leftarrow> le_u64 data (offset + 0x38);
        run_off \<leftarrow> le_u16 data (offset + 0x20);
        run_bytes \<leftarrow> slice data (offset + unat run_off) (offset + tsize);
        runs \<leftarrow> parse_run_list run_bytes;
        Some (attr\<lparr>run_list := runs, data_size := dsize, initialized_size := isize\<rparr>)
      }
      else Some attr)"

definition parse_resident :: "u8 list \<Rightarrow> usize \<Rightarrow> NtfsAttribute \<Rightarrow> NtfsAttribute option" where
  "parse_resident data offset attr =
     (if offset + 0x16 \<le> length data
      then do {
        content_size \<leftarrow> le_u32 data (offset + 0x10);
        content_offset \<leftarrow> le_u16 data (offset + 0x14);
        let attr1 = attr\<lparr>data_size := ucast content_size, initialized_size := ucast content_size\<rparr>;
        let content_start = offset + unat content_offset;
        if content_start + unat content_size \<le> length data
        then do {
          content \<leftarrow> slice data content_start (content_start + unat content_size);
          Some (attr1\<lparr>resident_data := Some content\<rparr>)
        }
        else Some attr1
      }
      else Some attr)"

definition parse_attribute :: "u8 list \<Rightarrow> usize \<Rightarrow> u32 \<Rightarrow> usize \<Rightarrow> NtfsAttribute option" where
  "parse_attribute data offset ty tsize = do {
     nonres \<leftarrow> byte_at data (offset + 8);
     name \<leftarrow> parse_attribute_name data offset tsize;
     let attr = \<lparr>attr_type = attribute_type_from ty, attr_total_size = word_of_nat tsize,
                 non_resident = (nonres \<noteq> 0), attr_name = name, resident_data = None, run_list = [],
                 data_size = 0, initialized_size = 0\<rparr>;
     if nonres \<noteq> 0 then parse_non_resident data offset tsize attr else parse_resident data offset attr
   }"

function parse_attributes :: "u8 list \<Rightarrow> usize \<Rightarrow> NtfsAttribute list option" where
  "parse_attributes data offset =
     (if offset + 4 < length data
      then do {
        ty \<leftarrow> le_u32 data offset;
        if ty = 0xFFFFFFFF then Some []
        else if offset + 24 > length data then Some []
        else do {
          tsize \<leftarrow> le_u32 data (offset + 4);
          if unat tsize = 0 \<or> offset + unat tsize > length data then Some []
          else do {
            attr \<leftarrow> parse_attribute data offset ty (unat tsize);
            rest \<leftarrow> parse_attributes data (offset + unat tsize);
            Some (attr # rest)
          }
        }
      }
      else Some [])"
  by pat_completeness auto
termination
  by (relation "measure (\<lambda>(data, offset). length data - offset)") auto

definition parse_mft_record :: "u8 list \<Rightarrow> MftRecord KernelResult option" where
  "parse_mft_record data =
     (if length data < MFT_RECORD_SIZE then Some (Err IoError)
      else do {
        signature \<leftarrow> le_u32 data 0;
        if signature \<noteq> MFT_RECORD_SIGNATURE then Some (Err IoError)
        else do {
          seq \<leftarrow> le_u16 data 0x10;
          attrs_offset \<leftarrow> le_u16 data 0x14;
          fl \<leftarrow> le_u16 data 0x16;
          used \<leftarrow> le_u32 data 0x18;
          attrs \<leftarrow> parse_attributes data (unat attrs_offset);
          Some (Ok \<lparr>record_number = 0, mft_flags = fl, sequence_number = seq, attributes = attrs,
                    bytes_in_use = used\<rparr>)
        }
      })"

declare parse_run_list_from.simps [simp del] parse_attributes.simps [simp del]

section \<open>Journal\<close>

datatype JournalOperation =
    FileCreate | FileDelete | FileWrite | FileRename | AttributeChange | DirectoryCreate | Checkpoint

record JournalEntry =
  lsn :: u64
  operation :: JournalOperation
  file_name :: string
  journal_data :: "u8 list"
  timestamp :: u64

record NtfsJournal =
  entries :: "JournalEntry list"
  max_entries :: usize
  current_lsn :: u64

definition journal_new :: NtfsJournal where
  "journal_new = \<lparr>entries = [], max_entries = 1024, current_lsn = 0\<rparr>"

text \<open>\<open>entries.remove(0)\<close> is \<open>tl\<close>; the list is not empty there, because \<open>max_entries\<close> is 1024.\<close>

definition journal_log :: "JournalOperation \<Rightarrow> string \<Rightarrow> u8 list \<Rightarrow> NtfsJournal \<Rightarrow> NtfsJournal" where
  "journal_log op name data j =
     (let entry = \<lparr>lsn = current_lsn j, operation = op, file_name = name, journal_data = data, timestamp = 0\<rparr>;
          j1 = j\<lparr>current_lsn := current_lsn j + 1\<rparr>;
          j2 = (if length (entries j1) \<ge> max_entries j1 then j1\<lparr>entries := tl (entries j1)\<rparr> else j1)
      in j2\<lparr>entries := entries j2 @ [entry]\<rparr>)"

definition get_entries :: "NtfsJournal \<Rightarrow> JournalEntry list" where
  "get_entries j = entries j"

definition checkpoint :: "NtfsJournal \<Rightarrow> NtfsJournal" where
  "checkpoint j = journal_log Checkpoint [] [] j"

section \<open>Volume and inodes\<close>

record NtfsVolume =
  bpb :: NtfsBpb
  mft_cache :: "(u64, MftRecord) btree"
  journal :: NtfsJournal
  disk_id :: u32

record NtfsInode =
  ni_record_number :: u64
  ni_metadata :: FileMetadata
  ni_attributes :: "NtfsAttribute list"
  ni_volume :: NtfsVolume

definition parse_file_name :: "u8 list \<Rightarrow> string option" where
  "parse_file_name data =
     (if length data < 66 then Some ''unknown''
      else do {
        name_len \<leftarrow> byte_at data 64;
        if length data < 66 + unat name_len * 2 then Some ''unknown''
        else name_units data 66 (unat name_len) []
      })"

definition parse_timestamp :: "u8 list \<Rightarrow> usize \<Rightarrow> u64 option" where
  "parse_timestamp data offset =
     (if length data < offset + 8 then Some 0
      else do {
        raw \<leftarrow> le_u64 data offset;
        let seconds = raw div 10000000;
        Some (if seconds > 11644473600 then seconds - 11644473600 else 0)
      })"

text \<open>One round of the loop of \<open>from_mft_record\<close>, on \<open>(file_name, size, created, modified)\<close>.\<close>

definition scan_attribute ::
  "string \<times> u64 \<times> u64 \<times> u64 \<Rightarrow> NtfsAttribute \<Rightarrow> (string \<times> u64 \<times> u64 \<times> u64) option" where
  "scan_attribute = (\<lambda>(name, size, created, modified) attr.
     case attr_type attr of
       FileName \<Rightarrow>
         (case resident_data attr of
            None \<Rightarrow> Some (name, size, created, modified)
          | Some data \<Rightarrow> do { name' \<leftarrow> parse_file_name data; Some (name', size, created, modified) })
     | StandardInformation \<Rightarrow>
         (case resident_data attr of
            None \<Rightarrow> Some (name, size, created, modified)
          | Some data \<Rightarrow> do {
              created' \<leftarrow> parse_timestamp data 0;
              modified' \<leftarrow> parse_timestamp data 8;
              Some (name, size, created', modified') })
     | Data \<Rightarrow> Some (name, data_size attr, created, modified)
     | _ \<Rightarrow> Some (name, size, created, modified))"

fun scan_attributes ::
  "string \<times> u64 \<times> u64 \<times> u64 \<Rightarrow> NtfsAttribute list \<Rightarrow> (string \<times> u64 \<times> u64 \<times> u64) option" where
  "scan_attributes st [] = Some st"
| "scan_attributes st (a # as) = do { st' \<leftarrow> scan_attribute st a; scan_attributes st' as }"

definition from_mft_record :: "MftRecord \<Rightarrow> NtfsVolume \<Rightarrow> NtfsInode option" where
  "from_mft_record rec volume = do {
     let is_dir = (mft_flags rec AND IS_DIRECTORY \<noteq> 0);
     (name, size, created, modified) \<leftarrow> scan_attributes (''unknown'', 0, 0, 0) (attributes rec);
     let metadata =
       \<lparr>fm_inode = ucast (record_number rec), fm_file_type = (if is_dir then Directory else Regular),
        fm_size = size, fm_permissions = file_permissions_default, fm_created = created,
        fm_modified = modified, fm_accessed = modified, fm_nlinks = 1, fm_uid = 0, fm_gid = 0\<rparr>;
     Some \<lparr>ni_record_number = ucast (record_number rec), ni_metadata = metadata,
           ni_attributes = attributes rec, ni_volume = volume\<rparr>
   }"

definition get_data_attribute :: "NtfsInode \<Rightarrow> NtfsAttribute option" where
  "get_data_attribute i = find (\<lambda>a. attr_type a = Data \<and> attr_name a = None) (ni_attributes i)"

definition get_index_root_attribute :: "NtfsInode \<Rightarrow> NtfsAttribute option" where
  "get_index_root_attribute i = find (\<lambda>a. attr_type a = IndexRoot) (ni_attributes i)"

text \<open>
  One round of the loop of \<open>read_from_runs\<close>, on \<open>(current_cluster, bytes_read, file_offset, buffer)\<close>; the
  boolean is true when the loop ends with a \<open>break\<close>.
\<close>

definition read_run ::
  "u64 \<Rightarrow> DataRun \<Rightarrow> u64 \<times> usize \<times> u64 \<times> u8 list \<Rightarrow> bool \<times> u64 \<times> usize \<times> u64 \<times> u8 list" where
  "read_run csize run = (\<lambda>(current_cluster, bytes_read, file_offset, buffer).
     let cluster = current_cluster + run_offset run;
         run_start_byte = cluster * csize;
         run_end_byte = run_start_byte + run_length run * csize
     in if file_offset \<ge> run_end_byte then (False, cluster, bytes_read, file_offset, buffer)
        else let
          read_start = (if file_offset > run_start_byte then file_offset - run_start_byte else 0);
          read_len = min (run_length run * csize - read_start)
                         (word_of_nat (length buffer) - word_of_nat bytes_read);
          dst_end = usize_add bytes_read (unat read_len)
        in if dst_end \<le> length buffer
           then (bytes_read + unat read_len \<ge> length buffer, cluster, bytes_read + unat read_len, file_offset + read_len,
                 take bytes_read buffer @ replicate (unat read_len) 0 @ drop dst_end buffer)
           else (bytes_read \<ge> length buffer, cluster, bytes_read, file_offset, buffer))"

primrec read_runs_loop ::
  "u64 \<Rightarrow> DataRun list \<Rightarrow> u64 \<times> usize \<times> u64 \<times> u8 list \<Rightarrow> usize \<times> u8 list" where
  "read_runs_loop csize [] st = (case st of (_, bytes_read, _, buffer) \<Rightarrow> (bytes_read, buffer))"
| "read_runs_loop csize (run # runs) st =
     (case read_run csize run st of
        (stop, current_cluster, bytes_read, file_offset, buffer) \<Rightarrow>
          if stop then (bytes_read, buffer)
          else read_runs_loop csize runs (current_cluster, bytes_read, file_offset, buffer))"

definition read_from_runs :: "NtfsInode \<Rightarrow> DataRun list \<Rightarrow> FileOffset \<Rightarrow> u8 list \<Rightarrow> usize KernelResult \<times> u8 list" where
  "read_from_runs i runs offset buffer =
     (let (bytes_read, buffer') = read_runs_loop (ucast (cluster_size (bpb (ni_volume i)))) runs (0, 0, offset, buffer)
      in (Ok bytes_read, buffer'))"

definition ntfs_read :: "NtfsInode \<Rightarrow> FileOffset \<Rightarrow> u8 list \<Rightarrow> usize KernelResult \<times> u8 list" where
  "ntfs_read i offset buffer =
     (case get_data_attribute i of
        None \<Rightarrow> (Err FileNotFound, buffer)
      | Some attr \<Rightarrow>
          (case resident_data attr of
             Some data \<Rightarrow>
               let start = unat offset in
               if start \<ge> length data then (Ok 0, buffer)
               else let stop = min (usize_add start (length buffer)) (length data);
                        len = stop - start
                    in (Ok len, take len (drop start data) @ drop len buffer)
           | None \<Rightarrow> read_from_runs i (run_list attr) offset buffer))"

definition ntfs_inode :: "NtfsInode Inode" where
  "ntfs_inode =
     \<lparr>i_metadata = (\<lambda>i. Ok (ni_metadata i)),
      i_read = ntfs_read,
      i_write = (\<lambda>i offset data. (Err IoError, i)),
      i_readdir = (\<lambda>i. Ok []),
      i_lookup = (\<lambda>i name. Err FileNotFound),
      i_create = (\<lambda>i name ft. (Err IoError, i)),
      i_unlink = (\<lambda>i name. (Err IoError, i)),
      i_truncate = (\<lambda>i size. (Err IoError, i)),
      i_clone_inode = (\<lambda>i. i)\<rparr>"

definition ntfs_volume_new :: "u8 list \<Rightarrow> u32 \<Rightarrow> NtfsVolume KernelResult option" where
  "ntfs_volume_new boot_sector disk = do {
     r \<leftarrow> ntfs_bpb_parse boot_sector;
     Some (case r of
             Err e \<Rightarrow> Err e
           | Ok b \<Rightarrow> Ok \<lparr>bpb = b, mft_cache = [], journal = journal_new, disk_id = disk\<rparr>)
   }"

definition create_root_directory_record :: MftRecord where
  "create_root_directory_record =
     \<lparr>record_number = ucast MFT_NUMBER_ROOT, mft_flags = IN_USE OR IS_DIRECTORY, sequence_number = 1,
      attributes = [], bytes_in_use = word_of_nat MFT_RECORD_SIZE\<rparr>"

definition get_mft_record :: "u64 \<Rightarrow> NtfsVolume \<Rightarrow> (MftRecord KernelResult \<times> NtfsVolume) option" where
  "get_mft_record rn v =
     (case btree_get (mft_cache v) rn of
        Some rec \<Rightarrow> Some (Ok rec, v)
      | None \<Rightarrow>
          let record_size = mft_record_size_bytes (bpb v);
              buffer = replicate record_size (0 :: u8)
          in if list_all (\<lambda>b. b = 0) buffer
             then Some (if rn = MFT_NUMBER_ROOT then Ok create_root_directory_record else Err FileNotFound, v)
             else do {
               r \<leftarrow> parse_mft_record buffer;
               Some (case r of
                       Err e \<Rightarrow> (Err e, v)
                     | Ok rec \<Rightarrow>
                         let rec' = rec\<lparr>record_number := ucast rn\<rparr>
                         in (Ok rec', v\<lparr>mft_cache := btree_insert rn rec' (mft_cache v)\<rparr>))
             })"

definition ntfs_root_inode :: "NtfsVolume \<Rightarrow> NtfsInode option" where
  "ntfs_root_inode v =
     (let rec = \<lparr>record_number = ucast MFT_NUMBER_ROOT, mft_flags = IN_USE OR IS_DIRECTORY, sequence_number = 1,
                 attributes = [], bytes_in_use = word_of_nat MFT_RECORD_SIZE\<rparr>
      in from_mft_record rec v)"

definition ntfs_statfs :: "NtfsVolume \<Rightarrow> FileSystemStats KernelResult" where
  "ntfs_statfs v =
     Ok \<lparr>total_size = total_sectors (bpb v) * ucast (bytes_per_sector (bpb v)), free_space = 0,
         total_inodes = 0, free_inodes = 0, block_size = ucast (cluster_size (bpb v)), max_name_length = 255\<rparr>"

text \<open>The trait's \<open>root_inode\<close> cannot fail; \<open>root_inode_defined\<close> below shows that it does not panic.\<close>

definition ntfs_file_system :: "(NtfsVolume, NtfsInode) FileSystem" where
  "ntfs_file_system =
     \<lparr>f_fs_type = (\<lambda>v. NTFS), f_label = (\<lambda>v. ''NTFS''), f_root_inode = (\<lambda>v. the (ntfs_root_inode v)),
      f_get_inode = (\<lambda>v ino. Err FileNotFound), f_sync = (\<lambda>v. Ok ()), f_statfs = ntfs_statfs\<rparr>"

lemma ntfs_methods [simp]:
  "i_read ntfs_inode = ntfs_read" "i_readdir ntfs_inode i = Ok []" "i_lookup ntfs_inode i name = Err FileNotFound"
  "i_metadata ntfs_inode i = Ok (ni_metadata i)" "i_write ntfs_inode i off data = (Err IoError, i)"
  "f_root_inode ntfs_file_system v = the (ntfs_root_inode v)" "f_fs_type ntfs_file_system v = NTFS"
  "f_statfs ntfs_file_system = ntfs_statfs"
  by (simp_all add: ntfs_inode_def ntfs_file_system_def)

definition ntfs_boot_sector :: "u8 list" where
  "ntfs_boot_sector =
     replicate 3 0 @ NTFS_SIGNATURE @ to_le_bytes 2 512 @ [8] @ replicate 498 0"

definition mount_ntfs ::
  "u32 \<Rightarrow> (NtfsVolume, NtfsInode) Vfs \<Rightarrow> (unit KernelResult \<times> (NtfsVolume, NtfsInode) Vfs) option" where
  "mount_ntfs disk v = do {
     r \<leftarrow> ntfs_volume_new ntfs_boot_sector disk;
     Some (case r of Err e \<Rightarrow> (Err e, v) | Ok volume \<Rightarrow> vfs_mount ''/'' volume mount_flags_default v)
   }"

section \<open>The journal\<close>

text \<open>All entries that were ever logged, and the effect of a sequence of calls of \<open>log\<close>.\<close>

definition journal_history :: "(JournalOperation \<times> string \<times> u8 list) list \<Rightarrow> JournalEntry list" where
  "journal_history reqs = map (\<lambda>(n, op, name, data).
     \<lparr>lsn = word_of_nat n, operation = op, file_name = name, journal_data = data, timestamp = 0\<rparr>) (enumerate 0 reqs)"

definition log_all :: "(JournalOperation \<times> string \<times> u8 list) list \<Rightarrow> NtfsJournal \<Rightarrow> NtfsJournal" where
  "log_all = fold (\<lambda>(op, name, data). journal_log op name data)"

lemma journal_history_snoc:
  "journal_history (reqs @ [(op, name, data)]) = journal_history reqs @
     [\<lparr>lsn = word_of_nat (length reqs), operation = op, file_name = name, journal_data = data, timestamp = 0\<rparr>]"
  "length (journal_history reqs) = length reqs"
  by (simp_all add: journal_history_def enumerate_append_eq)

lemma journal_log_window:
  assumes "entries j = drop (length h - 1024) h" "max_entries j = 1024"
  shows "entries (journal_log op name data j) =
      drop (Suc (length h) - 1024) (h @ [\<lparr>lsn = current_lsn j, operation = op, file_name = name, journal_data = data, timestamp = 0\<rparr>])"
    "max_entries (journal_log op name data j) = 1024" "current_lsn (journal_log op name data j) = current_lsn j + 1"
proof -
  have "tl (entries j) = drop (Suc (length h) - 1024) h" if "length h \<ge> 1024"
    unfolding assms(1) using Suc_diff_le[OF that] by (simp only: drop_Suc tl_drop)
  then show "entries (journal_log op name data j) =
      drop (Suc (length h) - 1024) (h @ [\<lparr>lsn = current_lsn j, operation = op, file_name = name, journal_data = data, timestamp = 0\<rparr>])"
    using assms by (cases "length h \<ge> 1024") (simp_all add: journal_log_def Let_def)
qed (simp_all add: journal_log_def Let_def assms)

text \<open>
  The journal keeps the newest 1024 entries. After any sequence of calls of \<open>log\<close> on a new
  journal, its entries are the last 1024 (or all, when there are fewer) of the complete history,
  in order, each with its position in the history as its sequence number.
\<close>
theorem journal_keeps_newest:
  "get_entries (log_all reqs journal_new) = drop (length reqs - 1024) (journal_history reqs) \<and>
   current_lsn (log_all reqs journal_new) = word_of_nat (length reqs)"
proof -
  have "entries (log_all reqs journal_new) = drop (length reqs - 1024) (journal_history reqs) \<and>
    max_entries (log_all reqs journal_new) = 1024 \<and> current_lsn (log_all reqs journal_new) = word_of_nat (length reqs)"
  proof (induction reqs rule: rev_induct)
    case (snoc r reqs)
    obtain op name data where r: "r = (op, name, data)" by (rule prod_cases3)
    have "log_all (reqs @ [r]) journal_new = journal_log op name data (log_all reqs journal_new)"
      by (simp add: log_all_def r)
    then show ?case
      using snoc.IH journal_log_window[of "log_all reqs journal_new" "journal_history reqs" op name data]
      by (simp add: r journal_history_snoc)
  qed (simp add: log_all_def journal_new_def journal_history_def)
  then show ?thesis by (simp add: get_entries_def)
qed

section \<open>Reading\<close>

text \<open>The content of a file whose data attribute is resident.\<close>

definition resident_content :: "NtfsInode \<Rightarrow> u8 list option" where
  "resident_content i = (case get_data_attribute i of None \<Rightarrow> None | Some attr \<Rightarrow> resident_data attr)"

interpretation ntfs_reader: file_reader ntfs_inode resident_content
proof (unfold_locales, goal_cases)
  case (1 i c buffer off)
  from 1(1) obtain attr where a: "get_data_attribute i = Some attr" "resident_data attr = Some c"
    by (auto simp: resident_content_def split: option.splits)
  show ?case
  proof (cases "unat off \<ge> length c")
    case True
    then show ?thesis using a by (simp add: ntfs_read_def)
  next
    case False
    define n where "n = min (length buffer) (length c - unat off)"
    have "min (usize_add (unat off) (length buffer)) (length c) - unat off = n"
      using False 1(2,3) by (simp add: n_def)
    moreover have "take n (drop (unat off) c) = take (length buffer) (drop (unat off) c)"
      by (cases "length buffer \<le> length c - unat off") (simp_all add: n_def)
    ultimately show ?thesis using a False by (simp add: ntfs_read_def Let_def flip: n_def)
  qed
qed

text \<open>
  C31. Reading a resident file through a descriptor delivers its content. Whatever buffer sizes a reader
  uses, the bytes it receives from consecutive calls of \<open>FileDescriptor::read\<close> on a newly opened NTFS
  inode are the beginning of the file's content, as long as the sum of the buffer sizes; buffers that
  cover the file therefore return exactly the file.
\<close>
theorem ntfs_sequential_read:
  assumes "resident_content i = Some c" "length c < 2 ^ 63" "\<forall>k \<in> set ks. k < 2 ^ 63" "flags_contain fl READ_ONLY"
  shows "fst (read_chunks ntfs_inode ks (file_descriptor_new i fl)) = take (sum_list ks) c"
  using ntfs_reader.read_chunks_content[of "file_descriptor_new i fl" c ks] assms
  by (simp add: file_descriptor_new_def)

definition demo_inode :: NtfsInode where
  "demo_inode = (let b = the (ntfs_bpb_parse ntfs_boot_sector) in
     \<lparr>ni_record_number = 30,
      ni_metadata = \<lparr>fm_inode = 30, fm_file_type = Regular, fm_size = 5, fm_permissions = file_permissions_default,
        fm_created = 0, fm_modified = 0, fm_accessed = 0, fm_nlinks = 1, fm_uid = 0, fm_gid = 0\<rparr>,
      ni_attributes = [\<lparr>attr_type = Data, attr_total_size = 32, non_resident = False, attr_name = None,
        resident_data = Some [1, 2, 3, 4, 5], run_list = [], data_size = 5, initialized_size = 5\<rparr>],
      ni_volume = \<lparr>bpb = projr b, mft_cache = [], journal = journal_new, disk_id = 0\<rparr>\<rparr>)"

theorem ntfs_sequential_read_witness:
  "fst (read_chunks ntfs_inode [2, 2, 2] (file_descriptor_new demo_inode READ_ONLY)) = [1, 2, 3, 4, 5]"
proof -
  have "resident_content demo_inode = Some [1, 2, 3, 4, 5]"
    by (simp add: demo_inode_def resident_content_def get_data_attribute_def Let_def)
  from ntfs_sequential_read[OF this, of "[2, 2, 2]" READ_ONLY] show ?thesis by (simp add: flags_contain_def)
qed

lemma read_run_bounds:
  assumes "read_run csize run (cluster, n, off, buffer) = (stop, cluster', n', off', buffer')"
    and "n \<le> length buffer" "length buffer < 2 ^ 64" "take n buffer = replicate n 0"
  shows "n' \<le> length buffer' \<and> length buffer' = length buffer \<and> drop n' buffer' = drop n' buffer \<and> n \<le> n' \<and>
    take n' buffer' = replicate n' 0"
proof -
  define len where "len = min (run_length run * csize - (if off > (cluster + run_offset run) * csize
      then off - (cluster + run_offset run) * csize else 0)) (word_of_nat (length buffer) - word_of_nat n :: u64)"
  have u: "unat (word_of_nat (length buffer) - word_of_nat n :: u64) = length buffer - n"
    using assms(2,3) by (simp add: unat_of_nat take_bit_nat_eq_self flip: of_nat_diff)
  have "len \<le> word_of_nat (length buffer) - word_of_nat n" by (simp add: len_def)
  then have l: "n + unat len \<le> length buffer" using u assms(2) by (simp add: word_le_nat_alt)
  then have e: "usize_add n (unat len) = n + unat len" using assms(3) by (intro usize_add_eq) simp
  from assms(1) consider "n' = n" "buffer' = buffer"
    | "n' = n + unat len" "buffer' = take n buffer @ replicate (unat len) 0 @ drop (n + unat len) buffer"
    using l e by (auto simp: read_run_def Let_def simp flip: len_def split: if_splits)
  then show ?thesis
  proof cases
    case 2
    then show ?thesis using l assms(2,4) by (simp add: replicate_add min_def)
  qed (use assms in auto)
qed

lemma read_runs_loop_bounds:
  assumes "read_runs_loop csize runs (cluster, n, off, buffer) = (n', buffer')"
    and "n \<le> length buffer" "length buffer < 2 ^ 64" "take n buffer = replicate n 0"
  shows "n' \<le> length buffer \<and> length buffer' = length buffer \<and> drop n' buffer' = drop n' buffer \<and> n \<le> n' \<and>
    take n' buffer' = replicate n' 0"
  using assms
proof (induction runs arbitrary: cluster n off buffer)
  case (Cons run runs)
  obtain stop cluster1 n1 off1 buffer1 where r: "read_run csize run (cluster, n, off, buffer) = (stop, cluster1, n1, off1, buffer1)"
    by (metis prod.exhaust)
  note B = read_run_bounds[OF r Cons.prems(2-4)]
  show ?case
  proof (cases stop)
    case True
    then show ?thesis using Cons.prems(1) r B by simp
  next
    case False
    then have "read_runs_loop csize runs (cluster1, n1, off1, buffer1) = (n', buffer')" using Cons.prems(1) r by simp
    note IH = Cons.IH[OF this]
    then have "n1 \<le> n'" "drop n' buffer' = drop n' buffer1" using B Cons.prems(3) by auto
    moreover have "drop n' xs = drop (n' - n1) (drop n1 xs)" for xs :: "u8 list" using \<open>n1 \<le> n'\<close> by simp
    then have "drop n' buffer1 = drop n' buffer" using B by metis
    ultimately show ?thesis using B IH Cons.prems by simp
  qed
qed simp

text \<open>
  \<open>NtfsInode::read\<close> stays inside the buffer: it never changes the length of the buffer, the count it
  reports is at most that length, and the bytes behind the count keep their values. The only error is
  \<open>FileNotFound\<close>, for a file without a data attribute, and then the buffer is unchanged.
\<close>
theorem ntfs_read_bounds:
  assumes "ntfs_read i off buffer = (r, buffer')" "length buffer < 2 ^ 63"
    and "\<forall>c. resident_content i = Some c \<longrightarrow> length c < 2 ^ 63"
  shows "length buffer' = length buffer \<and>
    (case r of Err e \<Rightarrow> e = FileNotFound \<and> get_data_attribute i = None \<and> buffer' = buffer
             | Ok n \<Rightarrow> n \<le> length buffer \<and> drop n buffer' = drop n buffer)"
proof (cases "get_data_attribute i")
  case None
  then show ?thesis using assms(1) by (auto simp: ntfs_read_def)
next
  case (Some attr)
  show ?thesis
  proof (cases "resident_data attr")
    case None
    then have "read_from_runs i (run_list attr) off buffer = (r, buffer')" using assms(1) Some by (simp add: ntfs_read_def)
    then obtain n where n: "r = Ok n"
        "read_runs_loop (ucast (cluster_size (bpb (ni_volume i)))) (run_list attr) (0, 0, off, buffer) = (n, buffer')"
      by (auto simp: read_from_runs_def split: prod.splits)
    from read_runs_loop_bounds[OF n(2)] assms(2) n(1) show ?thesis by simp
  next
    case (Some c)
    then have c: "resident_content i = Some c" using \<open>get_data_attribute i = Some attr\<close> by (simp add: resident_content_def)
    have "i_read ntfs_inode i off buffer = (r, buffer')" using assms(1) by simp
    then show ?thesis using ntfs_reader.read_law[OF c _ assms(2), of off] assms(3) c by (auto simp: min_def)
  qed
qed

theorem ntfs_read_bounds_witness:
  "\<exists>n buffer'. ntfs_read demo_inode 3 [9, 9, 9] = (Ok n, buffer') \<and> n \<le> 3 \<and> drop n buffer' = drop n [9, 9, 9]"
proof -
  have c: "resident_content demo_inode = Some [1, 2, 3, 4, 5]" "get_data_attribute demo_inode \<noteq> None"
    by (simp_all add: demo_inode_def resident_content_def get_data_attribute_def Let_def)
  obtain r buffer' where r: "ntfs_read demo_inode 3 [9, 9, 9] = (r, buffer')" by (rule prod.exhaust)
  from ntfs_read_bounds[OF r] c r show ?thesis by (cases r) auto
qed

text \<open>
  The run list path delivers zeros: \<open>read_from_runs\<close> reads no disk. It also compares the offset in the file
  with positions on the disk.
\<close>

lemma read_from_runs_zeros:
  assumes "read_from_runs i runs off buffer = (Ok n, buffer')" "length buffer < 2 ^ 64"
  shows "take n buffer' = replicate n 0"
  using assms read_runs_loop_bounds[of _ runs 0 0 off buffer n buffer']
  by (auto simp: read_from_runs_def split: prod.splits)

section \<open>The mounted volume\<close>

lemma root_inode_defined:
  "\<exists>i. ntfs_root_inode v = Some i \<and> ni_attributes i = [] \<and> fm_file_type (ni_metadata i) = Directory \<and> ni_record_number i = 5"
  by (simp add: ntfs_root_inode_def from_mft_record_def IN_USE_def IS_DIRECTORY_def MFT_NUMBER_ROOT_def)

lemma get_mft_record_uncached:
  assumes "mft_cache v = []"
  shows "get_mft_record rn v =
    Some (if rn = MFT_NUMBER_ROOT then Ok create_root_directory_record else Err FileNotFound, v)"
  using assms by (simp add: get_mft_record_def list_all_iff)

lemma boot_sector_bpb:
  "\<exists>b. ntfs_bpb_parse ntfs_boot_sector = Some (Ok b) \<and> bytes_per_sector b = 512 \<and> sectors_per_cluster b = 8 \<and>
     cluster_size b = 4096 \<and> total_sectors b = 0 \<and> mft_record_size b = 0"
proof -
  have "le_word (replicate n 0) = 0" for n by (induction n) auto
  then show ?thesis
    by (simp add: ntfs_bpb_parse_def ntfs_boot_sector_def NTFS_SIGNATURE_def le_u16_def le_u64_def bytes_at_eq
        slice_def nth_append)
qed

lemma split_slash_components:
  "filter (\<lambda>s. s \<noteq> []) (split_slash path) = [] \<longleftrightarrow> set path \<subseteq> {CHR ''/''}"
  by (induction path rule: split_slash.induct) (auto split: list.splits)

lemma mount_ntfs_new:
  "\<exists>vol v. mount_ntfs disk vfs_new = Some (Ok (), v) \<and> next_fd v = 3 \<and> open_files v = [] \<and>
     mount_points v = [(''/'', \<lparr>mp_path = ''/'', mp_fs = vol, mp_flags = mount_flags_default\<rparr>)] \<and>
     bytes_per_sector (bpb vol) = 512 \<and> cluster_size (bpb vol) = 4096 \<and> total_sectors (bpb vol) = 0"
proof -
  obtain b where b: "ntfs_bpb_parse ntfs_boot_sector = Some (Ok b)" "bytes_per_sector b = 512"
      "cluster_size b = 4096" "total_sectors b = 0"
    using boot_sector_bpb by blast
  then show ?thesis
    by (simp add: mount_ntfs_def ntfs_volume_new_def vfs_mount_def vfs_new_def contains_key_def)
qed

lemma resolve_single_root:
  assumes "mount_points v = [(''/'', m)]"
  shows "resolve_mount_point path v = Ok (''/'', if prefix ''/'' path then tl path else path)"
  using assms by (cases path) (auto simp: resolve_mount_point_def better_mount_def contains_key_def)

text \<open>
  The volume that \<open>mount_ntfs\<close> mounts contains its root directory and nothing else. After
  \<open>mount_ntfs\<close> on a new \<open>Vfs\<close>, which succeeds, \<open>open\<close> succeeds exactly for the paths that consist of slashes only
  (the empty path among them), with descriptor 3; every other path gives \<open>FileNotFound\<close>. Reading the opened root
  gives \<open>FileNotFound\<close>, its listing is empty, and \<open>statfs\<close> reports blocks of 4096 bytes for every path.
\<close>
theorem mounted_ntfs_root_only:
  "\<exists>v. mount_ntfs disk vfs_new = Some (Ok (), v) \<and>
     (let (r, w) = vfs_open ntfs_file_system ntfs_inode path READ_ONLY v;
          root_path = (set path \<subseteq> {CHR ''/''})
      in r = (if root_path then Ok 3 else Err FileNotFound) \<and>
         (if root_path then vfs_read ntfs_inode 3 buffer w = (Err FileNotFound, buffer, w) else w = v) \<and>
         vfs_readdir ntfs_file_system ntfs_inode path v = (if root_path then Ok [] else Err FileNotFound)) \<and>
     map_sum id block_size (vfs_statfs ntfs_file_system path v) = Ok 4096 \<and>
     list_mounts ntfs_file_system v = [(''/'', NTFS)]"
proof -
  obtain vol v where m: "mount_ntfs disk vfs_new = Some (Ok (), v)" "next_fd v = 3" "open_files v = []"
      "mount_points v = [(''/'', \<lparr>mp_path = ''/'', mp_fs = vol, mp_flags = mount_flags_default\<rparr>)]"
      "bytes_per_sector (bpb vol) = 512" "cluster_size (bpb vol) = 4096" "total_sectors (bpb vol) = 0"
    using mount_ntfs_new by blast
  obtain root where r: "ntfs_root_inode vol = Some root" "ni_attributes root = []" using root_inode_defined by blast
  let ?rel = "if prefix ''/'' path then tl path else path"
  have "filter (\<lambda>s. s \<noteq> []) (split_slash ?rel) = [] \<longleftrightarrow> set path \<subseteq> {CHR ''/''}"
    unfolding split_slash_components by (cases path) (auto split: if_splits)
  then have t: "traverse_path ntfs_inode root ?rel = (if set path \<subseteq> {CHR ''/''} then Ok root else Err FileNotFound)"
    by (cases "filter (\<lambda>s. s \<noteq> []) (split_slash ?rel)") (auto simp: traverse_path_def)
  then have i: "vfs_inode_of ntfs_file_system ntfs_inode path v = (if set path \<subseteq> {CHR ''/''} then Ok root else Err FileNotFound)"
    using m(4) r(1) by (simp add: vfs_inode_of_def resolve_single_root[OF m(4)])
  have g: "get_data_attribute root = None" using r(2) by (simp add: get_data_attribute_def)
  show ?thesis
    by (intro exI[of _ v])
      (simp add: m i g vfs_open_def vfs_readdir_def vfs_statfs_def resolve_single_root[OF m(4)] ntfs_statfs_def list_mounts_def
        vfs_read_def fd_read_def file_descriptor_new_def flags_contain_def ntfs_read_def)
qed

end
