(* ===== verification/Ntfs_Records.thy ===== *)
theory Ntfs_Records
  imports Ntfs
begin

text \<open>
  The on-disk formats of the NTFS driver: run lists and file records. A small encoder states what a
  well-formed run list and a well-formed file record look like; the parsers of theory \<open>Ntfs\<close> invert it. For
  arbitrary bytes the parser of file records is characterised exactly: it panics only where a
  non-resident attribute points its run list behind its own end.
\<close>

section \<open>Fields of a run\<close>

lemma or_bytes_step:
  fixes acc x :: u64
  assumes "unat acc < 2 ^ k"
  shows "acc OR push_bit k x = acc + 2 ^ k * x"
proof -
  have "acc = take_bit k acc" using assms by (simp add: word_unat_eq_iff unsigned_take_bit_eq take_bit_nat_eq_self)
  then have "\<not> bit acc n" if "k \<le> n" for n using that by (metis bit_take_bit_iff not_less)
  then have "\<And>n. \<not> bit acc n \<or> \<not> bit (push_bit k x) n" by (auto simp: bit_push_bit_iff)
  then have "acc + push_bit k x = acc OR push_bit k x" by (rule disjunctive_add)
  then show ?thesis by (simp add: push_bit_eq_mult mult.commute)
qed


lemma fold_or_bytes:
  fixes acc :: u64
  assumes "n + length bs \<le> 8" "unat acc < 2 ^ (8 * n)"
  shows "fold (\<lambda>(i, b) acc. acc OR push_bit ((i * 8) mod 64) (ucast b)) (enumerate n bs) acc = acc + 2 ^ (8 * n) * le_word bs"
  using assms
proof (induction bs arbitrary: n acc)
  case (Cons b bs)
  have m: "n * 8 mod 64 = 8 * n" using Cons.prems(1) by simp
  have s: "acc OR push_bit (8 * n) (ucast b) = acc + 2 ^ (8 * n) * ucast b" using Cons.prems(2) by (rule or_bytes_step)
  have p: "(2 :: nat) ^ (8 * Suc n) \<le> 2 ^ 64" by (rule power_increasing) (use Cons.prems(1) in auto)
  have b: "unat b < 256" using unsigned_less[of b] by simp
  have u: "unat (2 ^ (8 * n) * ucast b :: u64) = 2 ^ (8 * n) * unat b"
  proof -
    have "2 ^ (8 * n) * unat b < 2 ^ (8 * n) * 256" using b by simp
    also have "\<dots> = 2 ^ (8 * Suc n)" by (simp add: power_add)
    finally have "2 ^ (8 * n) * unat b < 2 ^ 64" using p by (rule less_le_trans)
    then have "unat (word_of_nat (2 ^ (8 * n) * unat b) :: u64) = 2 ^ (8 * n) * unat b" by (rule unat_of_nat_small(4))
    moreover have "word_of_nat (2 ^ (8 * n) * unat b) = (2 ^ (8 * n) * ucast b :: u64)" by simp
    ultimately show ?thesis by metis
  qed
  have t: "unat acc + 2 ^ (8 * n) * unat b < 2 ^ (8 * Suc n)"
  proof -
    have "unat acc + 2 ^ (8 * n) * unat b < 2 ^ (8 * n) + 2 ^ (8 * n) * unat b" using Cons.prems(2) by simp
    also have "\<dots> = 2 ^ (8 * n) * (unat b + 1)" by simp
    also have "\<dots> \<le> 2 ^ (8 * n) * 256" by (rule mult_le_mono2) (use b in simp)
    also have "\<dots> = 2 ^ (8 * Suc n)" by (simp add: power_add)
    finally show ?thesis .
  qed
  have "unat acc + unat (2 ^ (8 * n) * ucast b :: u64) < 2 ^ LENGTH(64)"
    unfolding u using less_le_trans[OF t p] by simp
  then have e: "unat (acc + 2 ^ (8 * n) * ucast b) = unat acc + unat (2 ^ (8 * n) * ucast b :: u64)"
    by (rule unat_add_lem[THEN iffD1])
  have "unat (acc + 2 ^ (8 * n) * ucast b) < 2 ^ (8 * Suc n)" unfolding e u by (rule t)
  then have "fold (\<lambda>(i, b) acc. acc OR push_bit ((i * 8) mod 64) (ucast b)) (enumerate (Suc n) bs) (acc + 2 ^ (8 * n) * ucast b) =
      acc + 2 ^ (8 * n) * ucast b + 2 ^ (8 * Suc n) * le_word bs"
    using Cons.IH[of "Suc n" "acc + 2 ^ (8 * n) * ucast b"] Cons.prems(1) by simp
  moreover have "(2 :: u64) ^ (8 * Suc n) = 2 ^ (8 * n) * 256" by (simp add: power_add)
  ultimately show ?case using m s by (simp add: distrib_left mult.assoc add.assoc)
qed simp

lemma or_bytes_le_word: "length bs \<le> 8 \<Longrightarrow> or_bytes bs = le_word bs"
  using fold_or_bytes[of 0 bs 0] by (simp add: or_bytes_def)

lemma nth_to_le_bytes: "i < k \<Longrightarrow> to_le_bytes k n ! i = word_of_nat (n div 256 ^ i mod 256)"
proof (induction k arbitrary: i n)
  case (Suc k)
  then show ?case by (cases i) (auto simp: div_mult2_eq)
qed simp

lemma le_word_take_bit:
  fixes w :: u64
  shows "le_word (to_le_bytes k (unat w)) = take_bit (8 * k) w"
proof -
  have "le_word (to_le_bytes k (unat w)) = (word_of_nat (unat w mod 256 ^ k) :: u64)" by (rule le_word_to_le_bytes)
  also have "unat w mod 256 ^ k = unat (take_bit (8 * k) w)"
    unfolding unsigned_take_bit_eq by (simp add: take_bit_eq_mod power_mult)
  finally show ?thesis by simp
qed

lemma last_byte_sign:
  fixes w :: u64
  assumes "0 < k" "k \<le> 8"
  shows "to_le_bytes k (unat w) ! (k - 1) AND 0x80 \<noteq> 0 \<longleftrightarrow> bit w (8 * k - 1)"
proof -
  let ?b = "to_le_bytes k (unat w) ! (k - 1)"
  have b: "?b = word_of_nat (unat w div 256 ^ (k - 1) mod 256)" using assms by (simp add: nth_to_le_bytes)
  have "?b AND 0x80 \<noteq> 0 \<longleftrightarrow> bit ?b 7"
    using and_exp_eq_0_iff_not_bit[of ?b 7] by simp
  also have "\<dots> \<longleftrightarrow> bit (unat w div 256 ^ (k - 1)) 7"
  proof -
    have "n mod 256 = take_bit 8 n" for n :: nat by (simp add: take_bit_eq_mod)
    then show ?thesis unfolding b by (simp add: bit_simps)
  qed
  also have "unat w div 256 ^ (k - 1) = drop_bit (8 * (k - 1)) (unat w)" by (simp add: drop_bit_eq_div power_mult)
  also have "bit (drop_bit (8 * (k - 1)) (unat w)) 7 \<longleftrightarrow> bit w (8 * k - 1)"
  proof -
    have "8 * (k - 1) + 7 = 8 * k - 1" using assms(1) by simp
    then show ?thesis using assms(2) by (simp add: bit_simps add.commute)
  qed
  finally show ?thesis .
qed

lemma sign_extend_field:
  fixes w :: u64
  assumes "0 < k" "k < 8" "signed_take_bit (8 * k - 1) w = w"
  shows "sign_extend (to_le_bytes k (unat w) ! (k - 1)) k (take_bit (8 * k) w) = w"
proof (rule bit_word_eqI)
  fix n
  assume n: "n < LENGTH(64)"
  have s: "bit w n \<longleftrightarrow> bit w (min (8 * k - 1) n)" 
    using n arg_cong[OF assms(3), of "\<lambda>w. bit w n"] by (simp add: bit_signed_take_bit_iff)
  have m: "k * 8 mod 64 = 8 * k" using assms(2) by simp
  have l: "to_le_bytes k (unat w) ! (k - 1) AND 0x80 \<noteq> 0 \<longleftrightarrow> bit w (8 * k - 1)"
    using last_byte_sign[of k w] assms(1,2) by simp
  have "bit (push_bit (8 * k) (NOT 0 :: u64)) n \<longleftrightarrow> 8 * k \<le> n" using n by (auto simp: bit_simps)
  then have e: "bit (sign_extend (to_le_bytes k (unat w) ! (k - 1)) k (take_bit (8 * k) w)) n \<longleftrightarrow>
      n < 8 * k \<and> bit w n \<or> bit w (8 * k - 1) \<and> 8 * k \<le> n"
    unfolding sign_extend_def l m by (simp only: bit_or_iff bit_take_bit_iff if_distribR split: if_split) blast
  show "bit (sign_extend (to_le_bytes k (unat w) ! (k - 1)) k (take_bit (8 * k) w)) n = bit w n"
  proof (cases "n < 8 * k")
    case False
    then have "min (8 * k - 1) n = 8 * k - 1" by simp
    then show ?thesis unfolding e using s False by simp
  next
    case True
    then show ?thesis unfolding e by simp
  qed
qed

section \<open>Run lists\<close>

text \<open>
  A run in the format of NTFS: a header with the sizes of the two fields, the length, and the offset
  relative to the previous run in two's complement. \<open>valid_run\<close> says that the run fits the sizes. A size of
  8 for the offset is left out; see \<open>eight_byte_offset\<close>.
\<close>

record sized_run =
  size_len :: nat
  offset_len :: nat
  the_run :: DataRun

definition valid_run :: "sized_run \<Rightarrow> bool" where
  "valid_run r \<longleftrightarrow> 1 \<le> size_len r \<and> size_len r \<le> 8 \<and> offset_len r \<le> 7 \<and>
     take_bit (8 * size_len r) (run_length (the_run r)) = run_length (the_run r) \<and>
     (if offset_len r = 0 then run_offset (the_run r) = 0
      else signed_take_bit (8 * offset_len r - 1) (run_offset (the_run r)) = run_offset (the_run r))"

definition encode_run :: "sized_run \<Rightarrow> u8 list" where
  "encode_run r = [word_of_nat (size_len r + 16 * offset_len r)] @ to_le_bytes (size_len r) (unat (run_length (the_run r)))
     @ to_le_bytes (offset_len r) (unat (run_offset (the_run r)))"

lemma header_fields:
  assumes "a < 16" "b < 16"
  defines "h \<equiv> word_of_nat (a + 16 * b) :: u8"
  shows "unat (h AND 0x0F) = a" "unat (drop_bit 4 h AND 0x0F) = b" "h = 0 \<longleftrightarrow> a = 0 \<and> b = 0"
proof -
  have u: "unat h = a + 16 * b" unfolding h_def by (rule unat_of_nat_small(1)) (use assms in simp)
  have m: "x AND 0x0F = take_bit 4 x" for x :: u8 by (simp add: take_bit_eq_mask mask_eq_exp_minus_1)
  have n: "take_bit 4 k = k mod 16" "drop_bit 4 k = k div 16" for k :: nat
    by (simp_all add: take_bit_eq_mod drop_bit_eq_div)
  show "unat (h AND 0x0F) = a" unfolding m unsigned_take_bit_eq u n using assms(1) by simp
  show "unat (drop_bit 4 h AND 0x0F) = b"
    unfolding m unsigned_take_bit_eq unat_drop_bit_eq u n using assms(1,2) by simp
  show "h = 0 \<longleftrightarrow> a = 0 \<and> b = 0" using u by (simp add: word_unat_eq_iff)
qed

lemma bytes_at_append:
  "length pre = i \<Longrightarrow> length bs = n \<Longrightarrow> bytes_at (pre @ bs @ post) i n = Some bs"
  by (simp add: bytes_at_eq)

lemma bytes_at_Some:
  assumes "bytes_at data i n = Some bs" "0 < n"
  shows "i + n \<le> length data" "length bs = n" "byte_at data (i + n - 1) = Some (bs ! (n - 1))"
proof -
  have "i + n \<le> length data" "bs = take n (drop i data)" using assms by (simp_all add: bytes_at_eq split: if_splits)
  moreover have "i + (n - 1) = i + n - 1" using assms(2) by simp
  ultimately show "i + n \<le> length data" "length bs = n" "byte_at data (i + n - 1) = Some (bs ! (n - 1))"
    using assms(2) by (simp_all add: byte_at_def)
qed

text \<open>One round of the parser, without and with an offset field.\<close>

lemma parse_run_sparse:
  assumes "byte_at data i = Some h" "h \<noteq> 0" "unat (h AND 0x0F) = a" "unat (drop_bit 4 h AND 0x0F) = 0" "0 < a"
    and L: "bytes_at data (i + 1) a = Some L"
  shows "parse_run_list_from data i =
    map_option (Cons \<lparr>run_length = or_bytes L, run_offset = 0\<rparr>) (parse_run_list_from data (i + 1 + a))"
  using assms bytes_at_Some[OF L \<open>0 < a\<close>]
  by (subst parse_run_list_from.simps) (simp add: Let_def map_conv_bind_option comp_def)

lemma parse_run_full:
  assumes "byte_at data i = Some h" "h \<noteq> 0" "unat (h AND 0x0F) = a" "unat (drop_bit 4 h AND 0x0F) = b" "0 < a" "0 < b"
    and L: "bytes_at data (i + 1) a = Some L" and O: "bytes_at data (i + 1 + a) b = Some bs"
  shows "parse_run_list_from data i =
    map_option (Cons \<lparr>run_length = or_bytes L, run_offset = sign_extend (bs ! (b - 1)) b (or_bytes bs)\<rparr>)
      (parse_run_list_from data (i + 1 + a + b))"
  using assms bytes_at_Some[OF L \<open>0 < a\<close>] bytes_at_Some[OF O \<open>0 < b\<close>]
  by (subst parse_run_list_from.simps) (simp add: Let_def map_conv_bind_option comp_def)

lemma parse_one_run:
  assumes "valid_run r" and d: "data = pre @ encode_run r @ post"
  shows "parse_run_list_from data (length pre) =
    map_option (Cons (the_run r)) (parse_run_list_from data (length pre + length (encode_run r)))"
proof -
  let ?h = "word_of_nat (size_len r + 16 * offset_len r) :: u8"
  let ?L = "to_le_bytes (size_len r) (unat (run_length (the_run r)))"
  let ?O = "to_le_bytes (offset_len r) (unat (run_offset (the_run r)))"
  have v: "0 < size_len r" "size_len r \<le> 8" "offset_len r \<le> 7" using assms(1) by (auto simp: valid_run_def)
  note h = header_fields[of "size_len r" "offset_len r"]
  have d': "data = pre @ [?h] @ ?L @ ?O @ post" using d by (simp add: encode_run_def)
  have H: "byte_at data (length pre) = Some ?h" "?h \<noteq> 0" "unat (?h AND 0x0F) = size_len r" "unat (drop_bit 4 ?h AND 0x0F) = offset_len r"
    using h v by (simp_all only: d' byte_at_def) simp_all
  have L: "bytes_at data (length pre + 1) (size_len r) = Some ?L"
    using bytes_at_append[of "pre @ [?h]" "length pre + 1" ?L "size_len r" "?O @ post"] by (simp add: d')
  have O: "bytes_at data (length pre + 1 + size_len r) (offset_len r) = Some ?O"
    using bytes_at_append[of "pre @ [?h] @ ?L" "length pre + 1 + size_len r" ?O "offset_len r" post] by (simp add: d')
  have len: "or_bytes ?L = run_length (the_run r)"
    using v assms(1) by (simp add: or_bytes_le_word le_word_take_bit valid_run_def)
  have next_run: "length pre + 1 + size_len r + offset_len r = length pre + length (encode_run r)" by (simp add: encode_run_def)
  show ?thesis
  proof (cases "offset_len r = 0")
    case True
    then have "run_offset (the_run r) = 0" using assms(1) by (simp add: valid_run_def)
    then have "the_run r = \<lparr>run_length = or_bytes ?L, run_offset = 0\<rparr>" using len by (cases "the_run r") simp
    moreover have "length pre + 1 + size_len r = length pre + length (encode_run r)" using next_run True by simp
    ultimately show ?thesis using parse_run_sparse[OF H(1-3) trans[OF H(4) True] v(1) L] by (simp only:)
  next
    case False
    then have "sign_extend (?O ! (offset_len r - 1)) (offset_len r) (or_bytes ?O) = run_offset (the_run r)"
      using v(3) assms(1) sign_extend_field[of "offset_len r" "run_offset (the_run r)"]
      by (simp add: valid_run_def or_bytes_le_word le_word_take_bit)
    then have "the_run r = \<lparr>run_length = or_bytes ?L, run_offset = sign_extend (?O ! (offset_len r - 1)) (offset_len r) (or_bytes ?O)\<rparr>"
      using len by (cases "the_run r") simp
    then show ?thesis using parse_run_full[OF H v(1) _ L O] False unfolding next_run by (simp only: not_gr_zero simp_thms)
  qed
qed

lemma parse_runs_from:
  assumes "list_all valid_run rs" "data = pre @ concat (map encode_run rs) @ 0 # post"
  shows "parse_run_list_from data (length pre) = Some (map the_run rs)"
  using assms
proof (induction rs arbitrary: pre)
  case Nil
  then show ?case by (subst parse_run_list_from.simps) (simp add: byte_at_def)
next
  case (Cons r rs)
  then have "parse_run_list_from data (length pre) =
    map_option (Cons (the_run r)) (parse_run_list_from data (length (pre @ encode_run r)))"
    using parse_one_run[of r data pre "concat (map encode_run rs) @ 0 # post"] by simp
  also have "parse_run_list_from data (length (pre @ encode_run r)) = Some (map the_run rs)"
    using Cons.IH[of "pre @ encode_run r"] Cons.prems by simp
  finally show ?case by simp
qed

text \<open>
  C26. Run lists round trip: parsing the encoding of a list of runs, with any field sizes that fit the
  values (offsets of up to seven bytes, negative ones included) and any bytes behind the terminator, gives the
  list back.
\<close>
theorem run_list_roundtrip:
  assumes "list_all valid_run rs"
  shows "parse_run_list (concat (map encode_run rs) @ 0 # post) = Some (map the_run rs)"
  unfolding parse_run_list_def using parse_runs_from[OF assms, of _ "[]" post] by simp

definition demo_runs :: "sized_run list" where
  "demo_runs =
     [\<lparr>size_len = 1, offset_len = 2, the_run = \<lparr>run_length = 0x18, run_offset = 0x5634\<rparr>\<rparr>,
      \<lparr>size_len = 2, offset_len = 1, the_run = \<lparr>run_length = 0x1234, run_offset = - 2\<rparr>\<rparr>]"

theorem run_list_roundtrip_witness:
  "parse_run_list [0x21, 0x18, 0x34, 0x56, 0x12, 0x34, 0x12, 0xFE, 0] =
     Some [\<lparr>run_length = 0x18, run_offset = 0x5634\<rparr>, \<lparr>run_length = 0x1234, run_offset = - 2\<rparr>]"
proof -
  have v: "list_all valid_run demo_runs"
    by (simp add: demo_runs_def valid_run_def take_bit_eq_mod signed_take_bit_eq_take_bit_minus)
  have "concat (map encode_run demo_runs) @ [0] = [0x21, 0x18, 0x34, 0x56, 0x12, 0x34, 0x12, 0xFE, 0]"
    by (simp add: demo_runs_def encode_run_def)
  then show ?thesis using run_list_roundtrip[OF v, of "[]"] by (simp add: demo_runs_def)
qed

text \<open>
  An offset field of eight bytes is not sign-extended correctly: the shift distance 64 wraps to 0, so that a
  negative offset becomes \<open>-1\<close>.
\<close>

lemma eight_byte_offset:
  "parse_run_list [0x81, 1, 0xFE, 0xFF, 0xFF, 0xFF, 0xFF, 0xFF, 0xFF, 0xFF, 0] = Some [\<lparr>run_length = 1, run_offset = - 1\<rparr>]"
proof -
  let ?d = "[0x81, 1, 0xFE, 0xFF, 0xFF, 0xFF, 0xFF, 0xFF, 0xFF, 0xFF, 0] :: u8 list"
  have "byte_at ?d 0 = Some 0x81" "bytes_at ?d (0 + 1) 1 = Some [1]"
    "bytes_at ?d (0 + 1 + 1) 8 = Some [0xFE, 0xFF, 0xFF, 0xFF, 0xFF, 0xFF, 0xFF, 0xFF]"
    by (simp_all add: byte_at_def bytes_at_eq)
  moreover have "parse_run_list_from ?d (0 + 1 + 1 + 8) = Some []"
    by (subst parse_run_list_from.simps) (simp add: byte_at_def)
  ultimately show ?thesis
    using parse_run_full[of ?d 0 "0x81" 1 8 "[1]" "[0xFE, 0xFF, 0xFF, 0xFF, 0xFF, 0xFF, 0xFF, 0xFF]"]
    by (simp add: parse_run_list_def sign_extend_def or_bytes_le_word)
qed

section \<open>When the parser of file records panics\<close>

lemma name_units_defined: "\<exists>s. name_units data off n name = Some s"
proof (induction n arbitrary: off name)
  case (Suc n)
  have "\<exists>u. le_u16 data off = Some u" if "off + 1 < length data" using that by (intro le_defined(1)) simp
  then show ?case using Suc.IH by (cases "off + 1 < length data") fastforce+
qed simp

lemma parse_run_list_defined: "\<exists>rs. parse_run_list_from data i = Some rs"
proof (induction "length data - i" arbitrary: i rule: less_induct)
  case less
  show ?case
  proof (cases "i < length data \<and> data ! i \<noteq> 0")
    case False
    then show ?thesis by (subst parse_run_list_from.simps) auto
  next
    case True
    let ?a = "unat (data ! i AND 0x0F)" and ?b = "unat (drop_bit 4 (data ! i) AND 0x0F)"
    have h: "byte_at data i = Some (data ! i)" "data ! i \<noteq> 0" using True by simp_all
    consider (short) "?a = 0 \<or> i + 1 + ?a > length data" | (sparse) "0 < ?a" "i + 1 + ?a \<le> length data" "?b = 0"
      | (cut) "0 < ?a" "i + 1 + ?a \<le> length data" "0 < ?b" "i + 1 + ?a + ?b > length data"
      | (full) "0 < ?a" "i + 1 + ?a \<le> length data" "0 < ?b" "i + 1 + ?a + ?b \<le> length data" by linarith
    then show ?thesis
    proof cases
      case short
      then show ?thesis using True by (subst parse_run_list_from.simps) (simp add: Let_def)
    next
      case sparse
      have L: "bytes_at data (i + 1) ?a = Some (take ?a (drop (i + 1) data))" using sparse by (simp add: bytes_at_eq)
      have "\<exists>rs. parse_run_list_from data (i + 1 + ?a) = Some rs"
        by (rule less) (use True in auto)
      then show ?thesis using parse_run_sparse[OF h refl sparse(3,1) L] by auto
    next
      case cut
      then show ?thesis using True by (subst parse_run_list_from.simps) (simp add: Let_def bytes_at_eq)
    next
      case full
      have L: "bytes_at data (i + 1) ?a = Some (take ?a (drop (i + 1) data))" using full by (simp add: bytes_at_eq)
      have O: "bytes_at data (i + 1 + ?a) ?b = Some (take ?b (drop (i + 1 + ?a) data))" using full by (simp add: bytes_at_eq)
      have "\<exists>rs. parse_run_list_from data (i + 1 + ?a + ?b) = Some rs"
        by (rule less) (use True in auto)
      then show ?thesis using parse_run_full[OF h refl refl full(1,3) L O] by auto
    qed
  qed
qed

text \<open>An attribute that the loop accepts at an offset, and one whose run list starts behind its end.\<close>

definition attribute_here :: "u8 list \<Rightarrow> usize \<Rightarrow> u32 \<Rightarrow> bool" where
  "attribute_here data i tsize \<longleftrightarrow>
     i + 24 \<le> length data \<and> le_u32 data i \<noteq> Some 0xFFFFFFFF \<and> le_u32 data (i + 4) = Some tsize \<and>
     tsize \<noteq> 0 \<and> i + unat tsize \<le> length data"

definition run_list_behind_end :: "u8 list \<Rightarrow> usize \<Rightarrow> u32 \<Rightarrow> bool" where
  "run_list_behind_end data i tsize \<longleftrightarrow>
     i + 0x40 \<le> length data \<and> data ! (i + 8) \<noteq> 0 \<and> (\<exists>ro. le_u16 data (i + 0x20) = Some ro \<and> unat tsize < unat ro)"

inductive visits :: "u8 list \<Rightarrow> usize \<Rightarrow> usize \<Rightarrow> bool" for data where
  here: "visits data i i"
| step: "attribute_here data i tsize \<Longrightarrow> visits data (i + unat tsize) j \<Longrightarrow> visits data i j"

lemma parse_attribute_name_defined:
  "i + 24 \<le> length data \<Longrightarrow> \<exists>n. parse_attribute_name data i t = Some n"
  using le_defined(1)[of "i + 10" data] name_units_defined
  by (auto simp: parse_attribute_name_def)

lemma parse_resident_defined: "\<exists>a. parse_resident data i attr = Some a"
  using le_defined(1)[of "i + 0x14" data] le_defined(2)[of "i + 0x10" data]
  by (auto simp: parse_resident_def Let_def)

lemma parse_non_resident_None:
  assumes "i + t \<le> length data"
  shows "parse_non_resident data i t attr = None \<longleftrightarrow>
    i + 0x40 \<le> length data \<and> (\<exists>ro. le_u16 data (i + 0x20) = Some ro \<and> t < unat ro)"
proof (cases "i + 0x40 \<le> length data")
  case True
  obtain ro ds isz where r: "le_u16 data (i + 0x20) = Some ro" "le_u64 data (i + 0x30) = Some ds" "le_u64 data (i + 0x38) = Some isz"
    using le_defined(1)[of "i + 0x20" data] le_defined(3)[of "i + 0x30" data] le_defined(3)[of "i + 0x38" data] True by auto
  obtain rs where rs: "parse_run_list (take (t - unat ro) (drop (i + unat ro) data)) = Some rs"
    using parse_run_list_defined by (auto simp: parse_run_list_def)
  show ?thesis using True r assms rs
    by (cases "t < unat ro") (auto simp: parse_non_resident_def slice_def)
qed (simp add: parse_non_resident_def)


lemma parse_attribute_None:
  assumes "i + 24 \<le> length data" "i + t \<le> length data"
  shows "parse_attribute data i ty t = None \<longleftrightarrow>
    data ! (i + 8) \<noteq> 0 \<and> i + 0x40 \<le> length data \<and> (\<exists>ro. le_u16 data (i + 0x20) = Some ro \<and> t < unat ro)"
proof -
  obtain n where n: "parse_attribute_name data i t = Some n" using parse_attribute_name_defined[OF assms(1)] by blast
  have "byte_at data (i + 8) = Some (data ! (i + 8))" using assms(1) by simp
  then show ?thesis using n parse_non_resident_None[OF assms(2)] parse_resident_defined[of data i]
    by (cases "data ! (i + 8) = 0") (auto simp: parse_attribute_def Let_def)
qed

lemma parse_attributes_stop:
  assumes "\<nexists>t. attribute_here data i t"
  shows "parse_attributes data i = Some []"
proof (cases "i + 24 \<le> length data")
  case True
  obtain ty t where "le_u32 data i = Some ty" "le_u32 data (i + 4) = Some t"
    using le_defined(2)[of i data] le_defined(2)[of "i + 4" data] True by auto
  then show ?thesis using assms True
    by (subst parse_attributes.simps) (auto simp: attribute_here_def unat_eq_zero not_le)
next
  case False
  show ?thesis
  proof (cases "i + 4 < length data")
    case True
    then obtain ty where "le_u32 data i = Some ty" using le_defined(2)[of i data] by auto
    then show ?thesis using False by (subst parse_attributes.simps) simp
  qed (subst parse_attributes.simps, simp)
qed

lemma parse_attributes_step:
  assumes "attribute_here data i t"
  shows "\<exists>ty. le_u32 data i = Some ty \<and> parse_attributes data i =
    Option.bind (parse_attribute data i ty (unat t)) (\<lambda>a. map_option (Cons a) (parse_attributes data (i + unat t)))"
proof -
  obtain ty where "le_u32 data i = Some ty" using le_defined(2)[of i data] assms by (auto simp: attribute_here_def)
  then show ?thesis using assms
    by (subst parse_attributes.simps) (auto simp: attribute_here_def map_conv_bind_option comp_def unat_eq_zero)
qed

lemma parse_attributes_None:
  "parse_attributes data i = None \<longleftrightarrow>
     (\<exists>j t. visits data i j \<and> attribute_here data j t \<and> run_list_behind_end data j t)"
proof (induction "length data - i" arbitrary: i rule: less_induct)
  case less
  show ?case
  proof (cases "\<exists>t. attribute_here data i t")
    case False
    then have "visits data i j \<longleftrightarrow> j = i" for j using visits.simps[of data i j] by blast
    then show ?thesis using False parse_attributes_stop[of data i] by simp
  next
    case True
    then obtain t where t: "attribute_here data i t" by blast
    then have u: "t' = t" if "attribute_here data i t'" for t' using that by (auto simp: attribute_here_def)
    have t0: "0 < unat t" using t by (simp add: attribute_here_def unat_gt_0)
    have IH: "parse_attributes data (i + unat t) = None \<longleftrightarrow>
        (\<exists>j t'. visits data (i + unat t) j \<and> attribute_here data j t' \<and> run_list_behind_end data j t')"
      by (rule less) (use t t0 in \<open>auto simp: attribute_here_def\<close>)
    obtain ty where p: "parse_attributes data i =
        Option.bind (parse_attribute data i ty (unat t)) (\<lambda>a. map_option (Cons a) (parse_attributes data (i + unat t)))"
      using parse_attributes_step[OF t] by blast
    have here: "parse_attribute data i ty (unat t) = None \<longleftrightarrow> run_list_behind_end data i t"
      using parse_attribute_None[of i data "unat t" ty] t by (auto simp: attribute_here_def run_list_behind_end_def)
    have v: "visits data i j \<longleftrightarrow> j = i \<or> visits data (i + unat t) j" for j
      using t u visits.simps[of data i j] by blast
    have n: "parse_attributes data i = None \<longleftrightarrow> run_list_behind_end data i t \<or> parse_attributes data (i + unat t) = None"
      unfolding p here[symmetric] by (cases "parse_attribute data i ty (unat t)") simp_all
    show ?thesis unfolding n IH v using t u by blast
  qed
qed

lemma parse_mft_record_None:
  "parse_mft_record data = None \<longleftrightarrow>
     MFT_RECORD_SIZE \<le> length data \<and> le_u32 data 0 = Some MFT_RECORD_SIGNATURE \<and>
     (\<exists>start i tsize. le_u16 data 0x14 = Some start \<and> visits data (unat start) i \<and> attribute_here data i tsize \<and>
        run_list_behind_end data i tsize)"
proof (cases "MFT_RECORD_SIZE \<le> length data")
  case True
  then obtain sig where sig: "le_u32 data 0 = Some sig" using le_defined(2)[of 0 data] by (auto simp: MFT_RECORD_SIZE_def)
  obtain seq where seq: "le_u16 data 0x10 = Some seq" using True le_defined(1)[of "0x10" data] by (auto simp: MFT_RECORD_SIZE_def)
  obtain start where start: "le_u16 data 0x14 = Some start" using True le_defined(1)[of "0x14" data] by (auto simp: MFT_RECORD_SIZE_def)
  obtain fl where fl: "le_u16 data 0x16 = Some fl" using True le_defined(1)[of "0x16" data] by (auto simp: MFT_RECORD_SIZE_def)
  obtain used where used: "le_u32 data 0x18 = Some used" using True le_defined(2)[of "0x18" data] by (auto simp: MFT_RECORD_SIZE_def)
  have "parse_mft_record data = None \<longleftrightarrow> sig = MFT_RECORD_SIGNATURE \<and> parse_attributes data (unat start) = None"
    using True by (simp add: parse_mft_record_def sig seq start fl used bind_eq_None_conv)
  then show ?thesis using True by (simp add: sig start parse_attributes_None)
qed (simp add: parse_mft_record_def)

text \<open>
  C12. The parser of file records accesses its buffer within bounds except at one place. For every byte buffer
  \<open>parse_mft_record\<close> returns a value, an error or a record, unless the buffer is long enough, has the record
  signature and the loop over the attributes comes to a non-resident attribute, not the end marker and inside the buffer, whose run list
  offset is beyond the attribute's own size; then, and only then, the slice of the run list panics.
\<close>
theorem parse_mft_record_panics_iff:
  "parse_mft_record data = None \<longleftrightarrow>
     MFT_RECORD_SIZE \<le> length data \<and> le_u32 data 0 = Some MFT_RECORD_SIGNATURE \<and>
     (\<exists>start i tsize. le_u16 data 0x14 = Some start \<and> visits data (unat start) i \<and> attribute_here data i tsize \<and>
        run_list_behind_end data i tsize)"
  by (rule parse_mft_record_None)

text \<open>A record of 1024 bytes on which the parser panics.\<close>

definition panic_record :: "u8 list" where
  "panic_record = to_le_bytes 4 0x454C4946 @ replicate 16 0 @ [32, 0] @ replicate 10 0 @
     [0x80, 0, 0, 0, 0x40, 0, 0, 0, 1] @ replicate 23 0 @ [0xFF, 0] @ replicate 958 0"

lemma panic_record_panics: "parse_mft_record panic_record = None"
proof -
  let ?d = panic_record
  have l: "length ?d = 1024" by (simp add: panic_record_def)
  have "le_u32 ?d 0 = Some MFT_RECORD_SIGNATURE" "le_u16 ?d 0x14 = Some 32" "le_u32 ?d 32 = Some 0x80" "le_u32 ?d 36 = Some 0x40"
    "le_u16 ?d 64 = Some 0xFF" "?d ! 40 = 1"
    by (simp_all add: panic_record_def le_u32_def le_u16_def bytes_at_eq MFT_RECORD_SIGNATURE_def nth_append)
  moreover from this have "attribute_here ?d 32 0x40" "run_list_behind_end ?d 32 0x40"
    by (simp_all add: attribute_here_def run_list_behind_end_def l)
  moreover have "visits ?d (unat (32 :: u16)) 32" using visits.here[of ?d 32] by simp
  ultimately show ?thesis unfolding parse_mft_record_None using l by (auto simp: MFT_RECORD_SIZE_def)
qed

section \<open>File records\<close>

text \<open>
  Attributes in the format of NTFS, without a name: a resident one with its content, and a
  non-resident one with its sizes and its run list; both are padded to a multiple of eight bytes.
\<close>

datatype attribute_image =
    ResidentImage NtfsAttributeType "u8 list"
  | RunsImage NtfsAttributeType u64 u64 "sized_run list"

definition pad8 :: "nat \<Rightarrow> u8 list" where
  "pad8 n = replicate ((8 - n mod 8) mod 8) 0"

fun image_body :: "attribute_image \<Rightarrow> u8 list" where
  "image_body (ResidentImage ty c) = c @ pad8 (length c)"
| "image_body (RunsImage ty ds isz rs) =
     (let r = concat (map encode_run rs) @ [0] in r @ pad8 (length r))"

fun image_size :: "attribute_image \<Rightarrow> nat" where
  "image_size (ResidentImage ty c) = 24 + length (image_body (ResidentImage ty c))"
| "image_size (RunsImage ty ds isz rs) = 64 + length (image_body (RunsImage ty ds isz rs))"

fun encode_attribute :: "attribute_image \<Rightarrow> u8 list" where
  "encode_attribute (ResidentImage ty c) =
     to_le_bytes 4 (unat (attribute_type_discr ty)) @ to_le_bytes 4 (image_size (ResidentImage ty c)) @ replicate 8 0 @
     to_le_bytes 4 (length c) @ to_le_bytes 2 24 @ [0, 0] @ image_body (ResidentImage ty c)"
| "encode_attribute (RunsImage ty ds isz rs) =
     to_le_bytes 4 (unat (attribute_type_discr ty)) @ to_le_bytes 4 (image_size (RunsImage ty ds isz rs)) @ [1] @ replicate 23 0 @
     to_le_bytes 2 64 @ replicate 14 0 @ to_le_bytes 8 (unat ds) @ to_le_bytes 8 (unat isz) @ image_body (RunsImage ty ds isz rs)"

fun image_attribute :: "attribute_image \<Rightarrow> NtfsAttribute" where
  "image_attribute (ResidentImage ty c) =
     \<lparr>attr_type = ty, attr_total_size = word_of_nat (image_size (ResidentImage ty c)), non_resident = False, attr_name = None,
      resident_data = Some c, run_list = [], data_size = word_of_nat (length c), initialized_size = word_of_nat (length c)\<rparr>"
| "image_attribute (RunsImage ty ds isz rs) =
     \<lparr>attr_type = ty, attr_total_size = word_of_nat (image_size (RunsImage ty ds isz rs)), non_resident = True, attr_name = None,
      resident_data = None, run_list = map the_run rs, data_size = ds, initialized_size = isz\<rparr>"

fun valid_image :: "attribute_image \<Rightarrow> bool" where
  "valid_image (ResidentImage ty c) \<longleftrightarrow> ty \<noteq> End \<and> image_size (ResidentImage ty c) < 2 ^ 32"
| "valid_image (RunsImage ty ds isz rs) \<longleftrightarrow> ty \<noteq> End \<and> image_size (RunsImage ty ds isz rs) < 2 ^ 32 \<and> list_all valid_run rs"

definition encode_record :: "u16 \<Rightarrow> u16 \<Rightarrow> u32 \<Rightarrow> attribute_image list \<Rightarrow> u8 list \<Rightarrow> u8 list" where
  "encode_record seq fl used as rest =
     to_le_bytes 4 (unat MFT_RECORD_SIGNATURE) @ replicate 12 0 @ to_le_bytes 2 (unat seq) @ [0, 0] @ to_le_bytes 2 0x38 @
     to_le_bytes 2 (unat fl) @ to_le_bytes 4 (unat used) @ replicate 28 0 @ concat (map encode_attribute as) @
     to_le_bytes 4 0xFFFFFFFF @ rest"

lemma attribute_type_roundtrip: "attribute_type_from (attribute_type_discr ty) = ty"
  by (cases ty) (simp_all add: attribute_type_from_def)

lemma attribute_type_not_end: "ty \<noteq> End \<Longrightarrow> attribute_type_discr ty \<noteq> 0xFFFFFFFF"
  by (cases ty) simp_all

text \<open>Fields at known positions.\<close>

lemma le_field:
  "data = p @ to_le_bytes 2 n @ q \<Longrightarrow> length p = i \<Longrightarrow> n < 2 ^ 16 \<Longrightarrow> le_u16 data i = Some (word_of_nat n)"
  "data = p @ to_le_bytes 4 n @ q \<Longrightarrow> length p = i \<Longrightarrow> n < 2 ^ 32 \<Longrightarrow> le_u32 data i = Some (word_of_nat n)"
  "data = p @ to_le_bytes 8 n @ q \<Longrightarrow> length p = i \<Longrightarrow> n < 2 ^ 64 \<Longrightarrow> le_u64 data i = Some (word_of_nat n)"
  using le_word_to_le_bytes[of 2 n, where 'a = 16] le_word_to_le_bytes[of 4 n, where 'a = 32] le_word_to_le_bytes[of 8 n, where 'a = 64]
  by (simp_all add: le_u16_def le_u32_def le_u64_def bytes_at_eq del: to_le_bytes_numeral)

lemma length_encode_attribute: "length (encode_attribute a) = image_size a"
  by (cases a) (simp_all add: Let_def)

lemma byte_at_field: "data = p @ b # q \<Longrightarrow> length p = i \<Longrightarrow> byte_at data i = Some b"
  by (simp add: byte_at_def nth_append)

lemma no_attribute_name:
  assumes "byte_at data (i + 9) = Some 0" "le_u16 data (i + 10) = Some n"
  shows "parse_attribute_name data i t = Some None"
  using assms by (simp add: parse_attribute_name_def)

text \<open>Fields of a segment inside a buffer.\<close>

lemma shift_fields:
  "byte_at (pre @ x) (length pre + k) = byte_at x k"
  "le_u16 (pre @ x) (length pre + k) = le_u16 x k"
  "le_u32 (pre @ x) (length pre + k) = le_u32 x k"
  "le_u64 (pre @ x) (length pre + k) = le_u64 x k"
  "slice (pre @ x) (length pre + k) (length pre + l) = slice x k l"
  by (simp_all add: byte_at_def le_u16_def le_u32_def le_u64_def bytes_at_eq slice_def nth_append)

lemma parse_resident_image:
  assumes "valid_image (ResidentImage ty c)" "data = pre @ encode_attribute (ResidentImage ty c) @ post"
  shows "parse_attribute data (length pre) (attribute_type_discr ty) (image_size (ResidentImage ty c)) =
    Some (image_attribute (ResidentImage ty c))"
proof -
  define ts where "ts = to_le_bytes 4 (unat (attribute_type_discr ty)) @ to_le_bytes 4 (image_size (ResidentImage ty c))"
  define cs where "cs = to_le_bytes 4 (length c)"
  define os where "os = to_le_bytes 2 24"
  define x where "x = ts @ replicate 8 0 @ cs @ os @ [0, 0] @ c @ pad8 (length c) @ post"
  have d: "data = pre @ x"
    using assms(2) by (simp add: x_def ts_def cs_def os_def del: to_le_bytes_numeral image_size.simps)
  have len: "length c < 2 ^ 32" using assms(1) by simp
  have l: "length ts = 8" "length cs = 4" "length os = 2" by (simp_all add: ts_def cs_def os_def del: to_le_bytes_numeral)
  have w: "le_word cs = (word_of_nat (length c) :: u32)" "le_word os = (24 :: u16)"
    using len by (simp_all add: cs_def os_def le_word_to_le_bytes del: to_le_bytes_numeral)
  have u: "unat (word_of_nat (length c) :: u32) = length c" using len by (rule unat_of_nat_small(3))
  have uc: "ucast (word_of_nat (length c) :: u32) = (word_of_nat (length c) :: u64)"
    using arg_cong[OF u, of "word_of_nat :: nat \<Rightarrow> u64"] unfolding of_nat_unat .
  have f: "byte_at x 8 = Some 0" "byte_at x 9 = Some 0" "\<exists>n. le_u16 x 10 = Some n" "le_u32 x 16 = Some (word_of_nat (length c))"
    "le_u16 x 20 = Some 24" "slice x 24 (24 + length c) = Some c" "24 + length c \<le> length x"
    using l w by (simp_all add: x_def byte_at_def nth_append le_u16_def le_u32_def bytes_at_eq slice_def)
  note F = f[folded shift_fields[of pre x], folded d]
  have "length pre + 24 + length c \<le> length data" using f(7) by (simp add: d)
  then show ?thesis using no_attribute_name[OF F(2)] F(1,3-6) u
    by (auto simp: parse_attribute_def parse_resident_def attribute_type_roundtrip Let_def uc add.assoc)
qed

lemma parse_runs_image:
  assumes "valid_image (RunsImage ty ds isz rs)" "data = pre @ encode_attribute (RunsImage ty ds isz rs) @ post"
  shows "parse_attribute data (length pre) (attribute_type_discr ty) (image_size (RunsImage ty ds isz rs)) =
    Some (image_attribute (RunsImage ty ds isz rs))"
proof -
  define n where "n = image_size (RunsImage ty ds isz rs)"
  define ts where "ts = to_le_bytes 4 (unat (attribute_type_discr ty)) @ to_le_bytes 4 n"
  define os where "os = to_le_bytes 2 64"
  define dss where "dss = to_le_bytes 8 (unat ds)"
  define iss where "iss = to_le_bytes 8 (unat isz)"
  define body where "body = image_body (RunsImage ty ds isz rs)"
  define x where "x = ts @ [1] @ replicate 23 0 @ os @ replicate 14 0 @ dss @ iss @ body @ post"
  have d: "data = pre @ x"
    using assms(2) by (simp add: x_def ts_def os_def dss_def iss_def body_def n_def del: to_le_bytes_numeral image_size.simps image_body.simps)
  have l: "length ts = 8" "length os = 2" "length dss = 8" "length iss = 8" "n = 64 + length body"
    by (simp_all add: ts_def os_def dss_def iss_def body_def n_def del: to_le_bytes_numeral)
  have w: "le_word os = (64 :: u16)" "le_word dss = ds" "le_word iss = isz"
    using le_word_to_le_bytes_id[of 8 ds] le_word_to_le_bytes_id[of 8 isz] le_word_to_le_bytes[of 2 64, where 'a = 16]
    by (simp_all add: os_def dss_def iss_def del: to_le_bytes_numeral)
  have f: "byte_at x 8 = Some 1" "byte_at x 9 = Some 0" "\<exists>n. le_u16 x 10 = Some n" "le_u16 x 0x20 = Some 64"
    "le_u64 x 0x30 = Some ds" "le_u64 x 0x38 = Some isz" "slice x 64 n = Some body" "n \<le> length x"
    using l w by (simp_all add: x_def byte_at_def nth_append le_u16_def le_u64_def bytes_at_eq slice_def)
  note F = f[folded shift_fields[of pre x], folded d]
  have b: "parse_run_list body = Some (map the_run rs)"
    using parse_runs_from[of rs _ "[]" "pad8 (length (concat (map encode_run rs) @ [0]))"] assms(1)
    by (simp add: body_def Let_def parse_run_list_def)
  have "length pre + 0x40 \<le> length data" using f(8) l(5) by (simp add: d)
  then show ?thesis using no_attribute_name[OF F(2)] F(1,3-7) b
    by (auto simp: parse_attribute_def parse_non_resident_def attribute_type_roundtrip Let_def simp del: image_size.simps simp flip: n_def)
qed

fun image_type :: "attribute_image \<Rightarrow> NtfsAttributeType" where
  "image_type (ResidentImage ty c) = ty"
| "image_type (RunsImage ty ds isz rs) = ty"

lemma parse_image:
  assumes "valid_image a" "data = pre @ encode_attribute a @ post"
  shows "parse_attribute data (length pre) (attribute_type_discr (image_type a)) (image_size a) = Some (image_attribute a)"
proof (cases a)
  case (ResidentImage ty c)
  then show ?thesis using parse_resident_image[of ty c data pre post] assms unfolding ResidentImage by (simp only: image_type.simps)
next
  case (RunsImage ty ds isz rs)
  then show ?thesis using parse_runs_image[of ty ds isz rs data pre post] assms unfolding RunsImage by (simp only: image_type.simps)
qed

lemma image_start:
  "\<exists>rest. encode_attribute a = to_le_bytes 4 (unat (attribute_type_discr (image_type a))) @ to_le_bytes 4 (image_size a) @ rest"
  by (cases a) (simp_all del: to_le_bytes_numeral image_size.simps)

lemma image_here:
  assumes "valid_image a" "data = pre @ encode_attribute a @ post"
  shows "attribute_here data (length pre) (word_of_nat (image_size a))" "unat (word_of_nat (image_size a) :: u32) = image_size a"
    "le_u32 data (length pre) = Some (attribute_type_discr (image_type a))"
proof -
  obtain rest where e: "encode_attribute a =
      to_le_bytes 4 (unat (attribute_type_discr (image_type a))) @ to_le_bytes 4 (image_size a) @ rest"
    using image_start by blast
  have s: "24 \<le> image_size a" "image_size a < 2 ^ 32" "image_type a \<noteq> End" using assms(1) by (cases a; simp)+
  show u: "unat (word_of_nat (image_size a) :: u32) = image_size a" using s(2) by (rule unat_of_nat_small(3))
  have d: "data = pre @ to_le_bytes 4 (unat (attribute_type_discr (image_type a))) @ to_le_bytes 4 (image_size a) @ rest @ post"
    "data = (pre @ to_le_bytes 4 (unat (attribute_type_discr (image_type a)))) @ to_le_bytes 4 (image_size a) @ rest @ post"
    unfolding assms(2) e by (simp_all only: append_assoc)
  have "unat (attribute_type_discr (image_type a)) < 2 ^ 32" using unsigned_less[of "attribute_type_discr (image_type a)"] by simp
  from le_field(2)[OF d(1) refl this] show t: "le_u32 data (length pre) = Some (attribute_type_discr (image_type a))" by simp
  have "le_u32 data (length pre + 4) = Some (word_of_nat (image_size a))" by (rule le_field(2)[OF d(2) _ s(2)]) simp
  moreover have "length data = length pre + image_size a + length post" by (simp add: assms(2) length_encode_attribute)
  moreover have "(word_of_nat (image_size a) :: u32) \<noteq> 0" using u s(1) by (metis not_numeral_le_zero unsigned_0)
  ultimately show "attribute_here data (length pre) (word_of_nat (image_size a))"
    using s t u attribute_type_not_end by (simp add: attribute_here_def)
qed

lemma parse_attribute_images:
  assumes "list_all valid_image as" "data = pre @ concat (map encode_attribute as) @ to_le_bytes 4 0xFFFFFFFF @ rest"
  shows "parse_attributes data (length pre) = Some (map image_attribute as)"
  using assms
proof (induction as arbitrary: pre)
  case Nil
  then have d: "data = pre @ to_le_bytes 4 0xFFFFFFFF @ rest" by (simp del: to_le_bytes_numeral)
  have "le_u32 data (length pre) = Some (word_of_nat 0xFFFFFFFF)" by (rule le_field(2)[OF d refl]) simp
  then have "\<nexists>t. attribute_here data (length pre) t" by (simp add: attribute_here_def)
  then show ?case by (simp add: parse_attributes_stop)
next
  case (Cons a as)
  have d: "data = pre @ encode_attribute a @ concat (map encode_attribute as) @ to_le_bytes 4 0xFFFFFFFF @ rest"
    using Cons.prems(2) by (simp del: to_le_bytes_numeral)
  have v: "valid_image a" using Cons.prems(1) by simp
  note H = image_here[OF v d]
  have "parse_attributes data (length (pre @ encode_attribute a)) = Some (map image_attribute as)"
    by (rule Cons.IH) (use Cons.prems d in \<open>simp_all del: to_le_bytes_numeral\<close>)
  then show ?case using parse_attributes_step[OF H(1)] H(2,3) parse_image[OF v d] by (auto simp: length_encode_attribute)
qed

text \<open>
  C24. File records round trip: for a record in the on-disk format, with any attributes that are resident or have a run
  list and any bytes behind the end marker, at least 1024 bytes in all, \<open>parse_mft_record\<close> returns the header fields and exactly these
  attributes, with their types, sizes, contents and runs.
\<close>
theorem mft_record_roundtrip:
  assumes "list_all valid_image as" "1024 \<le> length (encode_record seq fl used as rest)"
  shows "parse_mft_record (encode_record seq fl used as rest) =
    Some (Ok \<lparr>record_number = 0, mft_flags = fl, sequence_number = seq, attributes = map image_attribute as, bytes_in_use = used\<rparr>)"
proof -
  define d where "d = encode_record seq fl used as rest"
  define h where "h = to_le_bytes 4 (unat MFT_RECORD_SIGNATURE) @ replicate 12 0 @ to_le_bytes 2 (unat seq) @ [0, 0] @ to_le_bytes 2 0x38 @
     to_le_bytes 2 (unat fl) @ to_le_bytes 4 (unat used) @ replicate 28 0"
  have e: "d = h @ concat (map encode_attribute as) @ to_le_bytes 4 0xFFFFFFFF @ rest"
    by (simp add: d_def h_def encode_record_def del: to_le_bytes_numeral)
  have l: "length h = 0x38" by (simp add: h_def del: to_le_bytes_numeral)
  have a: "parse_attributes d 0x38 = Some (map image_attribute as)"
    using parse_attribute_images[OF assms(1) e] l by simp
  have w: "le_word (to_le_bytes 4 (unat MFT_RECORD_SIGNATURE)) = MFT_RECORD_SIGNATURE" "le_word (to_le_bytes 2 (unat seq)) = seq"
    "le_word (to_le_bytes 2 0x38) = (0x38 :: u16)" "le_word (to_le_bytes 2 (unat fl)) = fl" "le_word (to_le_bytes 4 (unat used)) = used"
    using le_word_to_le_bytes_id[of 4 MFT_RECORD_SIGNATURE] le_word_to_le_bytes_id[of 2 seq] le_word_to_le_bytes[of 2 "0x38", where 'a = 16]
      le_word_to_le_bytes_id[of 2 fl] le_word_to_le_bytes_id[of 4 used]
    by (simp_all del: to_le_bytes_numeral)
  have "le_u32 d 0 = Some MFT_RECORD_SIGNATURE" "le_u16 d 0x10 = Some seq" "le_u16 d 0x14 = Some 0x38" "le_u16 d 0x16 = Some fl"
    "le_u32 d 0x18 = Some used"
    unfolding e h_def by (simp_all add: le_u16_def le_u32_def bytes_at_eq w del: to_le_bytes_numeral)
  then show ?thesis using a assms(2) by (simp add: parse_mft_record_def MFT_RECORD_SIZE_def flip: d_def)
qed

definition demo_images :: "attribute_image list" where
  "demo_images = [ResidentImage Data [1, 2, 3], RunsImage IndexAllocation 4096 4096 demo_runs]"

theorem mft_record_roundtrip_witness:
  "\<exists>as. parse_mft_record (encode_record 7 1 600 demo_images (replicate 1024 0)) =
     Some (Ok \<lparr>record_number = 0, mft_flags = 1, sequence_number = 7, attributes = as, bytes_in_use = 600\<rparr>) \<and>
     map attr_type as = [Data, IndexAllocation]"
proof -
  have "list_all valid_image demo_images"
    by (simp add: demo_images_def demo_runs_def valid_run_def encode_run_def pad8_def Let_def take_bit_eq_mod
        signed_take_bit_eq_take_bit_minus)
  moreover have "1024 \<le> length (encode_record 7 1 600 demo_images (replicate 1024 0))" by (simp add: encode_record_def)
  ultimately show ?thesis using mft_record_roundtrip[of demo_images 7 1 600 "replicate 1024 0"] by (simp add: demo_images_def)
qed

end
