(* ===== verification/Task.thy ===== *)
theory Task
  imports Prelude
begin

text \<open>
  Tasks (\<open>src/src/sched/task.rs\<close>): the task record, its creation with an identifier and a stack, the
  initial interrupt frame on that stack, time slices and signals.

  The statics \<open>NEXT_TASK_ID\<close> and \<open>NEXT_STACK\<close> and the memory the stacks live in form the record
  \<open>task_statics\<close>. Stacks are accessed as aligned 64-bit words, so memory maps the address of such
  a word to its value.
\<close>

section \<open>States, priorities, signals\<close>

definition TASK_STACK_SIZE :: u64 where "TASK_STACK_SIZE = 64 * 1024"
definition DEFAULT_TIME_SLICE :: u64 where "DEFAULT_TIME_SLICE = 10"

datatype TaskState = Ready | Running | Blocked | Terminated | Zombie

fun task_state_as_str :: "TaskState \<Rightarrow> string" where
  "task_state_as_str Ready = ''READY''"
| "task_state_as_str Running = ''RUNNING''"
| "task_state_as_str Blocked = ''BLOCKED''"
| "task_state_as_str Terminated = ''TERM''"
| "task_state_as_str Zombie = ''ZOMBIE''"

datatype TaskPriority = Low | Normal | High | RealTime

definition task_priority_default :: TaskPriority where
  "task_priority_default = Normal"

fun task_priority_as_str :: "TaskPriority \<Rightarrow> string" where
  "task_priority_as_str Low = ''LOW''"
| "task_priority_as_str Normal = ''NORM''"
| "task_priority_as_str High = ''HIGH''"
| "task_priority_as_str RealTime = ''RT''"

text \<open>The derived order of the enumeration is that of its discriminants.\<close>

fun priority_discr :: "TaskPriority \<Rightarrow> nat" where
  "priority_discr Low = 0"
| "priority_discr Normal = 1"
| "priority_discr High = 2"
| "priority_discr RealTime = 3"

instantiation TaskPriority :: linorder
begin

definition less_eq_TaskPriority :: "TaskPriority \<Rightarrow> TaskPriority \<Rightarrow> bool" where
  "p \<le> q \<longleftrightarrow> priority_discr p \<le> priority_discr q"

definition less_TaskPriority :: "TaskPriority \<Rightarrow> TaskPriority \<Rightarrow> bool" where
  "p < q \<longleftrightarrow> priority_discr p < priority_discr q"

instance
proof
  fix x y z :: TaskPriority
  show "x < y \<longleftrightarrow> x \<le> y \<and> \<not> y \<le> x" by (auto simp: less_eq_TaskPriority_def less_TaskPriority_def)
  show "x \<le> x" by (simp add: less_eq_TaskPriority_def)
  show "x \<le> y \<Longrightarrow> y \<le> z \<Longrightarrow> x \<le> z" by (simp add: less_eq_TaskPriority_def)
  show "x \<le> y \<Longrightarrow> y \<le> x \<Longrightarrow> x = y" by (cases x; cases y) (simp_all add: less_eq_TaskPriority_def)
  show "x \<le> y \<or> y \<le> x" by (auto simp: less_eq_TaskPriority_def)
qed

end

datatype TaskType = KernelTask | UserTask

datatype TaskForeground = Foreground | Background | Stopped

record SavedRegisters =
  reg_rbx :: u64
  reg_rbp :: u64
  reg_r12 :: u64
  reg_r13 :: u64
  reg_r14 :: u64
  reg_r15 :: u64
  reg_rsp :: u64

definition saved_registers_default :: SavedRegisters where
  "saved_registers_default =
     \<lparr>reg_rbx = 0, reg_rbp = 0, reg_r12 = 0, reg_r13 = 0, reg_r14 = 0, reg_r15 = 0, reg_rsp = 0\<rparr>"

record InterruptFrame =
  if_r15 :: u64
  if_r14 :: u64
  if_r13 :: u64
  if_r12 :: u64
  if_r11 :: u64
  if_r10 :: u64
  if_r9 :: u64
  if_r8 :: u64
  if_rbp :: u64
  if_rdi :: u64
  if_rsi :: u64
  if_rdx :: u64
  if_rcx :: u64
  if_rbx :: u64
  if_rax :: u64
  if_ds :: u64
  if_vector :: u64
  if_error_code :: u64
  if_rip :: u64
  if_cs :: u64
  if_rflags :: u64
  if_rsp :: u64
  if_ss :: u64

record Task =
  tid :: u64
  tname :: string
  tstate :: TaskState
  priority :: TaskPriority
  task_type :: TaskType
  foreground :: TaskForeground
  stack_top :: u64
  kernel_stack :: u64
  entry_point :: u64
  regs :: SavedRegisters
  saved_rsp :: u64
  time_slice :: u64
  default_time_slice :: u64
  total_cpu_ticks :: u64
  start_tick :: u64
  exit_code :: int
  parent_id :: "u64 option"
  children :: "u64 list"
  task_pml4 :: u64
  pgid :: u64
  joining :: bool
  pending_signals :: u32
  blocked_signals :: u32

definition SIGHUP :: nat where "SIGHUP = 1"
definition SIGINT :: nat where "SIGINT = 2"
definition SIGKILL :: nat where "SIGKILL = 9"
definition SIGTERM :: nat where "SIGTERM = 15"
definition SIGTSTP :: nat where "SIGTSTP = 20"
definition SIGCONT :: nat where "SIGCONT = 18"

section \<open>Creation\<close>

record task_statics =
  NEXT_TASK_ID :: u64
  NEXT_STACK :: u64
  stack_mem :: "u64 \<Rightarrow> u64"

definition STACK_REGION_END :: u64 where "STACK_REGION_END = 0x2000000"

definition alloc_stack :: "u64 \<Rightarrow> 'a task_statics_scheme \<Rightarrow> u64 \<times> 'a task_statics_scheme" where
  "alloc_stack sz s =
     (if NEXT_STACK s + sz > STACK_REGION_END then (0, s)
      else let addr = NEXT_STACK s in
        (addr + sz,
         s\<lparr>NEXT_STACK := NEXT_STACK s + sz,
           stack_mem := (\<lambda>a. if addr \<le> a \<and> a < addr + sz then 0 else stack_mem s a)\<rparr>))"

text \<open>\<open>fetch_add\<close> on the identifier counter wraps.\<close>

definition fetch_task_id :: "'a task_statics_scheme \<Rightarrow> u64 \<times> 'a task_statics_scheme" where
  "fetch_task_id s = (NEXT_TASK_ID s, s\<lparr>NEXT_TASK_ID := NEXT_TASK_ID s + 1\<rparr>)"

definition new_kernel :: "u64 \<Rightarrow> string \<Rightarrow> 'a task_statics_scheme \<Rightarrow> Task \<times> 'a task_statics_scheme" where
  "new_kernel entry nm s =
     (let (i, s1) = fetch_task_id s;
          (top, s2) = alloc_stack TASK_STACK_SIZE s1
      in (\<lparr>tid = i, tname = nm, tstate = Ready, priority = Normal, task_type = KernelTask,
           foreground = Foreground, stack_top = top, kernel_stack = top, entry_point = entry,
           regs = saved_registers_default\<lparr>reg_rsp := top, reg_rbp := top\<rparr>, saved_rsp = top,
           time_slice = DEFAULT_TIME_SLICE, default_time_slice = DEFAULT_TIME_SLICE,
           total_cpu_ticks = 0, start_tick = 0, exit_code = 0, parent_id = None, children = [],
           task_pml4 = 0, pgid = i, joining = False, pending_signals = 0, blocked_signals = 0\<rparr>, s2))"

definition new_user :: "u64 \<Rightarrow> string \<Rightarrow> 'a task_statics_scheme \<Rightarrow> Task \<times> 'a task_statics_scheme" where
  "new_user entry nm s =
     (let (i, s1) = fetch_task_id s;
          (user_stack, s2) = alloc_stack TASK_STACK_SIZE s1;
          (kstack, s3) = alloc_stack TASK_STACK_SIZE s2
      in (\<lparr>tid = i, tname = nm, tstate = Ready, priority = Normal, task_type = UserTask,
           foreground = Foreground, stack_top = user_stack, kernel_stack = kstack, entry_point = entry,
           regs = saved_registers_default\<lparr>reg_rsp := user_stack, reg_rbp := user_stack\<rparr>,
           saved_rsp = user_stack,
           time_slice = DEFAULT_TIME_SLICE, default_time_slice = DEFAULT_TIME_SLICE,
           total_cpu_ticks = 0, start_tick = 0, exit_code = 0, parent_id = None, children = [],
           task_pml4 = 0, pgid = i, joining = False, pending_signals = 0, blocked_signals = 0\<rparr>, s3))"

definition new_kernel_with_priority ::
  "u64 \<Rightarrow> string \<Rightarrow> TaskPriority \<Rightarrow> 'a task_statics_scheme \<Rightarrow> Task \<times> 'a task_statics_scheme" where
  "new_kernel_with_priority entry nm p s =
     (let (task, s1) = new_kernel entry nm s in (task\<lparr>priority := p\<rparr>, s1))"

definition new_kernel_background ::
  "u64 \<Rightarrow> string \<Rightarrow> 'a task_statics_scheme \<Rightarrow> Task \<times> 'a task_statics_scheme" where
  "new_kernel_background entry nm s =
     (let (task, s1) = new_kernel entry nm s in (task\<lparr>foreground := Background\<rparr>, s1))"

section \<open>The initial stack\<close>

text \<open>One push: the stack pointer goes down by 8 and the word is written there.\<close>

fun push :: "u64 \<Rightarrow> u64 \<times> (u64 \<Rightarrow> u64) \<Rightarrow> u64 \<times> (u64 \<Rightarrow> u64)" where
  "push v (rsp, m) = (rsp - 8, m(rsp - 8 := v))"

definition initial_words :: "Task \<Rightarrow> u64 list" where
  "initial_words t =
     [0x10, stack_top t, 0x202, 0x08, entry_point t, 0, 0x20, 0x10] @ replicate 15 0"

definition setup_initial_stack :: "Task \<Rightarrow> 'a task_statics_scheme \<Rightarrow> Task \<times> 'a task_statics_scheme" where
  "setup_initial_stack t s =
     (let (rsp, m) = fold push (initial_words t) (stack_top t, stack_mem s)
      in (t\<lparr>saved_rsp := rsp, regs := (regs t)\<lparr>reg_rsp := rsp\<rparr>\<rparr>, s\<lparr>stack_mem := m\<rparr>))"

section \<open>Time slices and signals\<close>

definition priority_value :: "Task \<Rightarrow> u8" where
  "priority_value t = word_of_nat (priority_discr (priority t))"

definition set_time_slice :: "u64 \<Rightarrow> Task \<Rightarrow> Task" where
  "set_time_slice slices t = t\<lparr>time_slice := slices, default_time_slice := slices\<rparr>"

definition reset_time_slice :: "Task \<Rightarrow> Task" where
  "reset_time_slice t = t\<lparr>time_slice := default_time_slice t\<rparr>"

definition task_send_signal :: "nat \<Rightarrow> Task \<Rightarrow> Task" where
  "task_send_signal sig t =
     (if sig < 32 then t\<lparr>pending_signals := pending_signals t OR push_bit sig 1\<rparr> else t)"

definition has_signal :: "nat \<Rightarrow> Task \<Rightarrow> bool" where
  "has_signal sig t =
     (if sig < 32 then pending_signals t AND push_bit sig 1 \<noteq> 0 else False)"

definition trailing_zeros :: "u32 \<Rightarrow> nat" where
  "trailing_zeros w = length (takeWhile (\<lambda>i. \<not> bit w i) [0..<32])"

definition pop_signal :: "Task \<Rightarrow> nat option \<times> Task" where
  "pop_signal t =
     (let pending = pending_signals t AND NOT (blocked_signals t) in
      if pending = 0 then (None, t)
      else let sig = trailing_zeros pending in
        (Some sig, t\<lparr>pending_signals := pending_signals t AND NOT (push_bit sig 1)\<rparr>))"

definition is_foreground :: "Task \<Rightarrow> bool" where
  "is_foreground t \<longleftrightarrow> foreground t = Foreground"

definition is_stopped :: "Task \<Rightarrow> bool" where
  "is_stopped t \<longleftrightarrow> foreground t = Stopped"

section \<open>Signals as a set\<close>

lemma and_exp_u32: "i < 32 \<Longrightarrow> (w :: u32) AND push_bit i 1 \<noteq> 0 \<longleftrightarrow> bit w i"
proof -
  assume i: "i < 32"
  have b: "bit (push_bit i 1 :: u32) k \<longleftrightarrow> k = i" for k using i by (auto simp: bit_exp_iff)
  have eq: "w AND push_bit i 1 = (if bit w i then push_bit i 1 else 0)"
    by (rule bit_word_eqI) (use b in \<open>auto simp: bit_and_iff simp del: push_bit_of_1\<close>)
  have "push_bit i 1 \<noteq> (0 :: u32)" using b[of i] bit_0_eq by (metis bot_apply bot_bool_def)
  then show ?thesis unfolding eq by simp
qed

lemma has_signal_bit: "has_signal i t \<longleftrightarrow> i < 32 \<and> bit (pending_signals t) i"
  unfolding has_signal_def using and_exp_u32[of i "pending_signals t"] by auto

lemma has_signal_send: "i < 32 \<Longrightarrow> has_signal j (task_send_signal i t) \<longleftrightarrow> j = i \<or> has_signal j t"
  by (auto simp: has_signal_bit task_send_signal_def bit_or_iff bit_exp_iff)

definition clear_signal :: "nat \<Rightarrow> Task \<Rightarrow> Task" where
  "clear_signal i t = t\<lparr>pending_signals := pending_signals t AND NOT (push_bit i 1)\<rparr>"

lemma has_signal_clear: "i < 32 \<Longrightarrow> has_signal j (clear_signal i t) \<longleftrightarrow> j \<noteq> i \<and> has_signal j t"
  by (auto simp: has_signal_bit clear_signal_def bit_and_iff bit_not_iff bit_exp_iff)

interpretation signals: bitset "\<lambda>t i. has_signal i t" "\<lambda>t i. task_send_signal i t" "\<lambda>t i. clear_signal i t" "\<lambda>i. i < 32"
  by unfold_locales (simp_all add: has_signal_send has_signal_clear)

lemma trailing_zeros_props:
  assumes "w \<noteq> 0"
  shows "trailing_zeros w < 32" "bit w (trailing_zeros w)" "j < trailing_zeros w \<Longrightarrow> \<not> bit w j"
proof -
  let ?P = "\<lambda>i. \<not> bit w i"
  let ?k = "length (takeWhile ?P [0..<32])"
  have "\<exists>i < 32. bit w i"
  proof (rule ccontr)
    assume "\<not> ?thesis"
    then have "w = 0" by (intro bit_word_eqI) auto
    with assms show False by simp
  qed
  then have "\<exists>x \<in> set [0..<32]. \<not> ?P x" by auto
  then have lt: "?k < length [0..<32]"
    by (metis length_takeWhile_le le_neq_implies_less takeWhile_eq_all_conv takeWhile_eq_take take_all order_refl)
  then show k: "trailing_zeros w < 32" by (simp add: trailing_zeros_def)
  have "\<not> ?P ([0..<32] ! ?k)" using lt by (rule nth_length_takeWhile)
  then show "bit w (trailing_zeros w)" using k by (simp add: trailing_zeros_def)
  show "\<not> bit w j" if "j < trailing_zeros w"
  proof -
    have j: "j < ?k" using that by (simp add: trailing_zeros_def)
    have "takeWhile ?P [0..<32] ! j = j" using takeWhile_nth[OF j] j k by (simp add: trailing_zeros_def)
    then have "j \<in> set (takeWhile ?P [0..<32])" using nth_mem[OF j] by simp
    then show ?thesis by (auto dest: set_takeWhileD)
  qed
qed

text \<open>The signals that \<open>pop_signal\<close> may deliver.\<close>

definition deliverable :: "Task \<Rightarrow> nat set" where
  "deliverable t = {i. has_signal i t \<and> \<not> bit (blocked_signals t) i}"

lemma finite_deliverable: "finite (deliverable t)"
  by (rule finite_subset[of _ "{..<32}"]) (auto simp: deliverable_def has_signal_bit)

lemma deliverable_bit: "i \<in> deliverable t \<longleftrightarrow> i < 32 \<and> bit (pending_signals t AND NOT (blocked_signals t)) i"
  by (auto simp: deliverable_def has_signal_bit bit_and_iff bit_not_iff)

lemma deliverable_empty: "deliverable t = {} \<longleftrightarrow> pending_signals t AND NOT (blocked_signals t) = 0"
proof
  assume e: "deliverable t = {}"
  show "pending_signals t AND NOT (blocked_signals t) = 0"
  proof (rule bit_word_eqI)
    fix n :: nat assume "n < LENGTH(32)"
    then have "\<not> bit (pending_signals t AND NOT (blocked_signals t)) n"
      using e deliverable_bit[of n t] by simp
    then show "bit (pending_signals t AND NOT (blocked_signals t)) n = bit 0 n" by (simp only: bit_0_eq bot_apply bot_bool_def)
  qed
next
  assume z: "pending_signals t AND NOT (blocked_signals t) = 0"
  show "deliverable t = {}" unfolding set_eq_iff deliverable_bit z by simp
qed

lemma pop_signal_None: "deliverable t = {} \<Longrightarrow> pop_signal t = (None, t)"
  unfolding deliverable_empty by (simp add: pop_signal_def)

lemma pop_signal_Some:
  assumes "deliverable t \<noteq> {}"
  shows "pop_signal t = (Some (Min (deliverable t)), clear_signal (Min (deliverable t)) t)"
proof -
  define w where "w = pending_signals t AND NOT (blocked_signals t)"
  have w: "w \<noteq> 0" using assms unfolding deliverable_empty w_def .
  note z = trailing_zeros_props[OF w]
  have d: "i \<in> deliverable t \<longleftrightarrow> i < 32 \<and> bit w i" for i unfolding w_def by (rule deliverable_bit)
  have m: "Min (deliverable t) = trailing_zeros w"
  proof (rule Min_eqI[OF finite_deliverable])
    show "trailing_zeros w \<in> deliverable t" using z(1,2) d by blast
    fix y assume "y \<in> deliverable t"
    then show "trailing_zeros w \<le> y" using z(3)[of y] d by (meson not_le)
  qed
  show ?thesis using w unfolding pop_signal_def clear_signal_def m w_def[symmetric] by (simp add: Let_def)
qed

lemma deliverable_clear: "i < 32 \<Longrightarrow> deliverable (clear_signal i t) = deliverable t - {i}"
  unfolding deliverable_def by (auto simp: has_signal_clear) (simp_all add: clear_signal_def)

text \<open>Repeated delivery, with a bound on the number of rounds.\<close>

fun pop_signals :: "nat \<Rightarrow> Task \<Rightarrow> nat list \<times> Task" where
  "pop_signals 0 t = ([], t)"
| "pop_signals (Suc n) t =
     (case pop_signal t of
        (None, t') \<Rightarrow> ([], t')
      | (Some sig, t') \<Rightarrow> (let (sigs, t'') = pop_signals n t' in (sig # sigs, t'')))"

lemma Min_deliverable_less: "deliverable t \<noteq> {} \<Longrightarrow> Min (deliverable t) < 32"
  using Min_in[OF finite_deliverable, of t] by (simp add: deliverable_bit)

lemma pop_signals_all:
  assumes "card (deliverable t) \<le> n"
  shows "\<exists>t'. pop_signals n t = (sorted_list_of_set (deliverable t), t') \<and> deliverable t' = {}"
  using assms
proof (induction n arbitrary: t)
  case 0
  then have "deliverable t = {}" using finite_deliverable[of t] by simp
  then show ?case by simp
next
  case (Suc n)
  show ?case
  proof (cases "deliverable t = {}")
    case True
    then show ?thesis by (simp add: pop_signal_None)
  next
    case False
    let ?i = "Min (deliverable t)"
    have d: "deliverable (clear_signal ?i t) = deliverable t - {?i}"
      using Min_deliverable_less[OF False] by (rule deliverable_clear)
    have "card (deliverable (clear_signal ?i t)) \<le> n"
      unfolding d using Suc.prems Min_in[OF finite_deliverable False] finite_deliverable[of t]
      by (simp add: card_Diff_singleton)
    from Suc.IH[OF this] obtain t' where t': "pop_signals n (clear_signal ?i t) =
        (sorted_list_of_set (deliverable t - {?i}), t')" "deliverable t' = {}" unfolding d by blast
    then show ?thesis
      using sorted_list_of_set_nonempty[OF finite_deliverable False] by (simp add: pop_signal_Some[OF False])
  qed
qed

section \<open>Words on a stack\<close>

lemma word_offset_inj:
  assumes "8 * (a::nat) < 2 ^ 64" "8 * b < 2 ^ 64"
  shows "(rsp :: u64) - 8 * word_of_nat a = rsp - 8 * word_of_nat b \<longleftrightarrow> a = b"
proof
  assume "rsp - 8 * word_of_nat a = rsp - 8 * word_of_nat b"
  then have "(word_of_nat (8 * a) :: u64) = word_of_nat (8 * b)" by simp
  then have "8 * a = 8 * b" using assms by (simp only: of_nat_inj_u64)
  then show "a = b" by simp
qed simp

text \<open>What a sequence of pushes leaves in memory.\<close>

lemma push_all:
  assumes "8 * length ws < 2 ^ 64"
  shows "fst (fold push ws (rsp, m)) = rsp - 8 * word_of_nat (length ws)"
    "\<And>k. k < length ws \<Longrightarrow> snd (fold push ws (rsp, m)) (rsp - 8 * word_of_nat (Suc k)) = ws ! k"
    "\<And>a. (\<And>k. k < length ws \<Longrightarrow> a \<noteq> rsp - 8 * word_of_nat (Suc k)) \<Longrightarrow> snd (fold push ws (rsp, m)) a = m a"
proof -
  have "fst (fold push ws (rsp, m)) = rsp - 8 * word_of_nat (length ws) \<and>
    (\<forall>k < length ws. snd (fold push ws (rsp, m)) (rsp - 8 * word_of_nat (Suc k)) = ws ! k) \<and>
    (\<forall>a. (\<forall>k < length ws. a \<noteq> rsp - 8 * word_of_nat (Suc k)) \<longrightarrow> snd (fold push ws (rsp, m)) a = m a)"
    using assms
  proof (induction ws rule: rev_induct)
    case (snoc w ws)
    obtain r' m' where st: "fold push ws (rsp, m) = (r', m')" by fastforce
    have IH: "r' = rsp - 8 * word_of_nat (length ws)"
      "\<forall>k < length ws. m' (rsp - 8 * word_of_nat (Suc k)) = ws ! k"
      "\<forall>a. (\<forall>k < length ws. a \<noteq> rsp - 8 * word_of_nat (Suc k)) \<longrightarrow> m' a = m a"
      using snoc st by auto
    have r: "r' - 8 = rsp - 8 * word_of_nat (Suc (length ws))" using IH(1) by (simp add: algebra_simps)
    have ne: "rsp - 8 * word_of_nat (Suc k) \<noteq> r' - 8" if "k < length ws" for k
      unfolding r using word_offset_inj[of "Suc k" "Suc (length ws)" rsp] that snoc.prems by simp
    show ?case using st IH r ne by (auto simp: nth_append less_Suc_eq)
  qed simp
  then show "fst (fold push ws (rsp, m)) = rsp - 8 * word_of_nat (length ws)"
    "\<And>k. k < length ws \<Longrightarrow> snd (fold push ws (rsp, m)) (rsp - 8 * word_of_nat (Suc k)) = ws ! k"
    "\<And>a. (\<And>k. k < length ws \<Longrightarrow> a \<noteq> rsp - 8 * word_of_nat (Suc k)) \<Longrightarrow> snd (fold push ws (rsp, m)) a = m a"
    by blast+
qed

text \<open>The words from a stack pointer upwards, as a sequence of pops reads them.\<close>

definition stack_words :: "nat \<Rightarrow> u64 \<Rightarrow> (u64 \<Rightarrow> u64) \<Rightarrow> u64 list" where
  "stack_words n rsp m = map (\<lambda>k. m (rsp + 8 * word_of_nat k)) [0..<n]"

lemma stack_words_push:
  assumes "8 * length ws < 2 ^ 64" "fold push ws (rsp, m) = (rsp', m')"
  shows "stack_words (length ws) rsp' m' = rev ws"
proof (rule nth_equalityI)
  fix k assume "k < length (stack_words (length ws) rsp' m')"
  then have k: "k < length ws" by (simp add: stack_words_def)
  let ?j = "length ws - Suc k"
  have e: "(word_of_nat (length ws) :: u64) = word_of_nat k + word_of_nat (Suc ?j)"
  proof -
    have "length ws = k + Suc ?j" using k by simp
    then show ?thesis by (metis of_nat_add)
  qed
  have "rsp' + 8 * word_of_nat k = rsp - 8 * word_of_nat (Suc ?j)"
    using push_all(1)[OF assms(1), of rsp m] assms(2) unfolding e by (simp add: algebra_simps)
  moreover have "m' (rsp - 8 * word_of_nat (Suc ?j)) = ws ! ?j"
    using push_all(2)[OF assms(1), of ?j rsp m] assms(2) k by simp
  ultimately have "m' (rsp' + 8 * word_of_nat k) = ws ! ?j" by (simp only:)
  then show "stack_words (length ws) rsp' m' ! k = rev ws ! k"
    using k by (simp add: stack_words_def rev_nth)
qed (simp add: stack_words_def)

section \<open>The pool of stacks\<close>

text \<open>A stack is named by its top; the pool holds the tops that \<open>alloc_stack\<close> can still return.\<close>

definition stack_pool :: "'a task_statics_scheme \<Rightarrow> u64 set" where
  "stack_pool s = {t. \<exists>k. unat t = unat (NEXT_STACK s) + Suc k * 65536 \<and> unat t \<le> unat STACK_REGION_END}"

definition stack_inv :: "'a task_statics_scheme \<Rightarrow> bool" where
  "stack_inv s \<longleftrightarrow> NEXT_STACK s \<le> STACK_REGION_END"

text \<open>The failure of \<open>alloc_stack\<close>, a top of 0, as an error value.\<close>

definition try_alloc_stack :: "'a task_statics_scheme \<Rightarrow> (KernelError + u64) \<times> 'a task_statics_scheme" where
  "try_alloc_stack s =
     (let (top, s') = alloc_stack TASK_STACK_SIZE s in (if top = 0 then Inl OutOfMemory else Inr top, s'))"

lemma stack_consts: "unat TASK_STACK_SIZE = 65536" "unat STACK_REGION_END = 33554432"
  by (simp_all add: TASK_STACK_SIZE_def STACK_REGION_END_def)

lemma NEXT_STACK_nat:
  assumes "stack_inv s"
  shows "unat (NEXT_STACK s + TASK_STACK_SIZE) = unat (NEXT_STACK s) + 65536"
proof -
  have "unat (NEXT_STACK s) \<le> 33554432" using assms by (simp add: stack_inv_def word_le_nat_alt stack_consts)
  then show ?thesis using unat_add_lem[of "NEXT_STACK s" TASK_STACK_SIZE] by (simp add: stack_consts)
qed

lemma try_alloc_stack_Inr:
  assumes "stack_inv s" "try_alloc_stack s = (Inr t, s')"
  shows "t \<in> stack_pool s" "stack_pool s' = stack_pool s - {t}" "stack_inv s'"
    "unat t = unat (NEXT_STACK s) + 65536" "NEXT_STACK s' = t"
proof -
  note n = NEXT_STACK_nat[OF assms(1)]
  have le: "unat (NEXT_STACK s) + 65536 \<le> unat STACK_REGION_END" and t: "t = NEXT_STACK s + TASK_STACK_SIZE"
    and s': "NEXT_STACK s' = t"
    using assms(2) n
    by (auto simp: try_alloc_stack_def alloc_stack_def Let_def word_less_nat_alt split: if_splits)
  show "NEXT_STACK s' = t" by (rule s')
  show u: "unat t = unat (NEXT_STACK s) + 65536" using t n by simp
  show "t \<in> stack_pool s" unfolding stack_pool_def using u le by (auto intro!: exI[of _ 0])
  show "stack_inv s'" unfolding stack_inv_def s' word_le_nat_alt u using le .
  show "stack_pool s' = stack_pool s - {t}"
  proof (rule set_eqI)
    fix x
    have "(\<exists>k. unat x = unat t + Suc k * 65536) \<longleftrightarrow>
        (\<exists>k. unat x = unat (NEXT_STACK s) + Suc k * 65536) \<and> x \<noteq> t" (is "?L \<longleftrightarrow> ?R \<and> _")
    proof
      assume ?L
      then obtain k where "unat x = unat t + Suc k * 65536" by blast
      then show "?R \<and> x \<noteq> t" using u by (auto intro!: exI[of _ "Suc k"])
    next
      assume R: "?R \<and> x \<noteq> t"
      then obtain k where k: "unat x = unat (NEXT_STACK s) + Suc k * 65536" by blast
      have "k \<noteq> 0"
      proof
        assume "k = 0"
        then have "unat x = unat t" using k u by simp
        then show False using R by (simp add: word_unat_eq_iff)
      qed
      then obtain j where "k = Suc j" by (cases k) auto
      then show ?L using k u by (auto intro!: exI[of _ j])
    qed
    then show "x \<in> stack_pool s' \<longleftrightarrow> x \<in> stack_pool s - {t}" by (auto simp: stack_pool_def s')
  qed
qed

lemma try_alloc_stack_Inl:
  assumes "stack_inv s" "try_alloc_stack s = (Inl e, s')"
  shows "stack_pool s = {}" "s' = s"
proof -
  note n = NEXT_STACK_nat[OF assms(1)]
  have nz: "NEXT_STACK s + TASK_STACK_SIZE \<noteq> 0" using n by (auto simp: word_unat_eq_iff)
  then have gt: "STACK_REGION_END < NEXT_STACK s + TASK_STACK_SIZE"
    using assms(2) by (auto simp: try_alloc_stack_def alloc_stack_def Let_def split: if_splits)
  then show "s' = s" using assms(2) by (auto simp: try_alloc_stack_def alloc_stack_def)
  show "stack_pool s = {}" using gt n by (auto simp: stack_pool_def word_less_nat_alt)
qed

interpretation stacks: frame_source try_alloc_stack stack_pool stack_inv
proof unfold_locales
  fix s :: "'a task_statics_scheme" and t s' assume "stack_inv s" "try_alloc_stack s = (Inr t, s')"
  then show "t \<in> stack_pool s \<and> stack_pool s' = stack_pool s - {t} \<and> stack_inv s'"
    using try_alloc_stack_Inr by blast
next
  fix s :: "'a task_statics_scheme" and e s' assume "stack_inv s" "try_alloc_stack s = (Inl e, s')"
  then show "stack_pool s = {} \<and> s' = s" using try_alloc_stack_Inl by blast
next
  fix s :: "'a task_statics_scheme" show "finite (stack_pool s)" by simp
qed

lemma stack_pool_apart:
  assumes "t \<in> stack_pool s" "u \<in> stack_pool s" "t \<noteq> u"
  shows "unat t + 65536 \<le> unat u \<or> unat u + 65536 \<le> unat t"
proof -
  obtain k l where "unat t = unat (NEXT_STACK s) + Suc k * 65536" "unat u = unat (NEXT_STACK s) + Suc l * 65536"
    using assms(1,2) by (auto simp: stack_pool_def)
  moreover have "unat t \<noteq> unat u" using assms(3) by (simp add: word_unat_eq_iff)
  ultimately show ?thesis by (cases k l rule: linorder_cases) auto
qed

section \<open>Properties\<close>

text \<open>
  C40. Signal delivery terminates and is ordered: 32 rounds of \<open>pop_signal\<close> deliver every pending
  signal that is not blocked exactly once, in increasing order, and leave none.
\<close>
theorem pop_signals_sorted:
  "\<exists>t'. pop_signals 32 t = (sorted_list_of_set (deliverable t), t') \<and> deliverable t' = {}"
proof (rule pop_signals_all)
  have "deliverable t \<subseteq> {..<32}" by (auto simp: deliverable_bit)
  then show "card (deliverable t) \<le> 32" using card_mono[of "{..<32}" "deliverable t"] by simp
qed

text \<open>
  Stacks never overlap: any number of successive stack allocations gives tops that are pairwise at least 64 KiB
  apart, each stack inside the stack region, until the region is used up.
\<close>
theorem alloc_stack_disjoint:
  assumes "stack_inv s" "alloc_many try_alloc_stack n s = (tops, s')"
  shows "distinct tops \<and> length tops = min n (card (stack_pool s)) \<and>
    (\<forall>t \<in> set tops. unat (NEXT_STACK s) + 65536 \<le> unat t \<and> unat t \<le> unat STACK_REGION_END) \<and>
    (\<forall>t \<in> set tops. \<forall>u \<in> set tops. t \<noteq> u \<longrightarrow> unat t + 65536 \<le> unat u \<or> unat u + 65536 \<le> unat t)"
proof -
  have A: "distinct tops" "set tops \<subseteq> stack_pool s" "length tops = min n (card (stack_pool s))"
    using stacks.alloc_many_spec[OF assms] by auto
  have "unat (NEXT_STACK s) + 65536 \<le> unat t \<and> unat t \<le> unat STACK_REGION_END" if "t \<in> stack_pool s" for t
    using that by (auto simp: stack_pool_def)
  then show ?thesis using A stack_pool_apart[of _ s] by (meson subsetD)
qed

definition demo_statics :: task_statics where
  "demo_statics = \<lparr>NEXT_TASK_ID = 1, NEXT_STACK = 0xA00000, stack_mem = (\<lambda>_. 0)\<rparr>"

theorem alloc_stack_disjoint_witness:
  "\<exists>tops s'. alloc_many try_alloc_stack 2 demo_statics = (tops, s') \<and> distinct tops"
proof -
  have "stack_inv demo_statics" by (simp add: stack_inv_def demo_statics_def STACK_REGION_END_def)
  moreover obtain tops s' where "alloc_many try_alloc_stack 2 demo_statics = (tops, s')" by (rule prod.exhaust)
  ultimately show ?thesis using alloc_stack_disjoint by blast
qed

definition interrupt_frame_at :: "u64 \<Rightarrow> (u64 \<Rightarrow> u64) \<Rightarrow> InterruptFrame" where
  "interrupt_frame_at a m =
     (let w = stack_words 23 a m in
      \<lparr>if_r15 = w ! 0, if_r14 = w ! 1, if_r13 = w ! 2, if_r12 = w ! 3, if_r11 = w ! 4, if_r10 = w ! 5,
       if_r9 = w ! 6, if_r8 = w ! 7, if_rbp = w ! 8, if_rdi = w ! 9, if_rsi = w ! 10, if_rdx = w ! 11,
       if_rcx = w ! 12, if_rbx = w ! 13, if_rax = w ! 14, if_ds = w ! 15, if_vector = w ! 16,
       if_error_code = w ! 17, if_rip = w ! 18, if_cs = w ! 19, if_rflags = w ! 20, if_rsp = w ! 21,
       if_ss = w ! 22\<rparr>)"

lemma setup_initial_stack_words:
  assumes "setup_initial_stack t s = (t', s')"
  shows "saved_rsp t' = stack_top t - 184" "reg_rsp (regs t') = stack_top t - 184"
    "stack_words 23 (saved_rsp t') (stack_mem s') =
       replicate 15 0 @ [0x10, 0x20, 0, entry_point t, 0x08, 0x202, stack_top t, 0x10]"
    "\<And>a. (\<And>k. k < 23 \<Longrightarrow> a \<noteq> stack_top t - 8 * word_of_nat (Suc k)) \<Longrightarrow> stack_mem s' a = stack_mem s a"
proof -
  have len: "length (initial_words t) = 23" by (simp add: initial_words_def)
  then have small: "8 * length (initial_words t) < 2 ^ 64" by simp
  obtain rsp m where st: "fold push (initial_words t) (stack_top t, stack_mem s) = (rsp, m)" by fastforce
  have r: "t' = t\<lparr>saved_rsp := rsp, regs := (regs t)\<lparr>reg_rsp := rsp\<rparr>\<rparr>" "stack_mem s' = m"
    using assms st by (auto simp: setup_initial_stack_def)
  have "rsp = stack_top t - 184"
    using push_all(1)[OF small, of "stack_top t" "stack_mem s"] st len by simp
  then show "saved_rsp t' = stack_top t - 184" "reg_rsp (regs t') = stack_top t - 184" using r by simp_all
  have "saved_rsp t' = rsp" using r by simp
  then show "stack_words 23 (saved_rsp t') (stack_mem s') =
       replicate 15 0 @ [0x10, 0x20, 0, entry_point t, 0x08, 0x202, stack_top t, 0x10]"
    using stack_words_push[OF small st] len r(2) by (simp add: initial_words_def)
  show "stack_mem s' a = stack_mem s a" if "\<And>k. k < 23 \<Longrightarrow> a \<noteq> stack_top t - 8 * word_of_nat (Suc k)" for a
    using push_all(3)[OF small, of a "stack_top t" "stack_mem s"] st that len r(2) by simp
qed

text \<open>
  \<open>setup_initial_stack\<close> builds the interrupt frame of the type \<open>InterruptFrame\<close>: at the saved
  stack pointer lies a frame that enters the task at its entry point with the kernel segments,
  interrupts enabled and the stack empty; memory outside the 184 bytes below the top is untouched.
\<close>
theorem setup_initial_stack_frame:
  assumes "setup_initial_stack t s = (t', s')"
  shows "saved_rsp t' = stack_top t - 184 \<and> reg_rsp (regs t') = stack_top t - 184 \<and>
    interrupt_frame_at (saved_rsp t') (stack_mem s') =
      \<lparr>if_r15 = 0, if_r14 = 0, if_r13 = 0, if_r12 = 0, if_r11 = 0, if_r10 = 0, if_r9 = 0, if_r8 = 0,
       if_rbp = 0, if_rdi = 0, if_rsi = 0, if_rdx = 0, if_rcx = 0, if_rbx = 0, if_rax = 0,
       if_ds = 0x10, if_vector = 0x20, if_error_code = 0, if_rip = entry_point t, if_cs = 0x08,
       if_rflags = 0x202, if_rsp = stack_top t, if_ss = 0x10\<rparr> \<and>
    (\<forall>a. (\<forall>k < 23. a \<noteq> stack_top t - 8 * word_of_nat (Suc k)) \<longrightarrow> stack_mem s' a = stack_mem s a)"
proof -
  note W = setup_initial_stack_words[OF assms]
  have "interrupt_frame_at (saved_rsp t') (stack_mem s') =
      \<lparr>if_r15 = 0, if_r14 = 0, if_r13 = 0, if_r12 = 0, if_r11 = 0, if_r10 = 0, if_r9 = 0, if_r8 = 0,
       if_rbp = 0, if_rdi = 0, if_rsi = 0, if_rdx = 0, if_rcx = 0, if_rbx = 0, if_rax = 0,
       if_ds = 0x10, if_vector = 0x20, if_error_code = 0, if_rip = entry_point t, if_cs = 0x08,
       if_rflags = 0x202, if_rsp = stack_top t, if_ss = 0x10\<rparr>"
    unfolding interrupt_frame_at_def W(3) by (simp add: nth_append Let_def numeral_eq_Suc)
  then show ?thesis using W(1,2,4) by blast
qed

theorem setup_initial_stack_frame_witness:
  "\<exists>t s t' s'. new_kernel 0x101000 ''init'' demo_statics = (t, s) \<and> setup_initial_stack t s = (t', s') \<and>
     if_rip (interrupt_frame_at (saved_rsp t') (stack_mem s')) = entry_point t"
proof -
  obtain t s where "new_kernel 0x101000 ''init'' demo_statics = (t, s)" by (rule prod.exhaust)
  moreover obtain t' s' where "setup_initial_stack t s = (t', s')" by (rule prod.exhaust)
  ultimately show ?thesis using setup_initial_stack_frame by fastforce
qed

end
