(* ===== verification/Scheduler.thy ===== *)
theory Scheduler
  imports Task "HOL-Library.Multiset"
begin

text \<open>
  The scheduler (\<open>src/src/sched/scheduler.rs\<close>). A task is shared by the ready queue, the list of all
  tasks and the field \<open>current\<close> through \<open>Arc<Mutex<Task>>\<close>; the model has a store of tasks indexed
  by references, so that a change through one holder is seen by the others. No operation holds
  the lock of a task while it takes the same lock again, so locks are not modelled.
\<close>

section \<open>State\<close>

type_synonym arc = nat

record Scheduler = task_statics +
  ready_queue :: "arc list"
  current :: "arc option"
  all_tasks :: "arc list"
  task_count :: u64
  tick_count :: u64
  need_reschedule :: bool
  preempt_enabled :: bool
  scheduler_ticks :: u64
  context_switches :: u64
  store :: "arc \<Rightarrow> Task"
  next_arc :: nat
  timer_tick_count :: u64

definition scheduler_new :: "task_statics \<Rightarrow> (arc \<Rightarrow> Task) \<Rightarrow> u64 \<Rightarrow> Scheduler" where
  "scheduler_new st tasks0 ticks =
     \<lparr>NEXT_TASK_ID = NEXT_TASK_ID st, NEXT_STACK = NEXT_STACK st, stack_mem = stack_mem st,
      ready_queue = [], current = None, all_tasks = [], task_count = 0, tick_count = 0,
      need_reschedule = False, preempt_enabled = False, scheduler_ticks = 0, context_switches = 0,
      store = tasks0, next_arc = 0, timer_tick_count = ticks\<rparr>"

text \<open>Access through a reference, and a new reference.\<close>

definition upd_task :: "arc \<Rightarrow> (Task \<Rightarrow> Task) \<Rightarrow> Scheduler \<Rightarrow> Scheduler" where
  "upd_task r f s = s\<lparr>store := (store s)(r := f (store s r))\<rparr>"

definition arc_new :: "Task \<Rightarrow> Scheduler \<Rightarrow> arc \<times> Scheduler" where
  "arc_new t s = (next_arc s, s\<lparr>store := (store s)(next_arc s := t), next_arc := Suc (next_arc s)\<rparr>)"

section \<open>Creation of tasks\<close>

text \<open>The common tail of the four constructors.\<close>

definition enqueue_new_task :: "Task \<Rightarrow> Scheduler \<Rightarrow> u64 \<times> Scheduler" where
  "enqueue_new_task task s =
     (let (task1, s1) = setup_initial_stack task s;
          task2 = task1\<lparr>start_tick := timer_tick_count s1\<rparr>;
          (r, s2) = arc_new task2 s1
      in (tid task2,
          s2\<lparr>ready_queue := ready_queue s2 @ [r], all_tasks := all_tasks s2 @ [r],
             task_count := task_count s2 + 1\<rparr>))"

definition create_kernel_task :: "u64 \<Rightarrow> string \<Rightarrow> Scheduler \<Rightarrow> u64 \<times> Scheduler" where
  "create_kernel_task entry nm s = (let (task, s1) = new_kernel entry nm s in enqueue_new_task task s1)"

definition create_kernel_task_with_priority ::
  "u64 \<Rightarrow> string \<Rightarrow> TaskPriority \<Rightarrow> Scheduler \<Rightarrow> u64 \<times> Scheduler" where
  "create_kernel_task_with_priority entry nm p s =
     (let (task, s1) = new_kernel_with_priority entry nm p s in enqueue_new_task task s1)"

definition create_background_task :: "u64 \<Rightarrow> string \<Rightarrow> Scheduler \<Rightarrow> u64 \<times> Scheduler" where
  "create_background_task entry nm s =
     (let (task, s1) = new_kernel_background entry nm s in enqueue_new_task task s1)"

definition create_user_task :: "u64 \<Rightarrow> string \<Rightarrow> Scheduler \<Rightarrow> u64 \<times> Scheduler" where
  "create_user_task entry nm s = (let (task, s1) = new_user entry nm s in enqueue_new_task task s1)"

text \<open>The address of the function \<open>idle_task\<close> is an argument.\<close>

definition create_idle_task :: "u64 \<Rightarrow> Scheduler \<Rightarrow> u64 \<times> Scheduler" where
  "create_idle_task idle_entry s = create_kernel_task_with_priority idle_entry ''idle'' Low s"

section \<open>Choosing the next task\<close>

fun best_index :: "(arc \<Rightarrow> Task) \<Rightarrow> (nat \<times> arc) list \<Rightarrow> nat \<Rightarrow> TaskPriority \<Rightarrow> nat" where
  "best_index st [] best_idx best_priority = best_idx"
| "best_index st ((idx, r) # rs) best_idx best_priority =
     (if tstate (st r) = Ready \<and> priority (st r) > best_priority
      then best_index st rs idx (priority (st r))
      else best_index st rs best_idx best_priority)"

definition remove_at :: "nat \<Rightarrow> 'a list \<Rightarrow> 'a list" where
  "remove_at i xs = take i xs @ drop (Suc i) xs"

definition pick_next_task :: "Scheduler \<Rightarrow> arc option \<times> Scheduler" where
  "pick_next_task s =
     (if ready_queue s = [] then (None, s)
      else let best_idx = best_index (store s) (enumerate 0 (ready_queue s)) 0 Low in
        if tstate (store s (ready_queue s ! best_idx)) \<noteq> Ready then (None, s)
        else (Some (ready_queue s ! best_idx), s\<lparr>ready_queue := remove_at best_idx (ready_queue s)\<rparr>))"

text \<open>
  \<open>schedule\<close> up to the call of \<open>context_switch\<close>: the state, and the register areas of the switch
  (the current task or the dummy area, and the next task), if there is one. The statement after
  \<open>do_context_switch\<close> runs when the task that left is resumed; it is \<open>schedule_resumed\<close>.
\<close>

definition requeue_current :: "Scheduler \<Rightarrow> Scheduler" where
  "requeue_current s =
     (let s1 = s\<lparr>need_reschedule := False, current := None\<rparr> in
      case current s of
        None \<Rightarrow> s1
      | Some r \<Rightarrow>
          if tstate (store s1 r) = Running
          then let s' = upd_task r (\<lambda>t. reset_time_slice (t\<lparr>tstate := Ready\<rparr>)) s1
               in s'\<lparr>ready_queue := ready_queue s' @ [r]\<rparr>
          else s1)"

definition schedule :: "Scheduler \<Rightarrow> Scheduler \<times> (arc option \<times> arc) option" where
  "schedule s =
     (let current_arc = current s in
      case pick_next_task (requeue_current s) of
        (Some r, s3) \<Rightarrow>
          let s4 = upd_task r (\<lambda>t. t\<lparr>tstate := Running\<rparr>) s3;
              should_switch = (case current_arc of Some c \<Rightarrow> c \<noteq> r | None \<Rightarrow> True);
              s5 = s4\<lparr>current := Some r\<rparr>
          in (s5, if should_switch then Some (current_arc, r) else None)
      | (None, s3) \<Rightarrow> (s3\<lparr>current := current_arc\<rparr>, None))"

definition schedule_resumed :: "Scheduler \<Rightarrow> Scheduler" where
  "schedule_resumed s = s\<lparr>context_switches := context_switches s + 1\<rparr>"

section \<open>The timer tick\<close>

text \<open>Delivery of a signal to the current task; the flag tells that \<open>tick\<close> returns at once.\<close>

definition tick_signal :: "Task \<Rightarrow> Task \<times> bool" where
  "tick_signal t =
     (if pending_signals t \<noteq> 0
      then case pop_signal t of
             (Some sig, t1) \<Rightarrow>
               if sig = SIGKILL then (t1\<lparr>tstate := Terminated, exit_code := - 9\<rparr>, True)
               else if sig = SIGTSTP then (t1\<lparr>foreground := Stopped, tstate := Blocked\<rparr>, True)
               else if sig = SIGCONT
               then (if foreground t1 = Stopped then t1\<lparr>foreground := Background, tstate := Running\<rparr> else t1, False)
               else (t1, False)
           | (None, t1) \<Rightarrow> (t1, False)
      else (t, False))"

definition tick :: "Scheduler \<Rightarrow> Scheduler \<times> (arc option \<times> arc) option" where
  "tick s =
     (let s1 = s\<lparr>tick_count := tick_count s + 1, scheduler_ticks := scheduler_ticks s + 1\<rparr> in
      if \<not> preempt_enabled s1 then (s1, None)
      else case current s1 of
             None \<Rightarrow> if need_reschedule s1 then schedule s1 else (s1, None)
           | Some r \<Rightarrow>
               let (t1, returned) = tick_signal (store s1 r);
                   s2 = upd_task r (\<lambda>_. t1) s1
               in if returned then (s2\<lparr>need_reschedule := True\<rparr>, None)
                  else if tstate t1 \<noteq> Running then (s2\<lparr>need_reschedule := True\<rparr>, None)
                  else let t2 = t1\<lparr>total_cpu_ticks := total_cpu_ticks t1 + 1\<rparr>;
                           t3 = (if time_slice t2 > 0 then t2\<lparr>time_slice := time_slice t2 - 1\<rparr> else t2);
                           s3 = upd_task r (\<lambda>_. t3) s2;
                           s4 = (if time_slice t3 = 0 then s3\<lparr>need_reschedule := True\<rparr> else s3)
                       in if need_reschedule s4 then schedule s4 else (s4, None))"

section \<open>Preemption\<close>

definition preempt_requeue :: "u64 \<Rightarrow> Scheduler \<Rightarrow> Scheduler" where
  "preempt_requeue current_rsp s =
     (case current s of
        None \<Rightarrow> s
      | Some r \<Rightarrow>
          let s' = upd_task r (\<lambda>t. reset_time_slice (t\<lparr>saved_rsp := current_rsp, tstate := Ready\<rparr>)) s
          in s'\<lparr>ready_queue := ready_queue s' @ [r]\<rparr>)"

definition preempt_schedule :: "u64 \<Rightarrow> Scheduler \<Rightarrow> u64 \<times> Scheduler" where
  "preempt_schedule current_rsp s =
     (if \<not> preempt_enabled s then (current_rsp, s)
      else case pick_next_task (preempt_requeue current_rsp s) of
             (Some r, s2) \<Rightarrow>
               let s3 = upd_task r (\<lambda>t. t\<lparr>tstate := Running\<rparr>) s2;
                   next_rsp = saved_rsp (store s3 r)
               in (next_rsp, s3\<lparr>current := Some r, context_switches := context_switches s3 + 1\<rparr>)
           | (None, s2) \<Rightarrow>
               (current_rsp,
                case current s2 of None \<Rightarrow> s2 | Some r \<Rightarrow> upd_task r (\<lambda>t. t\<lparr>tstate := Running\<rparr>) s2))"

section \<open>Process control\<close>

definition block_current :: "Scheduler \<Rightarrow> Scheduler" where
  "block_current s =
     (case current s of
        None \<Rightarrow> s
      | Some r \<Rightarrow> (upd_task r (\<lambda>t. t\<lparr>tstate := Blocked\<rparr>) s)\<lparr>need_reschedule := True\<rparr>)"

definition unblock_task :: "u64 \<Rightarrow> Scheduler \<Rightarrow> unit KernelResult \<times> Scheduler" where
  "unblock_task task_id s =
     (case find (\<lambda>r. tid (store s r) = task_id \<and> tstate (store s r) = Blocked) (all_tasks s) of
        Some r \<Rightarrow>
          let s1 = upd_task r (\<lambda>t. t\<lparr>tstate := Ready\<rparr>) s
          in (Ok (), s1\<lparr>ready_queue := ready_queue s1 @ [r], need_reschedule := True\<rparr>)
      | None \<Rightarrow> (Err InvalidArgument, s))"

definition terminate_current :: "int \<Rightarrow> Scheduler \<Rightarrow> Scheduler \<times> (arc option \<times> arc) option" where
  "terminate_current code s =
     (let s1 = (case current s of
                  None \<Rightarrow> s
                | Some r \<Rightarrow> upd_task r (\<lambda>t. t\<lparr>tstate := Terminated, exit_code := code\<rparr>) s)
      in schedule (s1\<lparr>need_reschedule := True\<rparr>))"

definition terminate_task :: "u64 \<Rightarrow> int \<Rightarrow> Scheduler \<Rightarrow> unit KernelResult \<times> Scheduler" where
  "terminate_task task_id code s =
     (if task_id \<le> 2 then (Err AccessDenied, s)
      else case find (\<lambda>r. tid (store s r) = task_id) (all_tasks s) of
             Some r \<Rightarrow>
               let s1 = (upd_task r (\<lambda>t. t\<lparr>tstate := Terminated, exit_code := code\<rparr>) s)\<lparr>need_reschedule := True\<rparr>
               in (Ok (), s1\<lparr>ready_queue := filter (\<lambda>a. tid (store s1 a) \<noteq> task_id) (ready_queue s1)\<rparr>)
           | None \<Rightarrow> (Err InvalidArgument, s))"

definition send_signal :: "u64 \<Rightarrow> nat \<Rightarrow> Scheduler \<Rightarrow> unit KernelResult \<times> Scheduler" where
  "send_signal task_id sig s =
     (case find (\<lambda>r. tid (store s r) = task_id) (all_tasks s) of
        Some r \<Rightarrow> (Ok (), upd_task r (task_send_signal sig) s)
      | None \<Rightarrow> (Err InvalidArgument, s))"

definition background_task :: "u64 \<Rightarrow> Scheduler \<Rightarrow> unit KernelResult \<times> Scheduler" where
  "background_task task_id s =
     (case find (\<lambda>r. tid (store s r) = task_id) (all_tasks s) of
        Some r \<Rightarrow>
          if foreground (store s r) \<noteq> Stopped then (Err InvalidArgument, s)
          else let s1 = upd_task r (\<lambda>t. task_send_signal SIGCONT (t\<lparr>foreground := Background, tstate := Ready\<rparr>)) s
               in (Ok (), s1\<lparr>ready_queue := ready_queue s1 @ [r], need_reschedule := True\<rparr>)
      | None \<Rightarrow> (Err InvalidArgument, s))"

definition foreground_task :: "u64 \<Rightarrow> Scheduler \<Rightarrow> unit KernelResult \<times> Scheduler" where
  "foreground_task task_id s =
     (case find (\<lambda>r. tid (store s r) = task_id) (all_tasks s) of
        Some r \<Rightarrow>
          if foreground (store s r) = Foreground then (Err InvalidArgument, s)
          else let s1 = upd_task r (\<lambda>t. t\<lparr>foreground := Foreground\<rparr>) s
               in if foreground (store s1 r) = Stopped
                  then let s2 = upd_task r (\<lambda>t. task_send_signal SIGCONT (t\<lparr>tstate := Ready\<rparr>)) s1
                       in (Ok (), s2\<lparr>ready_queue := ready_queue s2 @ [r], need_reschedule := True\<rparr>)
                  else (Ok (), s1)
      | None \<Rightarrow> (Err InvalidArgument, s))"

definition yield_current :: "Scheduler \<Rightarrow> Scheduler \<times> (arc option \<times> arc) option" where
  "yield_current s = schedule (s\<lparr>need_reschedule := True\<rparr>)"

definition enable_preemption :: "Scheduler \<Rightarrow> Scheduler" where
  "enable_preemption s = s\<lparr>preempt_enabled := True\<rparr>"

definition disable_preemption :: "Scheduler \<Rightarrow> Scheduler" where
  "disable_preemption s = s\<lparr>preempt_enabled := False\<rparr>"

definition is_preemption_enabled :: "Scheduler \<Rightarrow> bool" where
  "is_preemption_enabled s = preempt_enabled s"

section \<open>Queries and cleanup\<close>

definition current_task_id :: "Scheduler \<Rightarrow> u64 option" where
  "current_task_id s = map_option (\<lambda>r. tid (store s r)) (current s)"

definition current_task_name :: "Scheduler \<Rightarrow> string option" where
  "current_task_name s = map_option (\<lambda>r. tname (store s r)) (current s)"

definition ready_count :: "Scheduler \<Rightarrow> nat" where
  "ready_count s = length (ready_queue s)"

record TaskInfo =
  ti_id :: u64
  ti_name :: string
  ti_state :: TaskState
  ti_priority :: TaskPriority
  ti_task_type :: TaskType
  ti_foreground :: TaskForeground
  ti_entry_point :: u64
  ti_cpu_ticks :: u64
  ti_exit_code :: int

definition task_info :: "Task \<Rightarrow> TaskInfo" where
  "task_info t =
     \<lparr>ti_id = tid t, ti_name = tname t, ti_state = tstate t, ti_priority = priority t,
      ti_task_type = task_type t, ti_foreground = foreground t, ti_entry_point = entry_point t,
      ti_cpu_ticks = total_cpu_ticks t, ti_exit_code = exit_code t\<rparr>"

definition state_str :: "TaskInfo \<Rightarrow> string" where
  "state_str i = task_state_as_str (ti_state i)"

definition priority_str :: "TaskInfo \<Rightarrow> string" where
  "priority_str i = task_priority_as_str (ti_priority i)"

definition fg_str :: "TaskInfo \<Rightarrow> string" where
  "fg_str i = (case ti_foreground i of Foreground \<Rightarrow> ''FG'' | Background \<Rightarrow> ''BG'' | Stopped \<Rightarrow> ''STP'')"

definition get_task_info :: "u64 \<Rightarrow> Scheduler \<Rightarrow> TaskInfo option" where
  "get_task_info task_id s =
     map_option (\<lambda>r. task_info (store s r)) (find (\<lambda>r. tid (store s r) = task_id) (all_tasks s))"

definition list_tasks :: "Scheduler \<Rightarrow> TaskInfo list" where
  "list_tasks s = map (\<lambda>r. task_info (store s r)) (all_tasks s)"

definition cleanup_terminated :: "Scheduler \<Rightarrow> Scheduler" where
  "cleanup_terminated s =
     (let terminated = map (\<lambda>r. tid (store s r)) (filter (\<lambda>r. tstate (store s r) = Terminated) (all_tasks s))
      in fold (\<lambda>i s'. s'\<lparr>all_tasks := filter (\<lambda>r. tid (store s' r) \<noteq> i) (all_tasks s'),
                         ready_queue := filter (\<lambda>r. tid (store s' r) \<noteq> i) (ready_queue s')\<rparr>) terminated s)"

record SchedulerStats =
  st_total_tasks :: u64
  st_ready_tasks :: nat
  st_tick_count :: u64
  st_context_switches :: u64
  st_preemption_enabled :: bool
  st_current_task :: string

definition scheduler_stats :: "Scheduler \<Rightarrow> SchedulerStats" where
  "scheduler_stats s =
     \<lparr>st_total_tasks = task_count s, st_ready_tasks = length (ready_queue s), st_tick_count = tick_count s,
      st_context_switches = context_switches s, st_preemption_enabled = preempt_enabled s,
      st_current_task = (case current_task_name s of Some n \<Rightarrow> n | None \<Rightarrow> ''none'')\<rparr>"

section \<open>What the choice returns\<close>

text \<open>
  The search keeps the first of the ready tasks with the greatest priority above its start value;
  without such a task it keeps its start index.
\<close>

lemma best_index_cases:
  obtains (none) "\<forall>(i, r) \<in> set L. tstate (st r) = Ready \<longrightarrow> priority (st r) \<le> bp"
      "best_index st L bi bp = bi"
  | (some) A i r B where "L = A @ (i, r) # B" "tstate (st r) = Ready" "bp < priority (st r)"
      "\<forall>(j, q) \<in> set A. tstate (st q) = Ready \<longrightarrow> priority (st q) < priority (st r)"
      "\<forall>(j, q) \<in> set B. tstate (st q) = Ready \<longrightarrow> priority (st q) \<le> priority (st r)"
      "best_index st L bi bp = i"
proof -
  have "(\<forall>(i, r) \<in> set L. tstate (st r) = Ready \<longrightarrow> priority (st r) \<le> bp) \<and> best_index st L bi bp = bi \<or>
    (\<exists>A i r B. L = A @ (i, r) # B \<and> tstate (st r) = Ready \<and> bp < priority (st r) \<and>
      (\<forall>(j, q) \<in> set A. tstate (st q) = Ready \<longrightarrow> priority (st q) < priority (st r)) \<and>
      (\<forall>(j, q) \<in> set B. tstate (st q) = Ready \<longrightarrow> priority (st q) \<le> priority (st r)) \<and>
      best_index st L bi bp = i)" (is "?N L bi bp \<or> ?S L bi bp")
  proof (induction L arbitrary: bi bp)
    case (Cons x L)
    obtain i r where x: "x = (i, r)" by fastforce
    show ?case
    proof (cases "tstate (st r) = Ready \<and> bp < priority (st r)")
      case better: True
      from Cons.IH[where bi = i and bp = "priority (st r)"] show ?thesis
      proof
        assume n: "?N L i (priority (st r))"
        have "?S (x # L) bi bp"
          using n better x by (intro exI[of _ "[]"] exI[of _ i] exI[of _ r] exI[of _ L]) auto
        then show ?thesis by blast
      next
        assume "?S L i (priority (st r))"
        then obtain A j q B where a: "L = A @ (j, q) # B" "tstate (st q) = Ready" "priority (st r) < priority (st q)"
          "\<forall>(j, q') \<in> set A. tstate (st q') = Ready \<longrightarrow> priority (st q') < priority (st q)"
          "\<forall>(j, q') \<in> set B. tstate (st q') = Ready \<longrightarrow> priority (st q') \<le> priority (st q)"
          "best_index st L i (priority (st r)) = j" by blast
        have "?S (x # L) bi bp"
          using a better x by (intro exI[of _ "x # A"] exI[of _ j] exI[of _ q] exI[of _ B]) auto
        then show ?thesis by blast
      qed
    next
      case worse: False
      from Cons.IH[where bi = bi and bp = bp] show ?thesis
      proof
        assume "?N L bi bp"
        then show ?thesis using worse x by (intro disjI1) (auto simp: not_less)
      next
        assume "?S L bi bp"
        then obtain A j q B where a: "L = A @ (j, q) # B" "tstate (st q) = Ready" "bp < priority (st q)"
          "\<forall>(j, q') \<in> set A. tstate (st q') = Ready \<longrightarrow> priority (st q') < priority (st q)"
          "\<forall>(j, q') \<in> set B. tstate (st q') = Ready \<longrightarrow> priority (st q') \<le> priority (st q)"
          "best_index st L bi bp = j" by blast
        have "tstate (st r) = Ready \<longrightarrow> priority (st r) < priority (st q)"
          using worse a(3) by auto
        then have "?S (x # L) bi bp"
          using a worse x by (intro exI[of _ "x # A"] exI[of _ j] exI[of _ q] exI[of _ B]) auto
        then show ?thesis by blast
      qed
    qed
  qed simp
  then show ?thesis using none some by blast
qed

lemma enumerate_split:
  assumes "enumerate n xs = A @ (i, r) # B"
  shows "xs = map snd A @ r # map snd B" "i = n + length A"
proof -
  have "map snd (enumerate n xs) = xs" by simp
  then show "xs = map snd A @ r # map snd B" using assms by simp
  have "length A < length xs" using arg_cong[OF assms, of length] by simp
  then show "i = n + length A"
    using nth_enumerate_eq[of "length A" xs n] assms by simp
qed

lemma remove_at_split: "remove_at (length A) (A @ r # B) = A @ B"
  by (simp add: remove_at_def)

text \<open>The three outcomes of \<open>pick_next_task\<close>.\<close>

lemma pick_next_task_cases:
  obtains (high) A r B where "ready_queue s = A @ r # B" "tstate (store s r) = Ready" "Low < priority (store s r)"
      "\<forall>q \<in> set A. tstate (store s q) = Ready \<longrightarrow> priority (store s q) < priority (store s r)"
      "\<forall>q \<in> set B. tstate (store s q) = Ready \<longrightarrow> priority (store s q) \<le> priority (store s r)"
      "pick_next_task s = (Some r, s\<lparr>ready_queue := A @ B\<rparr>)"
  | (head) r B where "ready_queue s = r # B" "tstate (store s r) = Ready"
      "\<forall>q \<in> set (ready_queue s). tstate (store s q) = Ready \<longrightarrow> priority (store s q) = Low"
      "pick_next_task s = (Some r, s\<lparr>ready_queue := B\<rparr>)"
  | (none) "pick_next_task s = (None, s)" "ready_queue s = [] \<or> tstate (store s (hd (ready_queue s))) \<noteq> Ready"
      "\<forall>q \<in> set (ready_queue s). tstate (store s q) = Ready \<longrightarrow> priority (store s q) = Low"
proof -
  have low: "p \<le> Low \<longleftrightarrow> p = Low" for p :: TaskPriority by (cases p) (simp_all add: less_eq_TaskPriority_def)
  show ?thesis
  proof (cases "ready_queue s = []")
    case True
    then show ?thesis by (intro none) (simp_all add: pick_next_task_def)
  next
    case ne: False
    let ?L = "enumerate 0 (ready_queue s)"
    show ?thesis
    proof (cases rule: best_index_cases[of ?L "store s" Low 0])
      case none
      have "set (ready_queue s) = snd ` set ?L" by (metis map_snd_enumerate list.set_map)
      then have all: "\<forall>q \<in> set (ready_queue s). tstate (store s q) = Ready \<longrightarrow> priority (store s q) = Low"
        using none(1) low by auto
      obtain r B where q: "ready_queue s = r # B" using ne by (cases "ready_queue s") auto
      then show ?thesis
        using that(2)[OF q] that(3) all none(2) by (cases "tstate (store s r) = Ready")
          (auto simp: pick_next_task_def Let_def remove_at_def)
    next
      case (some A i r B)
      have q: "ready_queue s = map snd A @ r # map snd B" "i = length (map snd A)"
        using enumerate_split[OF some(1)] by simp_all
      have pick: "pick_next_task s = (Some r, s\<lparr>ready_queue := map snd A @ map snd B\<rparr>)"
        using ne some(2,6) q remove_at_split[of "map snd A" r "map snd B"]
        by (simp add: pick_next_task_def Let_def nth_append)
      show ?thesis
        by (rule that(1)[OF q(1) some(2,3) _ _ pick]) (use some(4,5) in fastforce)+
    qed
  qed
qed

section \<open>The invariant\<close>

text \<open>
  \<open>sched_core\<close>: references are allocated, identifiers are distinct and below the counter, and every
  task that is ready is in the ready queue. \<open>runs_only R\<close>: no task but \<open>R\<close> is running.
\<close>

definition sched_core :: "Scheduler \<Rightarrow> bool" where
  "sched_core s \<longleftrightarrow>
     set (ready_queue s) \<subseteq> {..<next_arc s} \<and> set (all_tasks s) \<subseteq> {..<next_arc s} \<and> distinct (all_tasks s) \<and>
     (\<forall>r < next_arc s. tid (store s r) < NEXT_TASK_ID s) \<and> inj_on (\<lambda>r. tid (store s r)) {..<next_arc s} \<and>
     (\<forall>r \<in> set (all_tasks s). tstate (store s r) = Ready \<longrightarrow> r \<in> set (ready_queue s))"

definition runs_only :: "arc option \<Rightarrow> Scheduler \<Rightarrow> bool" where
  "runs_only R s \<longleftrightarrow> (\<forall>r < next_arc s. tstate (store s r) = Running \<longrightarrow> R = Some r) \<and>
     (\<forall>r. R = Some r \<longrightarrow> r < next_arc s)"

definition sched_inv :: "Scheduler \<Rightarrow> bool" where
  "sched_inv s \<longleftrightarrow> sched_core s \<and> runs_only (current s) s"

named_theorems sched_frame \<open>fields that an update leaves alone\<close>

lemma sched_core_cong [sched_frame]:
  "sched_core (s\<lparr>current := c\<rparr>) = sched_core s" "sched_core (s\<lparr>need_reschedule := b\<rparr>) = sched_core s"
  "sched_core (s\<lparr>task_count := n\<rparr>) = sched_core s" "sched_core (s\<lparr>tick_count := n\<rparr>) = sched_core s"
  "sched_core (s\<lparr>scheduler_ticks := n\<rparr>) = sched_core s" "sched_core (s\<lparr>context_switches := n\<rparr>) = sched_core s"
  "sched_core (s\<lparr>preempt_enabled := b\<rparr>) = sched_core s" "sched_core (s\<lparr>stack_mem := m\<rparr>) = sched_core s"
  "sched_core (s\<lparr>timer_tick_count := n\<rparr>) = sched_core s" "sched_core (s\<lparr>NEXT_STACK := n\<rparr>) = sched_core s"
  by (simp_all add: sched_core_def)

lemma runs_only_cong [sched_frame]:
  "runs_only R (s\<lparr>current := c\<rparr>) = runs_only R s" "runs_only R (s\<lparr>need_reschedule := b\<rparr>) = runs_only R s"
  "runs_only R (s\<lparr>task_count := n\<rparr>) = runs_only R s" "runs_only R (s\<lparr>tick_count := n\<rparr>) = runs_only R s"
  "runs_only R (s\<lparr>scheduler_ticks := n\<rparr>) = runs_only R s" "runs_only R (s\<lparr>context_switches := n\<rparr>) = runs_only R s"
  "runs_only R (s\<lparr>preempt_enabled := b\<rparr>) = runs_only R s" "runs_only R (s\<lparr>stack_mem := m\<rparr>) = runs_only R s"
  "runs_only R (s\<lparr>timer_tick_count := n\<rparr>) = runs_only R s" "runs_only R (s\<lparr>NEXT_STACK := n\<rparr>) = runs_only R s"
  "runs_only R (s\<lparr>ready_queue := q\<rparr>) = runs_only R s" "runs_only R (s\<lparr>all_tasks := a\<rparr>) = runs_only R s"
  "runs_only R (s\<lparr>NEXT_TASK_ID := i\<rparr>) = runs_only R s"
  by (simp_all add: runs_only_def)

lemma upd_task_fields [simp]:
  "ready_queue (upd_task r f s) = ready_queue s" "current (upd_task r f s) = current s"
  "all_tasks (upd_task r f s) = all_tasks s" "next_arc (upd_task r f s) = next_arc s"
  "need_reschedule (upd_task r f s) = need_reschedule s" "preempt_enabled (upd_task r f s) = preempt_enabled s"
  "NEXT_TASK_ID (upd_task r f s) = NEXT_TASK_ID s" "context_switches (upd_task r f s) = context_switches s"
  "store (upd_task r f s) q = (if q = r then f (store s r) else store s q)"
  "tick_count (upd_task r f s) = tick_count s"
  by (simp_all add: upd_task_def)

text \<open>An update that keeps the identifiers and queues every task it makes ready.\<close>

lemma core_transfer:
  assumes "sched_core s" "next_arc s' = next_arc s" "all_tasks s' = all_tasks s"
    "NEXT_TASK_ID s' = NEXT_TASK_ID s" "\<And>q. tid (store s' q) = tid (store s q)"
    "set (ready_queue s') \<subseteq> {..<next_arc s}"
    "\<And>q. q \<in> set (all_tasks s) \<Longrightarrow> tstate (store s' q) = Ready \<Longrightarrow> q \<in> set (ready_queue s')"
  shows "sched_core s'"
  using assms by (simp add: sched_core_def)

lemma coreD:
  assumes "sched_core s"
  shows "set (ready_queue s) \<subseteq> {..<next_arc s}" "set (all_tasks s) \<subseteq> {..<next_arc s}"
    "\<And>q. q \<in> set (all_tasks s) \<Longrightarrow> tstate (store s q) = Ready \<Longrightarrow> q \<in> set (ready_queue s)"
    "\<And>q r. q < next_arc s \<Longrightarrow> r < next_arc s \<Longrightarrow> tid (store s q) = tid (store s r) \<Longrightarrow> q = r"
    "distinct (all_tasks s)" "\<And>q. q < next_arc s \<Longrightarrow> tid (store s q) < NEXT_TASK_ID s"
  using assms by (auto simp: sched_core_def inj_on_def)

text \<open>Changing a task without making it ready.\<close>

lemma core_upd:
  assumes "sched_core s" "tid (f (store s r)) = tid (store s r)"
    and "tstate (f (store s r)) = Ready \<longrightarrow> tstate (store s r) = Ready"
  shows "sched_core (upd_task r f s)"
  using assms coreD[OF assms(1)] by (intro core_transfer[OF assms(1)]) (simp_all split: if_splits)

text \<open>Making a task ready and appending it to the queue.\<close>

lemma core_push:
  assumes "sched_core s" "r < next_arc s" "tid (f (store s r)) = tid (store s r)"
  shows "sched_core ((upd_task r f s)\<lparr>ready_queue := ready_queue s @ [r]\<rparr>)"
  using assms coreD[OF assms(1)] by (intro core_transfer[OF assms(1)]) (simp_all split: if_splits)

lemma runs_onlyD:
  assumes "runs_only R s"
  shows "\<And>q. q < next_arc s \<Longrightarrow> tstate (store s q) = Running \<Longrightarrow> R = Some q"
    "\<And>r. R = Some r \<Longrightarrow> r < next_arc s"
  using assms unfolding runs_only_def by blast+

lemma runs_onlyI:
  assumes "\<And>q. q < next_arc s \<Longrightarrow> tstate (store s q) = Running \<Longrightarrow> R = Some q"
    and "\<And>r. R = Some r \<Longrightarrow> r < next_arc s"
  shows "runs_only R s"
  using assms unfolding runs_only_def by blast

lemma runs_upd:
  assumes "runs_only R s" "tstate (f (store s r)) = Running \<longrightarrow> tstate (store s r) = Running \<or> R = Some r"
  shows "runs_only R (upd_task r f s)"
proof (rule runs_onlyI)
  fix q assume "q < next_arc (upd_task r f s)" "tstate (store (upd_task r f s) q) = Running"
  then show "R = Some q"
    using assms(2) runs_onlyD(1)[OF assms(1), of q] by (cases "q = r") auto
qed (use runs_onlyD(2)[OF assms(1)] in simp)

lemma runs_stop:
  assumes "runs_only (Some r) s" "tstate (f (store s r)) \<noteq> Running"
  shows "runs_only None (upd_task r f s)"
proof (rule runs_onlyI)
  fix q assume "q < next_arc (upd_task r f s)" "tstate (store (upd_task r f s) q) = Running"
  then show "None = Some q"
    using assms(2) runs_onlyD(1)[OF assms(1), of q] by (cases "q = r") auto
qed simp

lemma runs_weaken:
  assumes "runs_only None s" "r < next_arc s"
  shows "runs_only (Some r) s"
  by (rule runs_onlyI) (use assms runs_onlyD(1)[OF assms(1)] in auto)

text \<open>Choosing a task when none is running, and letting it run.\<close>

lemma pick_None: "pick_next_task s = (None, s') \<Longrightarrow> s' = s"
  by (auto simp: pick_next_task_def Let_def split: if_splits)

lemma pick_run:
  assumes core: "sched_core s" and runs: "runs_only None s" and pick: "pick_next_task s = (Some r, s')"
  shows "sched_core (upd_task r (\<lambda>t. t\<lparr>tstate := Running\<rparr>) s')"
    "runs_only (Some r) (upd_task r (\<lambda>t. t\<lparr>tstate := Running\<rparr>) s')" "r \<in> set (ready_queue s)"
    "tstate (store s r) = Ready" "store s' = store s" "current s' = current s"
    "preempt_enabled s' = preempt_enabled s" "next_arc s' = next_arc s"
    "\<forall>q \<in> set (ready_queue s). tstate (store s q) = Ready \<longrightarrow> priority (store s q) \<le> priority (store s r)"
proof -
  have "\<exists>A B. ready_queue s = A @ r # B \<and> s' = s\<lparr>ready_queue := A @ B\<rparr> \<and> tstate (store s r) = Ready \<and>
      (\<forall>q \<in> set (ready_queue s). tstate (store s q) = Ready \<longrightarrow> priority (store s q) \<le> priority (store s r))"
  proof (cases rule: pick_next_task_cases[of s])
    case (high A r' B)
    then show ?thesis using pick by (intro exI[of _ A] exI[of _ B]) auto
  next
    case (head r' B)
    then show ?thesis using pick by (intro exI[of _ "[]"] exI[of _ B]) auto
  next
    case none
    then show ?thesis using pick by simp
  qed
  then obtain A B where q: "ready_queue s = A @ r # B" "s' = s\<lparr>ready_queue := A @ B\<rparr>" "tstate (store s r) = Ready"
    "\<forall>q \<in> set (ready_queue s). tstate (store s q) = Ready \<longrightarrow> priority (store s q) \<le> priority (store s r)" by blast
  have r: "r < next_arc s" using core q(1) by (auto simp: sched_core_def)
  show "sched_core (upd_task r (\<lambda>t. t\<lparr>tstate := Running\<rparr>) s')"
    using q(1,2) coreD[OF core] by (intro core_transfer[OF core]) (auto split: if_splits)
  show "runs_only (Some r) (upd_task r (\<lambda>t. t\<lparr>tstate := Running\<rparr>) s')"
    using runs_weaken[OF runs r] q(2) by (intro runs_upd) (simp_all add: sched_frame)
  show "r \<in> set (ready_queue s)" "tstate (store s r) = Ready" "store s' = store s" "current s' = current s"
    "preempt_enabled s' = preempt_enabled s" "next_arc s' = next_arc s"
    "\<forall>q \<in> set (ready_queue s). tstate (store s q) = Ready \<longrightarrow> priority (store s q) \<le> priority (store s r)"
    using q by auto
qed

section \<open>Every operation keeps the invariant\<close>

lemma runs_idle: "runs_only (Some r) s \<Longrightarrow> tstate (store s r) \<noteq> Running \<Longrightarrow> runs_only None s"
  by (rule runs_onlyI) (auto dest: runs_onlyD(1))

lemma reset_time_slice_simps [simp]:
  "tid (reset_time_slice t) = tid t" "tstate (reset_time_slice t) = tstate t"
  "priority (reset_time_slice t) = priority t" "saved_rsp (reset_time_slice t) = saved_rsp t"
  "time_slice (reset_time_slice t) = default_time_slice t"
  by (simp_all add: reset_time_slice_def)

lemma task_send_signal_simps [simp]:
  "tid (task_send_signal i t) = tid t" "tstate (task_send_signal i t) = tstate t"
  by (simp_all add: task_send_signal_def)

lemma requeue_current_inv:
  assumes "sched_inv s"
  shows "sched_core (requeue_current s)" "runs_only None (requeue_current s)"
    "next_arc (requeue_current s) = next_arc s"
proof -
  have core: "sched_core s" and runs: "runs_only (current s) s" using assms by (auto simp: sched_inv_def)
  let ?s1 = "s\<lparr>need_reschedule := False, current := None\<rparr>"
  have core1: "sched_core ?s1" using core by (simp add: sched_frame)
  have "sched_core (requeue_current s) \<and> runs_only None (requeue_current s) \<and>
      next_arc (requeue_current s) = next_arc s"
  proof (cases "current s")
    case None
    then show ?thesis using core runs by (simp add: requeue_current_def sched_frame)
  next
    case (Some r)
    have runs1: "runs_only (Some r) ?s1" and r: "r < next_arc s"
      using runs Some runs_onlyD(2)[OF runs] by (simp_all add: sched_frame)
    show ?thesis
    proof (cases "tstate (store s r) = Running")
      case True
      let ?f = "\<lambda>t. reset_time_slice (t\<lparr>tstate := Ready\<rparr>)"
      have "sched_core ((upd_task r ?f ?s1)\<lparr>ready_queue := ready_queue ?s1 @ [r]\<rparr>)"
        using core1 r by (intro core_push) simp_all
      moreover have "runs_only None (upd_task r ?f ?s1)" using runs1 by (rule runs_stop) simp
      ultimately show ?thesis using Some True by (simp add: requeue_current_def sched_frame)
    next
      case False
      then have "runs_only None ?s1" using runs_idle[OF runs1] by simp
      then show ?thesis using Some False core1 by (simp add: requeue_current_def)
    qed
  qed
  then show "sched_core (requeue_current s)" "runs_only None (requeue_current s)"
    "next_arc (requeue_current s) = next_arc s" by simp_all
qed

lemma schedule_inv:
  assumes "sched_inv s"
  shows "sched_inv (fst (schedule s))"
proof -
  note Q = requeue_current_inv[OF assms]
  obtain x s3 where pick: "pick_next_task (requeue_current s) = (x, s3)" by fastforce
  show ?thesis
  proof (cases x)
    case (Some r)
    have p: "pick_next_task (requeue_current s) = (Some r, s3)" using pick Some by simp
    note P = pick_run[OF Q(1,2) p]
    show ?thesis using p P(1,2) by (simp add: schedule_def Let_def sched_inv_def sched_frame)
  next
    case None
    then have "s3 = requeue_current s" using pick_None pick by simp
    moreover have "runs_only (current s) (requeue_current s)"
    proof (cases "current s")
      case (Some r)
      then have "r < next_arc s" using assms runs_onlyD(2) by (auto simp: sched_inv_def)
      then show ?thesis using Some runs_weaken[OF Q(2)] Q(3) by simp
    qed (use Q(2) in simp)
    ultimately show ?thesis
      using None pick Q(1) by (simp add: schedule_def Let_def sched_inv_def sched_frame)
  qed
qed

lemma preempt_requeue_inv:
  assumes "sched_inv s"
  shows "sched_core (preempt_requeue rsp s)" "runs_only None (preempt_requeue rsp s)"
    "current (preempt_requeue rsp s) = current s" "next_arc (preempt_requeue rsp s) = next_arc s"
    "preempt_enabled (preempt_requeue rsp s) = preempt_enabled s"
proof -
  have core: "sched_core s" and runs: "runs_only (current s) s" using assms by (auto simp: sched_inv_def)
  show "current (preempt_requeue rsp s) = current s" "next_arc (preempt_requeue rsp s) = next_arc s"
    "preempt_enabled (preempt_requeue rsp s) = preempt_enabled s"
    by (simp_all add: preempt_requeue_def Let_def split: option.split)
  have "sched_core (preempt_requeue rsp s) \<and> runs_only None (preempt_requeue rsp s)"
  proof (cases "current s")
    case None
    then show ?thesis using core runs by (simp add: preempt_requeue_def)
  next
    case (Some r)
    let ?f = "\<lambda>t. reset_time_slice (t\<lparr>saved_rsp := rsp, tstate := Ready\<rparr>)"
    have r: "r < next_arc s" using runs_onlyD(2)[OF runs] Some by simp
    have "sched_core ((upd_task r ?f s)\<lparr>ready_queue := ready_queue s @ [r]\<rparr>)"
      using core r by (intro core_push) simp_all
    moreover have "runs_only None (upd_task r ?f s)" using runs Some by (intro runs_stop) simp_all
    ultimately show ?thesis using Some by (simp add: preempt_requeue_def sched_frame Let_def)
  qed
  then show "sched_core (preempt_requeue rsp s)" "runs_only None (preempt_requeue rsp s)" by simp_all
qed

lemma preempt_schedule_inv:
  assumes "sched_inv s"
  shows "sched_inv (snd (preempt_schedule rsp s))"
proof (cases "preempt_enabled s")
  case True
  note Q = preempt_requeue_inv[OF assms, of rsp]
  obtain x s2 where pick: "pick_next_task (preempt_requeue rsp s) = (x, s2)" by fastforce
  show ?thesis
  proof (cases x)
    case (Some r)
    have p: "pick_next_task (preempt_requeue rsp s) = (Some r, s2)" using pick Some by simp
    note P = pick_run[OF Q(1,2) p]
    show ?thesis using True p P(1,2) by (simp add: preempt_schedule_def Let_def sched_inv_def sched_frame)
  next
    case None
    then have s2: "s2 = preempt_requeue rsp s" using pick_None pick by simp
    show ?thesis
    proof (cases "current s")
      case cur: None
      then show ?thesis using True None pick s2 Q by (simp add: preempt_schedule_def sched_inv_def)
    next
      case cur: (Some r)
      let ?f = "\<lambda>t. t\<lparr>tstate := Running\<rparr>"
      have "r < next_arc s" using assms cur runs_onlyD(2) by (auto simp: sched_inv_def)
      then have "runs_only (Some r) (preempt_requeue rsp s)" using runs_weaken[OF Q(2)] Q(4) by simp
      then have "runs_only (Some r) (upd_task r ?f (preempt_requeue rsp s))" by (rule runs_upd) simp
      moreover have "sched_core (upd_task r ?f (preempt_requeue rsp s))" using Q(1) by (rule core_upd) simp_all
      ultimately show ?thesis using True None pick s2 cur Q(3) by (simp add: preempt_schedule_def sched_inv_def)
    qed
  qed
qed (use assms in \<open>simp add: preempt_schedule_def\<close>)

text \<open>The invariant under a change of one task, and under a change that makes a task ready and queues it.\<close>

lemma inv_upd:
  assumes "sched_inv s" "tid (f (store s r)) = tid (store s r)"
    and "tstate (f (store s r)) = Ready \<longrightarrow> tstate (store s r) = Ready"
    and "tstate (f (store s r)) = Running \<longrightarrow> tstate (store s r) = Running \<or> current s = Some r"
  shows "sched_inv (upd_task r f s)"
  using assms unfolding sched_inv_def by (simp add: core_upd runs_upd)

lemma inv_push:
  assumes "sched_inv s" "r < next_arc s" "tid (f (store s r)) = tid (store s r)" "tstate (f (store s r)) = Ready"
  shows "sched_inv ((upd_task r f s)\<lparr>ready_queue := ready_queue s @ [r]\<rparr>)"
proof -
  have "runs_only (current s) (upd_task r f s)" using assms by (intro runs_upd) (simp_all add: sched_inv_def)
  then show ?thesis using assms core_push[of s r f] by (simp add: sched_inv_def sched_frame)
qed

lemma inv_frame [sched_frame]:
  "sched_inv (s\<lparr>need_reschedule := b\<rparr>) = sched_inv s" "sched_inv (s\<lparr>task_count := n\<rparr>) = sched_inv s"
  "sched_inv (s\<lparr>tick_count := n\<rparr>) = sched_inv s" "sched_inv (s\<lparr>scheduler_ticks := n\<rparr>) = sched_inv s"
  "sched_inv (s\<lparr>context_switches := n\<rparr>) = sched_inv s" "sched_inv (s\<lparr>preempt_enabled := b\<rparr>) = sched_inv s"
  "sched_inv (s\<lparr>stack_mem := m\<rparr>) = sched_inv s" "sched_inv (s\<lparr>timer_tick_count := n\<rparr>) = sched_inv s"
  "sched_inv (s\<lparr>NEXT_STACK := n\<rparr>) = sched_inv s"
  by (simp_all add: sched_inv_def sched_frame)

lemma pop_signal_simps [simp]:
  "tid (snd (pop_signal t)) = tid t" "tstate (snd (pop_signal t)) = tstate t"
  by (simp_all add: pop_signal_def Let_def)

lemma tick_signal_simps:
  "tid (fst (tick_signal t)) = tid t"
  "tstate (fst (tick_signal t)) = Ready \<Longrightarrow> tstate t = Ready"
proof -
  obtain x t1 where p: "pop_signal t = (x, t1)" by fastforce
  have t1: "tid t1 = tid t" "tstate t1 = tstate t" using pop_signal_simps[of t] p by simp_all
  show "tid (fst (tick_signal t)) = tid t"
    using t1 p by (simp add: tick_signal_def split: option.split)
  show "tstate (fst (tick_signal t)) = Ready \<Longrightarrow> tstate t = Ready"
    using t1 p by (auto simp: tick_signal_def split: option.splits if_splits)
qed

lemma tick_inv:
  assumes inv: "sched_inv s"
  shows "sched_inv (fst (tick s))"
proof -
  define s1 where "s1 = s\<lparr>tick_count := tick_count s + 1, scheduler_ticks := scheduler_ticks s + 1\<rparr>"
  have inv1: "sched_inv s1" using inv by (simp add: s1_def sched_frame)
  show ?thesis
  proof (cases "preempt_enabled s1")
    case False
    then show ?thesis using inv1 by (simp add: tick_def s1_def[symmetric])
  next
    case en: True
    show ?thesis
    proof (cases "current s1")
      case None
      then show ?thesis using en inv1 schedule_inv[OF inv1] by (simp add: tick_def s1_def[symmetric])
    next
      case (Some r)
      obtain t1 ret where sig: "tick_signal (store s1 r) = (t1, ret)" by fastforce
      have t1: "tid t1 = tid (store s1 r)" "tstate t1 = Ready \<longrightarrow> tstate (store s1 r) = Ready"
        using tick_signal_simps[of "store s1 r"] sig by simp_all
      define s2 where "s2 = upd_task r (\<lambda>_. t1) s1"
      have inv2: "sched_inv s2" unfolding s2_def using inv1 t1 Some by (intro inv_upd) simp_all
      define t2 where "t2 = t1\<lparr>total_cpu_ticks := total_cpu_ticks t1 + 1\<rparr>"
      define t3 where "t3 = (if time_slice t2 > 0 then t2\<lparr>time_slice := time_slice t2 - 1\<rparr> else t2)"
      have t3: "tid t3 = tid t1" "tstate t3 = tstate t1" by (simp_all add: t3_def t2_def)
      define s3 where "s3 = upd_task r (\<lambda>_. t3) s2"
      have inv3: "sched_inv s3" unfolding s3_def using inv2 t3 by (intro inv_upd) (simp_all add: s2_def)
      define s4 where "s4 = (if time_slice t3 = 0 then s3\<lparr>need_reschedule := True\<rparr> else s3)"
      have inv4: "sched_inv s4" using inv3 by (simp add: s4_def sched_frame)
      have "tick s = (if ret then (s2\<lparr>need_reschedule := True\<rparr>, None)
          else if tstate t1 \<noteq> Running then (s2\<lparr>need_reschedule := True\<rparr>, None)
          else if need_reschedule s4 then schedule s4 else (s4, None))"
        using en Some sig
        unfolding tick_def Let_def s1_def[symmetric] s4_def s3_def t3_def t2_def s2_def by simp
      then show ?thesis using inv2 inv4 schedule_inv[OF inv4] by (simp add: sched_frame)
    qed
  qed
qed

lemma find_all_tasks:
  assumes "sched_inv s" "find P (all_tasks s) = Some r"
  shows "r < next_arc s" "P r" "r \<in> set (all_tasks s)"
proof -
  show r: "P r" "r \<in> set (all_tasks s)" using assms(2) by (auto simp: find_Some_iff)
  then show "r < next_arc s" using coreD(2)[of s] assms(1) by (auto simp: sched_inv_def)
qed

lemma control_inv:
  assumes inv: "sched_inv s"
  shows "sched_inv (block_current s)" "sched_inv (snd (unblock_task i s))" "sched_inv (fst (terminate_current c s))"
    "sched_inv (snd (send_signal i sig s))" "sched_inv (snd (background_task i s))"
    "sched_inv (snd (foreground_task i s))" "sched_inv (fst (yield_current s))"
    "sched_inv (enable_preemption s)" "sched_inv (disable_preemption s)" "sched_inv (schedule_resumed s)"
proof -
  show "sched_inv (block_current s)"
    using inv by (auto simp: block_current_def sched_frame intro!: inv_upd split: option.split)
  show "sched_inv (snd (unblock_task i s))"
    using inv find_all_tasks(1)[OF inv]
    by (auto simp: unblock_task_def sched_frame Let_def intro!: inv_push split: option.split)
  have "sched_inv (s1\<lparr>need_reschedule := True\<rparr>)" if "sched_inv s1" for s1 using that by (simp add: sched_frame)
  then show "sched_inv (fst (terminate_current c s))"
    unfolding terminate_current_def Let_def
    by (intro schedule_inv) (use inv in \<open>auto simp: sched_frame intro!: inv_upd split: option.split\<close>)
  show "sched_inv (snd (send_signal i sig s))"
    using inv by (auto simp: send_signal_def intro!: inv_upd split: option.split)
  show "sched_inv (snd (background_task i s))"
    using inv find_all_tasks(1)[OF inv]
    by (auto simp: background_task_def sched_frame Let_def intro!: inv_push split: option.split)
  show "sched_inv (snd (foreground_task i s))"
    using inv by (auto simp: foreground_task_def Let_def intro!: inv_upd split: option.split)
  show "sched_inv (fst (yield_current s))"
    unfolding yield_current_def by (intro schedule_inv) (use inv in \<open>simp add: sched_frame\<close>)
  show "sched_inv (enable_preemption s)" "sched_inv (disable_preemption s)" "sched_inv (schedule_resumed s)"
    using inv by (simp_all add: enable_preemption_def disable_preemption_def schedule_resumed_def sched_frame)
qed

lemma terminate_task_inv:
  assumes inv: "sched_inv s"
  shows "sched_inv (snd (terminate_task i c s))"
proof (cases "i \<le> 2 \<or> find (\<lambda>r. tid (store s r) = i) (all_tasks s) = None")
  case True
  then show ?thesis using inv by (auto simp: terminate_task_def)
next
  case False
  then obtain r where f: "find (\<lambda>r. tid (store s r) = i) (all_tasks s) = Some r" by auto
  note F = find_all_tasks[OF inv f]
  let ?f = "\<lambda>t. t\<lparr>tstate := Terminated, exit_code := c\<rparr>"
  define s1 where "s1 = (upd_task r ?f s)\<lparr>need_reschedule := True\<rparr>"
  have inv1: "sched_inv s1" unfolding s1_def using inv by (simp add: sched_frame inv_upd)
  have core1: "sched_core s1" using inv1 by (simp add: sched_inv_def)
  have all: "all_tasks s1 = all_tasks s" "ready_queue s1 = ready_queue s" "next_arc s1 = next_arc s"
    by (simp_all add: s1_def)
  have tid1: "tid (store s1 q) = tid (store s q)" for q by (simp add: s1_def)
  have "sched_core (s1\<lparr>ready_queue := filter (\<lambda>a. tid (store s1 a) \<noteq> i) (ready_queue s1)\<rparr>)"
  proof (rule core_transfer[OF core1])
    show "set (ready_queue (s1\<lparr>ready_queue := filter (\<lambda>a. tid (store s1 a) \<noteq> i) (ready_queue s1)\<rparr>)) \<subseteq> {..<next_arc s1}"
      using coreD(1)[OF core1] by auto
    fix q assume q: "q \<in> set (all_tasks s1)"
      "tstate (store (s1\<lparr>ready_queue := filter (\<lambda>a. tid (store s1 a) \<noteq> i) (ready_queue s1)\<rparr>) q) = Ready"
    then have ready: "tstate (store s1 q) = Ready" by simp
    then have "q \<noteq> r" by (auto simp: s1_def)
    moreover have "q < next_arc s" using q(1) coreD(2)[OF core1] all by auto
    ultimately have "tid (store s q) \<noteq> i"
      using coreD(4)[of s q r] inv F(1,2) by (auto simp: sched_inv_def)
    then show "q \<in> set (ready_queue (s1\<lparr>ready_queue := filter (\<lambda>a. tid (store s1 a) \<noteq> i) (ready_queue s1)\<rparr>))"
      using coreD(3)[OF core1 q(1) ready] tid1 by simp
  qed simp_all
  then show ?thesis
    using False f inv1 by (simp add: terminate_task_def Let_def s1_def[symmetric] sched_inv_def sched_frame)
qed

text \<open>Removing every task with a given identifier from both lists.\<close>

definition drop_id :: "u64 \<Rightarrow> Scheduler \<Rightarrow> Scheduler" where
  "drop_id i s = s\<lparr>all_tasks := filter (\<lambda>r. tid (store s r) \<noteq> i) (all_tasks s),
     ready_queue := filter (\<lambda>r. tid (store s r) \<noteq> i) (ready_queue s)\<rparr>"

lemma drop_id_inv:
  assumes "sched_inv s"
  shows "sched_inv (drop_id i s)"
proof -
  have core: "sched_core s" and runs: "runs_only (current s) s" using assms by (auto simp: sched_inv_def)
  have "inj_on (\<lambda>r. tid (store s r)) {..<next_arc s}" using core by (simp add: sched_core_def)
  moreover have "set (filter P (ready_queue s)) \<subseteq> {..<next_arc s}" "set (filter P (all_tasks s)) \<subseteq> {..<next_arc s}" for P
    using coreD(1,2)[OF core] by auto
  ultimately have "sched_core (drop_id i s)"
    using coreD(3,5,6)[OF core] unfolding sched_core_def drop_id_def by simp
  then show ?thesis using runs by (simp add: sched_inv_def drop_id_def sched_frame)
qed

lemma drop_ids_inv: "sched_inv s \<Longrightarrow> sched_inv (fold drop_id is s)"
  by (induction "is" arbitrary: s) (simp_all add: drop_id_inv)

lemma cleanup_eq:
  "cleanup_terminated s =
     fold drop_id (map (\<lambda>r. tid (store s r)) (filter (\<lambda>r. tstate (store s r) = Terminated) (all_tasks s))) s"
  unfolding cleanup_terminated_def Let_def by (simp add: drop_id_def[abs_def])

lemma cleanup_inv: "sched_inv s \<Longrightarrow> sched_inv (cleanup_terminated s)"
  unfolding cleanup_eq by (rule drop_ids_inv)

text \<open>The identifier counter moves on; the new task takes the old value.\<close>

lemma inv_next_id:
  assumes "sched_inv s" "NEXT_TASK_ID s < i"
  shows "sched_inv (s\<lparr>NEXT_TASK_ID := i\<rparr>)"
proof -
  have core: "sched_core s" and runs: "runs_only (current s) s" using assms by (auto simp: sched_inv_def)
  have "\<forall>r < next_arc s. tid (store s r) < i" using coreD(6)[OF core] less_trans[OF _ assms(2)] by blast
  then have "sched_core (s\<lparr>NEXT_TASK_ID := i\<rparr>)" using core by (simp add: sched_core_def)
  then show ?thesis using runs by (simp add: sched_inv_def sched_frame)
qed

lemma setup_initial_stack_task:
  assumes "setup_initial_stack t s = (t', s')"
  shows "tid t' = tid t" "tstate t' = tstate t" "\<exists>m. s' = s\<lparr>stack_mem := m\<rparr>"
  using assms by (auto simp: setup_initial_stack_def split: prod.splits)

lemma enqueue_new_task_inv:
  assumes inv: "sched_inv s" and fresh: "\<And>r. r < next_arc s \<Longrightarrow> tid (store s r) \<noteq> tid t"
    and t: "tid t < NEXT_TASK_ID s" "tstate t = Ready"
  shows "sched_inv (snd (enqueue_new_task t s))"
proof -
  obtain t1 s1 where st: "setup_initial_stack t s = (t1, s1)" by fastforce
  obtain m where s1: "s1 = s\<lparr>stack_mem := m\<rparr>" using setup_initial_stack_task(3)[OF st] by blast
  define t2 where "t2 = t1\<lparr>start_tick := timer_tick_count s1\<rparr>"
  have t2: "tid t2 = tid t" "tstate t2 = Ready"
    using setup_initial_stack_task(1,2)[OF st] t(2) by (simp_all add: t2_def)
  let ?s' = "snd (enqueue_new_task t s)"
  have s': "?s' = s1\<lparr>store := (store s)(next_arc s := t2), next_arc := Suc (next_arc s),
      ready_queue := ready_queue s @ [next_arc s], all_tasks := all_tasks s @ [next_arc s],
      task_count := task_count s + 1\<rparr>"
    by (simp add: enqueue_new_task_def st t2_def arc_new_def Let_def s1)
  have core: "sched_core s" and runs: "runs_only (current s) s" using inv by (auto simp: sched_inv_def)
  have less: "r < next_arc s" if "r \<in> set (all_tasks s) \<or> r \<in> set (ready_queue s)" for r
    using coreD(1,2)[OF core] that by auto
  have fr: "\<forall>r < next_arc s. tid (store s r) \<noteq> tid t2 \<and> tid t2 \<noteq> tid (store s r)"
    using fresh t2(1) by metis
  have ids: "inj_on (\<lambda>r. tid (store ?s' r)) {..<next_arc ?s'}"
    using coreD(4)[OF core] fr unfolding s' s1 by (auto simp: inj_on_def less_Suc_eq)
  have "sched_core ?s'"
    unfolding sched_core_def
  proof (intro conjI)
    show "set (ready_queue ?s') \<subseteq> {..<next_arc ?s'}" "set (all_tasks ?s') \<subseteq> {..<next_arc ?s'}"
      using coreD(1,2)[OF core] unfolding s' s1 by (simp_all add: lessThan_Suc subset_insertI2)
    have "next_arc s \<notin> set (all_tasks s)" using less by blast
    then show "distinct (all_tasks ?s')" using coreD(5)[OF core] unfolding s' s1 by simp
    show "\<forall>r < next_arc ?s'. tid (store ?s' r) < NEXT_TASK_ID ?s'"
    proof (intro allI impI)
      fix r assume "r < next_arc ?s'"
      then have "r = next_arc s \<or> r < next_arc s" unfolding s' by (simp add: less_Suc_eq disj_commute)
      then show "tid (store ?s' r) < NEXT_TASK_ID ?s'"
        using coreD(6)[OF core, of r] t(1) t2(1) unfolding s' s1 by (cases "r = next_arc s") simp_all
    qed
    show "\<forall>r \<in> set (all_tasks ?s'). tstate (store ?s' r) = Ready \<longrightarrow> r \<in> set (ready_queue ?s')"
    proof (intro ballI impI)
      fix r assume r: "r \<in> set (all_tasks ?s')" "tstate (store ?s' r) = Ready"
      then show "r \<in> set (ready_queue ?s')"
        using coreD(3)[OF core, of r] unfolding s' s1 by (cases "r = next_arc s") simp_all
    qed
  qed (rule ids)
  moreover have "runs_only (current ?s') ?s'"
  proof (rule runs_onlyI)
    fix q assume q: "q < next_arc ?s'" "tstate (store ?s' q) = Running"
    then have "q \<noteq> next_arc s" using t2(2) unfolding s' s1 by auto
    then show "current ?s' = Some q" using q runs_onlyD(1)[OF runs, of q] unfolding s' s1 by simp
  next
    fix r assume "current ?s' = Some r"
    then show "r < next_arc ?s'" using runs_onlyD(2)[OF runs, of r] unfolding s' s1 by simp
  qed
  ultimately show ?thesis by (simp add: sched_inv_def)
qed

lemma alloc_stack_sched:
  "\<exists>n m. snd (alloc_stack sz s) = s\<lparr>NEXT_STACK := n, stack_mem := m\<rparr>"
proof (cases "STACK_REGION_END < NEXT_STACK s + sz")
  case True
  then show ?thesis by (intro exI[of _ "NEXT_STACK s"] exI[of _ "stack_mem s"]) (simp add: alloc_stack_def)
qed (auto simp: alloc_stack_def Let_def)

lemma create_inv:
  assumes inv: "sched_inv s" and room: "NEXT_TASK_ID s < NEXT_TASK_ID s + 1"
  shows "sched_inv (snd (create_kernel_task e nm s))" "sched_inv (snd (create_background_task e nm s))"
    "sched_inv (snd (create_kernel_task_with_priority e nm p s))" "sched_inv (snd (create_user_task e nm s))"
    "sched_inv (snd (create_idle_task e s))"
proof -
  have go: "sched_inv (snd (enqueue_new_task t (s\<lparr>NEXT_TASK_ID := NEXT_TASK_ID s + 1, NEXT_STACK := n, stack_mem := m\<rparr>)))"
    if "tid t = NEXT_TASK_ID s" "tstate t = Ready" for t n m
  proof (rule enqueue_new_task_inv)
    show "sched_inv (s\<lparr>NEXT_TASK_ID := NEXT_TASK_ID s + 1, NEXT_STACK := n, stack_mem := m\<rparr>)"
      using inv_next_id[OF inv room] by (simp add: sched_frame)
    show "tid (store (s\<lparr>NEXT_TASK_ID := NEXT_TASK_ID s + 1, NEXT_STACK := n, stack_mem := m\<rparr>) r) \<noteq> tid t"
      if "r < next_arc (s\<lparr>NEXT_TASK_ID := NEXT_TASK_ID s + 1, NEXT_STACK := n, stack_mem := m\<rparr>)" for r
      using inv that \<open>tid t = NEXT_TASK_ID s\<close> by (auto simp: sched_inv_def sched_core_def)
  qed (use that room in simp_all)
  let ?s0 = "s\<lparr>NEXT_TASK_ID := NEXT_TASK_ID s + 1\<rparr>"
  obtain top n m where a: "alloc_stack TASK_STACK_SIZE ?s0 = (top, ?s0\<lparr>NEXT_STACK := n, stack_mem := m\<rparr>)"
    using alloc_stack_sched[of TASK_STACK_SIZE ?s0] by (metis prod.collapse)
  have nk: "\<exists>t. new_kernel e nm s = (t, ?s0\<lparr>NEXT_STACK := n, stack_mem := m\<rparr>) \<and> tid t = NEXT_TASK_ID s \<and> tstate t = Ready"
    for nm by (simp add: new_kernel_def fetch_task_id_def a)
  show "sched_inv (snd (create_kernel_task e nm s))"
    using nk[of nm] go by (auto simp: create_kernel_task_def)
  show prio: "sched_inv (snd (create_kernel_task_with_priority e nm p s))" for nm p
    using nk[of nm] go by (auto simp: create_kernel_task_with_priority_def new_kernel_with_priority_def)
  show "sched_inv (snd (create_background_task e nm s))"
    using nk[of nm] go by (auto simp: create_background_task_def new_kernel_background_def)
  show "sched_inv (snd (create_idle_task e s))"
    unfolding create_idle_task_def by (rule prio)
  let ?s1 = "?s0\<lparr>NEXT_STACK := n, stack_mem := m\<rparr>"
  obtain top2 n2 m2 where b: "alloc_stack TASK_STACK_SIZE ?s1 = (top2, ?s1\<lparr>NEXT_STACK := n2, stack_mem := m2\<rparr>)"
    using alloc_stack_sched[of TASK_STACK_SIZE ?s1] by (metis prod.collapse)
  have "\<exists>t. new_user e nm s = (t, ?s0\<lparr>NEXT_STACK := n2, stack_mem := m2\<rparr>) \<and> tid t = NEXT_TASK_ID s \<and> tstate t = Ready"
    by (simp add: new_user_def fetch_task_id_def a b)
  then show "sched_inv (snd (create_user_task e nm s))" using go by (auto simp: create_user_task_def)
qed

section \<open>Runs of the scheduler\<close>

text \<open>
  One step is one call of an operation, with any arguments, or the work of the tasks and the
  timer in between: stacks change, the timer counts, and a switch stores the registers of a task.
  A task is created only while the 64-bit identifier counter does not wrap.
\<close>

inductive sched_step :: "Scheduler \<Rightarrow> Scheduler \<Rightarrow> bool" where
  "NEXT_TASK_ID s < NEXT_TASK_ID s + 1 \<Longrightarrow> sched_step s (snd (create_kernel_task e nm s))"
| "NEXT_TASK_ID s < NEXT_TASK_ID s + 1 \<Longrightarrow> sched_step s (snd (create_kernel_task_with_priority e nm p s))"
| "NEXT_TASK_ID s < NEXT_TASK_ID s + 1 \<Longrightarrow> sched_step s (snd (create_background_task e nm s))"
| "NEXT_TASK_ID s < NEXT_TASK_ID s + 1 \<Longrightarrow> sched_step s (snd (create_user_task e nm s))"
| "NEXT_TASK_ID s < NEXT_TASK_ID s + 1 \<Longrightarrow> sched_step s (snd (create_idle_task e s))"
| "sched_step s (fst (tick s))"
| "sched_step s (fst (schedule s))"
| "sched_step s (schedule_resumed s)"
| "sched_step s (snd (preempt_schedule rsp s))"
| "sched_step s (block_current s)"
| "sched_step s (snd (unblock_task i s))"
| "sched_step s (fst (terminate_current c s))"
| "sched_step s (snd (terminate_task i c s))"
| "sched_step s (snd (send_signal i sig s))"
| "sched_step s (snd (background_task i s))"
| "sched_step s (snd (foreground_task i s))"
| "sched_step s (fst (yield_current s))"
| "sched_step s (enable_preemption s)"
| "sched_step s (disable_preemption s)"
| "sched_step s (cleanup_terminated s)"
| "sched_step s (s\<lparr>stack_mem := m, timer_tick_count := n\<rparr>)"
| "sched_step s (upd_task r (\<lambda>t. t\<lparr>regs := g\<rparr>) s)"

inductive sched_reach :: "Scheduler \<Rightarrow> bool" where
  new: "sched_reach (scheduler_new st tasks0 ticks)"
| step: "sched_reach s \<Longrightarrow> sched_step s s' \<Longrightarrow> sched_reach s'"

lemma sched_step_inv:
  assumes "sched_step s s'" "sched_inv s"
  shows "sched_inv s'"
  using assms
proof (induction rule: sched_step.induct)
  case (22 s r g)
  then show ?case by (intro inv_upd) simp_all
qed (simp_all add: create_inv tick_inv schedule_inv preempt_schedule_inv control_inv terminate_task_inv
    cleanup_inv sched_frame)

lemma sched_reach_inv: "sched_reach s \<Longrightarrow> sched_inv s"
proof (induction rule: sched_reach.induct)
  case (new st tasks0 ticks)
  show ?case by (simp add: scheduler_new_def sched_inv_def sched_core_def runs_only_def)
next
  case (step s s')
  then show ?case by (blast intro: sched_step_inv)
qed

section \<open>Round robin\<close>

text \<open>
  The order of service: the current task, then the queue. \<open>rr_uniform\<close>: preemption is on, the tasks of
  the order are distinct, have one priority, and all but the current one are ready.
\<close>

definition rr_order :: "Scheduler \<Rightarrow> arc list" where
  "rr_order s = (case current s of None \<Rightarrow> ready_queue s | Some c \<Rightarrow> c # ready_queue s)"

definition rr_uniform :: "TaskPriority \<Rightarrow> Scheduler \<Rightarrow> bool" where
  "rr_uniform p s \<longleftrightarrow> preempt_enabled s \<and> current s \<noteq> None \<and> distinct (rr_order s) \<and>
     (\<forall>r \<in> set (rr_order s). priority (store s r) = p) \<and>
     (\<forall>r \<in> set (ready_queue s). tstate (store s r) = Ready)"

lemma pick_head:
  assumes "ready_queue s = r # B" "\<forall>q \<in> set (ready_queue s). tstate (store s q) = Ready \<and> priority (store s q) = p"
  shows "pick_next_task s = (Some r, s\<lparr>ready_queue := B\<rparr>)"
proof (cases rule: pick_next_task_cases[of s])
  case (high A r' B')
  have "A = []"
  proof (rule ccontr)
    assume "A \<noteq> []"
    then obtain a where "a \<in> set A" by (cases A) auto
    then show False using high(1,4) assms(2) by auto
  qed
  then show ?thesis using high assms(1) by simp
next
  case (head r' B')
  then show ?thesis using assms(1) by simp
next
  case none
  then show ?thesis using assms by simp
qed

lemma preempt_rotates:
  assumes "rr_uniform p s"
  shows "rr_uniform p (snd (preempt_schedule rsp s)) \<and>
    rr_order (snd (preempt_schedule rsp s)) = rotate1 (rr_order s) \<and>
    (\<forall>q. q \<notin> set (rr_order s) \<longrightarrow> store (snd (preempt_schedule rsp s)) q = store s q)"
proof -
  obtain c where c: "current s = Some c" and en: "preempt_enabled s"
    using assms by (auto simp: rr_uniform_def)
  define s1 where "s1 = preempt_requeue rsp s"
  let ?f = "\<lambda>t. reset_time_slice (t\<lparr>saved_rsp := rsp, tstate := Ready\<rparr>)"
  have q1: "ready_queue s1 = ready_queue s @ [c]" "preempt_enabled s1" "current s1 = Some c"
    and st1: "store s1 r = (if r = c then ?f (store s c) else store s r)" for r
    using c en by (simp_all add: s1_def preempt_requeue_def Let_def)
  have ord: "rr_order s = c # ready_queue s" using c by (simp add: rr_order_def)
  obtain r B where "ready_queue s @ [c] = r # B" by (cases "ready_queue s") auto
  then have rB: "ready_queue s1 = r # B" using q1(1) by simp
  have all: "\<forall>q \<in> set (ready_queue s1). tstate (store s1 q) = Ready \<and> priority (store s1 q) = p"
    using assms q1(1) ord unfolding rr_uniform_def st1 by auto
  have pick: "pick_next_task s1 = (Some r, s1\<lparr>ready_queue := B\<rparr>)" using rB all by (rule pick_head)
  define s2 where "s2 = snd (preempt_schedule rsp s)"
  have s2: "current s2 = Some r" "ready_queue s2 = B" "preempt_enabled s2"
    and st2: "store s2 q = (if q = r then (store s1 r)\<lparr>tstate := Running\<rparr> else store s1 q)" for q
    using en pick q1 by (simp_all add: s2_def preempt_schedule_def s1_def[symmetric] Let_def)
  have rot: "rr_order s2 = rotate1 (rr_order s)"
    using s2 rB q1(1) ord by (simp add: rr_order_def)
  have d: "distinct (r # B)" using assms ord rot s2 by (simp add: rr_uniform_def rr_order_def)
  have "\<forall>q \<in> set (rr_order s2). priority (store s2 q) = p"
    using all rB s2(1,2) by (auto simp: rr_order_def st2)
  moreover have "\<forall>q \<in> set (ready_queue s2). tstate (store s2 q) = Ready"
    using all rB d s2(2) by (auto simp: st2)
  ultimately have "rr_uniform p s2" using s2 d by (simp add: rr_uniform_def rr_order_def)
  moreover have "store s2 q = store s q" if "q \<notin> set (rr_order s)" for q
  proof -
    have "set (rr_order s) = set (r # B)" using rB q1(1) ord by (metis Un_insert_right list.simps(15) rotate1.simps(2) set_rotate1)
    then have "q \<noteq> c" "q \<noteq> r" using that ord by auto
    then show ?thesis by (simp add: st2 st1)
  qed
  ultimately show ?thesis using rot by (simp add: s2_def)
qed

text \<open>The states after a sequence of timer interrupts, each with the stack pointer it saves.\<close>

definition preempts :: "u64 list \<Rightarrow> Scheduler \<Rightarrow> Scheduler" where
  "preempts rsps s = fold (\<lambda>rsp s. snd (preempt_schedule rsp s)) rsps s"

lemma preempts_rotate:
  assumes "rr_uniform p s"
  shows "rr_uniform p (preempts rsps s) \<and> rr_order (preempts rsps s) = rotate (length rsps) (rr_order s)"
proof (induction rsps rule: rev_induct)
  case (snoc rsp rsps)
  have "preempts (rsps @ [rsp]) s = snd (preempt_schedule rsp (preempts rsps s))" by (simp add: preempts_def)
  then show ?case using snoc preempt_rotates[of p "preempts rsps s" rsp] by (simp add: rotate_Suc)
qed (use assms in \<open>simp add: preempts_def\<close>)

section \<open>Properties\<close>

text \<open>
  C5. In every state that the scheduler's operations reach, in any order and with any arguments:
  a task that is running is the current one, so at most one task runs; every ready task is in
  the ready queue, so none is lost; and the tasks have distinct identifiers.
\<close>
theorem scheduler_invariant:
  assumes "sched_reach s"
  shows "(\<forall>r < next_arc s. tstate (store s r) = Running \<longrightarrow> current s = Some r) \<and>
    (\<forall>r \<in> set (all_tasks s). tstate (store s r) = Ready \<longrightarrow> r \<in> set (ready_queue s)) \<and>
    distinct (map (\<lambda>r. tid (store s r)) (all_tasks s))"
proof -
  have inv: "sched_inv s" using assms by (rule sched_reach_inv)
  have core: "sched_core s" and runs: "runs_only (current s) s" using inv by (auto simp: sched_inv_def)
  have "inj_on (\<lambda>r. tid (store s r)) (set (all_tasks s))"
    using core inj_on_subset coreD(2)[OF core] by (metis sched_core_def)
  then have "distinct (map (\<lambda>r. tid (store s r)) (all_tasks s))"
    using coreD(5)[OF core] by (simp add: distinct_map)
  then show ?thesis using coreD(3)[OF core] runs_onlyD(1)[OF runs] by blast
qed

definition demo_sched :: Scheduler where
  "demo_sched = scheduler_new demo_statics (\<lambda>_. fst (new_kernel 0 [] demo_statics)) 0"

lemma demo_reach: "sched_reach (fst (yield_current (snd (create_kernel_task 0x101000 ''init'' demo_sched))))"
proof -
  have "sched_reach demo_sched" unfolding demo_sched_def by (rule sched_reach.new)
  moreover have "NEXT_TASK_ID demo_sched < NEXT_TASK_ID demo_sched + 1"
    by (simp add: demo_sched_def scheduler_new_def demo_statics_def)
  ultimately have "sched_reach (snd (create_kernel_task 0x101000 ''init'' demo_sched))"
    by (blast intro: sched_reach.step sched_step.intros)
  then show ?thesis by (blast intro: sched_reach.step sched_step.intros)
qed

theorem scheduler_invariant_witness:
  "\<exists>s. s = fst (yield_current (snd (create_kernel_task 0x101000 ''init'' demo_sched))) \<and> sched_reach s \<and>
     distinct (map (\<lambda>r. tid (store s r)) (all_tasks s))"
  using scheduler_invariant[OF demo_reach] demo_reach by blast

text \<open>
  C34. \<open>pick_next_task\<close> takes the first of the ready tasks with the greatest priority: what it returns is
  ready, no ready task in the queue has a greater priority, every ready task before it has a smaller one,
  and exactly this entry leaves the queue. It returns a task whenever a ready task above the lowest priority is queued.
\<close>
theorem pick_next_task_best:
  "case pick_next_task s of
     (Some r, s') \<Rightarrow> \<exists>A B. ready_queue s = A @ r # B \<and> s' = s\<lparr>ready_queue := A @ B\<rparr> \<and>
       tstate (store s r) = Ready \<and>
       (\<forall>q \<in> set A. tstate (store s q) = Ready \<longrightarrow> priority (store s q) < priority (store s r)) \<and>
       (\<forall>q \<in> set B. tstate (store s q) = Ready \<longrightarrow> priority (store s q) \<le> priority (store s r))
   | (None, s') \<Rightarrow> s' = s \<and>
       (\<forall>q \<in> set (ready_queue s). tstate (store s q) = Ready \<longrightarrow> priority (store s q) = Low)"
proof (cases rule: pick_next_task_cases[of s])
  case (high A r B)
  then show ?thesis by auto
next
  case (head r B)
  then have "\<exists>A B'. ready_queue s = A @ r # B' \<and> s\<lparr>ready_queue := B\<rparr> = s\<lparr>ready_queue := A @ B'\<rparr> \<and>
       tstate (store s r) = Ready \<and>
       (\<forall>q \<in> set A. tstate (store s q) = Ready \<longrightarrow> priority (store s q) < priority (store s r)) \<and>
       (\<forall>q \<in> set B'. tstate (store s q) = Ready \<longrightarrow> priority (store s q) \<le> priority (store s r))"
    by (intro exI[of _ "[]"] exI[of _ B]) auto
  then show ?thesis using head(4) by simp
next
  case none
  then show ?thesis by simp
qed


text \<open>Two tasks of normal priority, the first of them running.\<close>

definition demo_pair :: Scheduler where
  "demo_pair = demo_sched\<lparr>ready_queue := [1], current := Some 0, all_tasks := [0, 1], next_arc := 2, preempt_enabled := True,
     store := (\<lambda>r. (fst (new_kernel 0 [] demo_statics))\<lparr>tid := word_of_nat (Suc r), tstate := (if r = 0 then Running else Ready)\<rparr>)\<rparr>"

theorem pick_next_task_best_witness:
  "tstate (store demo_pair 1) = Ready \<and> pick_next_task demo_pair = (Some 1, demo_pair\<lparr>ready_queue := []\<rparr>)"
proof -
  have q: "ready_queue demo_pair = [1]" and r: "tstate (store demo_pair 1) = Ready" and n: "priority (store demo_pair 1) = Normal"
    by (simp_all add: demo_pair_def new_kernel_def fetch_task_id_def split: prod.split)
  obtain x s' where p: "pick_next_task demo_pair = (x, s')" by fastforce
  show ?thesis using pick_next_task_best[of demo_pair] unfolding p q
    by (cases x) (use q r n p in \<open>auto simp: Cons_eq_append_conv simp del: One_nat_def\<close>)
qed


text \<open>One tick inside a quantum.\<close>

definition quantum_left :: "arc \<Rightarrow> nat \<Rightarrow> Scheduler \<Rightarrow> bool" where
  "quantum_left r n s \<longleftrightarrow> preempt_enabled s \<and> current s = Some r \<and> \<not> need_reschedule s \<and>
     tstate (store s r) = Running \<and> pending_signals (store s r) = 0 \<and> unat (time_slice (store s r)) = n"

lemma tick_in_quantum:
  assumes q: "quantum_left r (Suc n) s" and n: "0 < n"
  shows "quantum_left r n (fst (tick s)) \<and> snd (tick s) = None \<and> ready_queue (fst (tick s)) = ready_queue s \<and>
    total_cpu_ticks (store (fst (tick s)) r) = total_cpu_ticks (store s r) + 1"
proof -
  let ?t = "store s r"
  have ts: "unat (time_slice ?t) = Suc n" using q by (simp add: quantum_left_def)
  then have pos: "0 < time_slice ?t" by (metis Zero_not_Suc unat_0 word_neq_0_conv)
  have dec: "unat (time_slice ?t - 1) = n" using ts by (metis diff_Suc_1 One_nat_def unat_minus_one unat_0 nat.distinct(1))
  then have nz: "time_slice ?t - 1 \<noteq> 0" using n by (metis unat_0 less_numeral_extra(3))
  have sig: "tick_signal ?t = (?t, False)" using q by (simp add: tick_signal_def quantum_left_def)
  show ?thesis
    using q pos nz dec unfolding tick_def Let_def quantum_left_def by (simp add: sig)
qed

text \<open>
  A running task without pending signals keeps the processor for its whole quantum: with
  \<open>n\<close> ticks left, each of the next \<open>k < n\<close> calls of \<open>tick\<close> leaves it current and running, takes one tick from the slice and adds one
  to its processor time, and none asks for a switch.
\<close>
theorem tick_quantum:
  assumes "quantum_left r n s" "k < n"
  shows "quantum_left r (n - k) (((\<lambda>s. fst (tick s)) ^^ k) s) \<and>
    total_cpu_ticks (store (((\<lambda>s. fst (tick s)) ^^ k) s) r) = total_cpu_ticks (store s r) + word_of_nat k"
  using assms(2)
proof (induction k)
  case (Suc k)
  let ?s = "((\<lambda>s. fst (tick s)) ^^ k) s"
  have IH: "quantum_left r (Suc (n - Suc k)) ?s"
    "total_cpu_ticks (store ?s r) = total_cpu_ticks (store s r) + word_of_nat k"
    using Suc by (simp_all add: Suc_diff_Suc)
  have "0 < n - Suc k" using Suc.prems by simp
  then show ?case using tick_in_quantum[OF IH(1)] IH(2) by (simp add: algebra_simps)
qed (use assms(1) in simp)

theorem tick_quantum_witness:
  "quantum_left 0 10 demo_pair \<and> quantum_left 0 1 (((\<lambda>s. fst (tick s)) ^^ 9) demo_pair)"
proof -
  have "quantum_left 0 10 demo_pair"
    by (simp add: quantum_left_def demo_pair_def demo_sched_def scheduler_new_def new_kernel_def fetch_task_id_def
        DEFAULT_TIME_SLICE_def split: prod.split)
  then show ?thesis using tick_quantum[of 0 10 demo_pair 9] by simp
qed

section \<open>Limits of the scheduler\<close>

text \<open>\<open>preempt_schedule\<close> makes the current task ready whatever its state: a task that was terminated
  or blocked runs again.\<close>

lemma preempt_revives:
  assumes "preempt_enabled s" "current s = Some r" "ready_queue s = []" "tstate (store s r) = Terminated"
  shows "current (snd (preempt_schedule rsp s)) = Some r"
    "tstate (store (snd (preempt_schedule rsp s)) r) = Running"
proof -
  let ?f = "\<lambda>t. reset_time_slice (t\<lparr>saved_rsp := rsp, tstate := Ready\<rparr>)"
  let ?s1 = "(upd_task r ?f s)\<lparr>ready_queue := [r]\<rparr>"
  have s1: "preempt_requeue rsp s = ?s1" using assms by (simp add: preempt_requeue_def Let_def)
  have "pick_next_task ?s1 = (Some r, ?s1\<lparr>ready_queue := []\<rparr>)"
    by (rule pick_head[where p = "priority (store s r)"]) simp_all
  then show "current (snd (preempt_schedule rsp s)) = Some r"
    "tstate (store (snd (preempt_schedule rsp s)) r) = Running"
    using assms(1) by (simp_all add: preempt_schedule_def s1 Let_def)
qed

text \<open>\<open>foreground_task\<close> tests for a stopped task after it has overwritten the field: it never resumes one.\<close>

lemma foreground_never_resumes:
  assumes "foreground_task i s = (Ok (), s')"
  shows "ready_queue s' = ready_queue s" "tstate (store s' r) = tstate (store s r)"
  using assms by (auto simp: foreground_task_def Let_def split: option.splits if_splits)

text \<open>With a task at the head that is not ready, a ready task of the lowest priority is not found.\<close>

lemma pick_misses_low:
  assumes "ready_queue s = [b, a]" "tstate (store s b) = Terminated" "tstate (store s a) = Ready" "priority (store s a) = Low"
  shows "pick_next_task s = (None, s)"
  using assms by (simp add: pick_next_task_def less_TaskPriority_def)

text \<open>A stopped task that was unblocked is queued a second time by \<open>background_task\<close>.\<close>

lemma background_duplicates:
  assumes "find (\<lambda>r. tid (store s r) = i) (all_tasks s) = Some r" "foreground (store s r) = Stopped"
    and "r \<in> set (ready_queue s)"
  shows "count_list (ready_queue (snd (background_task i s))) r = count_list (ready_queue s) r + 1"
  using assms by (simp add: background_task_def Let_def)

end
