(* ===== verification/Context.thy ===== *)
theory Context
  imports Scheduler
begin

text \<open>
  The assembly of the scheduler (\<open>src/src/sched/context_switch.asm\<close>): the cooperative switch
  \<open>context_switch\<close>, the stack switch \<open>preempt_switch\<close>, and the entry and exit sequences of
  \<open>timer_isr\<close>. The hardware part of an interrupt (aligning the stack to 16 bytes and pushing
  \<open>SS\<close>, \<open>RSP\<close>, \<open>RFLAGS\<close>, \<open>CS\<close>, \<open>RIP\<close>) and of \<open>iretq\<close> is that of 64-bit mode.
\<close>

section \<open>Registers\<close>

record Cpu =
  c_rax :: u64
  c_rbx :: u64
  c_rcx :: u64
  c_rdx :: u64
  c_rsi :: u64
  c_rdi :: u64
  c_rbp :: u64
  c_r8 :: u64
  c_r9 :: u64
  c_r10 :: u64
  c_r11 :: u64
  c_r12 :: u64
  c_r13 :: u64
  c_r14 :: u64
  c_r15 :: u64
  c_ds :: u16
  c_rip :: u64
  c_cs :: u16
  c_rflags :: u64
  c_rsp :: u64
  c_ss :: u16

section \<open>The timer interrupt\<close>

definition hardware_words :: "Cpu \<Rightarrow> u64 list" where
  "hardware_words c = [ucast (c_ss c), c_rsp c, c_rflags c, ucast (c_cs c), c_rip c]"

definition timer_isr_pushes :: "Cpu \<Rightarrow> u64 list" where
  "timer_isr_pushes c =
     [c_rax c, c_rbx c, c_rcx c, c_rdx c, c_rsi c, c_rdi c, c_rbp c, c_r8 c, c_r9 c, c_r10 c,
      c_r11 c, c_r12 c, c_r13 c, c_r14 c, c_r15 c, ucast (c_ds c)]"

text \<open>From the interrupt to the call of \<open>rust_timer_handler\<close>: the value passed in \<open>RDI\<close> and the memory.\<close>

definition timer_isr_enter :: "Cpu \<Rightarrow> (u64 \<Rightarrow> u64) \<Rightarrow> u64 \<times> (u64 \<Rightarrow> u64)" where
  "timer_isr_enter c m = fold push (hardware_words c @ timer_isr_pushes c) (c_rsp c AND NOT 0xF, m)"

text \<open>From the return of the handler, whose result is the new stack pointer, to the end of \<open>iretq\<close>.\<close>

definition timer_isr_exit :: "u64 \<Rightarrow> (u64 \<Rightarrow> u64) \<Rightarrow> Cpu" where
  "timer_isr_exit rax m =
     (let w = stack_words 21 rax m in
      \<lparr>c_rax = w ! 15, c_rbx = w ! 14, c_rcx = w ! 13, c_rdx = w ! 12, c_rsi = w ! 11, c_rdi = w ! 10,
       c_rbp = w ! 9, c_r8 = w ! 8, c_r9 = w ! 7, c_r10 = w ! 6, c_r11 = w ! 5, c_r12 = w ! 4,
       c_r13 = w ! 3, c_r14 = w ! 2, c_r15 = w ! 1, c_ds = ucast (w ! 0), c_rip = w ! 16,
       c_cs = ucast (w ! 17), c_rflags = w ! 18, c_rsp = w ! 19, c_ss = ucast (w ! 20)\<rparr>)"

section \<open>The cooperative switch\<close>

text \<open>
  \<open>context_switch\<close> is called with a return address on the stack. It gives the registers saved
  in the area of the current task and the state after its \<open>ret\<close>.
\<close>

definition saved_of :: "Cpu \<Rightarrow> SavedRegisters" where
  "saved_of c =
     \<lparr>reg_rbx = c_rbx c, reg_rbp = c_rbp c, reg_r12 = c_r12 c, reg_r13 = c_r13 c, reg_r14 = c_r14 c,
      reg_r15 = c_r15 c, reg_rsp = c_rsp c\<rparr>"

definition context_switch :: "SavedRegisters \<Rightarrow> (u64 \<Rightarrow> u64) \<Rightarrow> Cpu \<Rightarrow> SavedRegisters \<times> Cpu" where
  "context_switch nxt m c =
     (saved_of c,
      c\<lparr>c_rbx := reg_rbx nxt, c_rbp := reg_rbp nxt, c_r12 := reg_r12 nxt, c_r13 := reg_r13 nxt,
        c_r14 := reg_r14 nxt, c_r15 := reg_r15 nxt, c_rsp := reg_rsp nxt + 8, c_rip := m (reg_rsp nxt)\<rparr>)"

text \<open>\<open>preempt_switch\<close>: the saved stack pointer and the state after \<open>ret\<close> on the new stack.\<close>

definition preempt_switch :: "u64 \<Rightarrow> (u64 \<Rightarrow> u64) \<Rightarrow> Cpu \<Rightarrow> u64 \<times> Cpu" where
  "preempt_switch next_rsp m c = (c_rsp c, c\<lparr>c_rsp := next_rsp + 8, c_rip := m next_rsp\<rparr>)"

text \<open>
  \<open>do_context_switch\<close>: the area of the current task, or the static \<open>DUMMY_REGS\<close> when there is none,
  receives the registers; those of the next task are loaded.
\<close>

definition do_context_switch ::
  "arc option \<Rightarrow> arc \<Rightarrow> Scheduler \<times> SavedRegisters \<times> Cpu \<Rightarrow> Scheduler \<times> SavedRegisters \<times> Cpu" where
  "do_context_switch cur nxt = (\<lambda>(s, dummy_regs, cpu).
     let (area, cpu') = context_switch (regs (store s nxt)) (stack_mem s) cpu in
     case cur of
       Some r \<Rightarrow> (upd_task r (\<lambda>t. t\<lparr>regs := area\<rparr>) s, dummy_regs, cpu')
     | None \<Rightarrow> (s, area, cpu'))"

section \<open>Properties\<close>

lemma ucast_back [simp]: "ucast (ucast (w :: u16) :: u64) = w"
  by (rule bit_word_eqI) (simp add: bit_unsigned_iff)

lemma timer_enter_words:
  assumes "timer_isr_enter c m = (rsp, m')"
  shows "stack_words 21 rsp m' = rev (hardware_words c @ timer_isr_pushes c)"
proof -
  have "length (hardware_words c @ timer_isr_pushes c) = 21"
    by (simp add: hardware_words_def timer_isr_pushes_def)
  then show ?thesis
    using stack_words_push[of "hardware_words c @ timer_isr_pushes c"] assms
    by (simp add: timer_isr_enter_def)
qed


definition demo_cpu :: Cpu where
  "demo_cpu =
     \<lparr>c_rax = 1, c_rbx = 2, c_rcx = 3, c_rdx = 4, c_rsi = 5, c_rdi = 6, c_rbp = 7, c_r8 = 8, c_r9 = 9,
      c_r10 = 10, c_r11 = 11, c_r12 = 12, c_r13 = 13, c_r14 = 14, c_r15 = 15, c_ds = 0x10,
      c_rip = 0x101000, c_cs = 0x08, c_rflags = 0x202, c_rsp = 0xA10000, c_ss = 0x10\<rparr>"


text \<open>
  The cooperative switch resumes its caller: after a switch away that saved into an area and a
  later switch back to that area, with the return address of the first call still on the stack, the callee-saved registers and
  the stack pointer have their old values and execution continues at that return address.
\<close>
theorem context_switch_resumes:
  assumes "context_switch nxt m c = (area, c1)" "context_switch area m2 c2 = (area2, c3)"
    and "m2 (c_rsp c) = ret_addr"
  shows "c_rip c3 = ret_addr \<and> c_rsp c3 = c_rsp c + 8 \<and>
    saved_of (c3\<lparr>c_rsp := c_rsp c\<rparr>) = saved_of c"
  using assms by (auto simp: context_switch_def saved_of_def)

theorem context_switch_resumes_witness:
  "\<exists>area c1 area2 c3. context_switch saved_registers_default (\<lambda>_. 0) demo_cpu = (area, c1) \<and>
     context_switch area (\<lambda>_. 0x101234) c1 = (area2, c3) \<and> c_rip c3 = 0x101234 \<and> c_rbx c3 = 2"
proof -
  obtain area c1 where a: "context_switch saved_registers_default (\<lambda>_. 0) demo_cpu = (area, c1)" by (rule prod.exhaust)
  obtain area2 c3 where b: "context_switch area (\<lambda>_. 0x101234) c1 = (area2, c3)" by (rule prod.exhaust)
  have "c_rip c3 = 0x101234" "saved_of (c3\<lparr>c_rsp := c_rsp demo_cpu\<rparr>) = saved_of demo_cpu"
    using context_switch_resumes[OF a b refl] by auto
  moreover from this(2) have "c_rbx c3 = 2" by (simp add: saved_of_def demo_cpu_def)
  ultimately show ?thesis using a b by blast
qed

text \<open>
  Two tasks that switch to each other with \<open>do_context_switch\<close> keep their registers: after task \<open>a\<close> switched to
  \<open>b\<close> and \<open>b\<close> back to \<open>a\<close>, with the return address of \<open>a\<close> unchanged on its stack, \<open>a\<close> continues behind its call with the
  callee-saved registers it had, and only the saved registers of \<open>a\<close> and \<open>b\<close> changed in the store.
\<close>
theorem do_context_switch_pingpong:
  assumes "a \<noteq> b"
    and "do_context_switch (Some a) b (s, d, cpu) = (s1, d1, cpu1)"
    and "do_context_switch (Some b) a (s1\<lparr>stack_mem := m\<rparr>, d1, cpu2) = (s2, d2, cpu3)"
    and "m (c_rsp cpu) = ret_addr"
  shows "c_rip cpu3 = ret_addr \<and> saved_of (cpu3\<lparr>c_rsp := c_rsp cpu\<rparr>) = saved_of cpu \<and>
    (\<forall>r. (store s2 r)\<lparr>regs := regs (store s r)\<rparr> = store s r) \<and> (\<forall>r. r \<noteq> a \<and> r \<noteq> b \<longrightarrow> store s2 r = store s r)"
  using assms by (auto simp: do_context_switch_def context_switch_def saved_of_def)

theorem do_context_switch_pingpong_witness:
  "\<exists>s1 d1 cpu1 s2 d2 cpu3.
     do_context_switch (Some 0) 1 (demo_pair, saved_registers_default, demo_cpu) = (s1, d1, cpu1) \<and>
     do_context_switch (Some 1) 0 (s1\<lparr>stack_mem := (\<lambda>_. 0x101234)\<rparr>, d1, cpu1) = (s2, d2, cpu3) \<and> c_rip cpu3 = 0x101234"
proof -
  obtain s1 d1 cpu1 where a: "do_context_switch (Some 0) 1 (demo_pair, saved_registers_default, demo_cpu) = (s1, d1, cpu1)"
    by (rule prod_cases3)
  obtain s2 d2 cpu3 where b: "do_context_switch (Some 1) 0 (s1\<lparr>stack_mem := (\<lambda>_. 0x101234)\<rparr>, d1, cpu1) = (s2, d2, cpu3)"
    by (rule prod_cases3)
  show ?thesis using do_context_switch_pingpong[OF _ a b refl] a b by auto
qed

section \<open>The first switch to a task\<close>

text \<open>
  The frame that \<open>setup_initial_stack\<close> builds is not the one that \<open>timer_isr\<close> pops: the stub has
  \<open>DS\<close> at the lowest address and no vector and error code. The first timer switch to a new task
  therefore loads the vector 0x20 as \<open>RIP\<close>, the error code 0 as \<open>CS\<close> and the entry point as
  \<open>RFLAGS\<close>.
\<close>

lemma first_timer_switch:
  assumes "setup_initial_stack t s = (t', s')"
  shows "c_rip (timer_isr_exit (saved_rsp t') (stack_mem s')) = 0x20"
    "c_cs (timer_isr_exit (saved_rsp t') (stack_mem s')) = 0"
    "c_rflags (timer_isr_exit (saved_rsp t') (stack_mem s')) = entry_point t"
    "c_rsp (timer_isr_exit (saved_rsp t') (stack_mem s')) = 0x08"
proof -
  have "stack_words 21 (saved_rsp t') (stack_mem s') = take 21 (stack_words 23 (saved_rsp t') (stack_mem s'))"
    by (simp add: stack_words_def take_map)
  also have "\<dots> = replicate 15 0 @ [0x10, 0x20, 0, entry_point t, 0x08, 0x202]"
    unfolding setup_initial_stack_words(3)[OF assms] by simp
  finally have w: "stack_words 21 (saved_rsp t') (stack_mem s') =
      replicate 15 0 @ [0x10, 0x20, 0, entry_point t, 0x08, 0x202]" .
  show "c_rip (timer_isr_exit (saved_rsp t') (stack_mem s')) = 0x20"
    "c_cs (timer_isr_exit (saved_rsp t') (stack_mem s')) = 0"
    "c_rflags (timer_isr_exit (saved_rsp t') (stack_mem s')) = entry_point t"
    "c_rsp (timer_isr_exit (saved_rsp t') (stack_mem s')) = 0x08"
    unfolding timer_isr_exit_def w by (simp_all add: nth_append Let_def numeral_eq_Suc)
qed

text \<open>The first cooperative switch returns to address 0, the lowest word of that frame.\<close>

lemma first_context_switch:
  assumes "setup_initial_stack t s = (t', s')"
  shows "c_rip (snd (context_switch (regs t') (stack_mem s') c)) = 0"
proof -
  have "stack_words 23 (saved_rsp t') (stack_mem s') ! 0 = 0"
    unfolding setup_initial_stack_words(3)[OF assms] by (simp add: nth_append)
  then have "stack_mem s' (saved_rsp t') = 0" by (simp add: stack_words_def)
  then show ?thesis using setup_initial_stack_words(1,2)[OF assms] by (simp add: context_switch_def)
qed

end
