(* ===== verification/Devices.thy ===== *)
theory Devices
  imports Prelude
begin

text \<open>
  The hardware behind I/O ports and memory-mapped registers. A driver is a function on the sequence of
  accesses made so far; what a read returns is a parameter, a function of this sequence, because it is decided by the
  device. Waiting for a device is a loop that may not end: then there is no result.
\<close>

section \<open>Accesses\<close>

datatype io_event =
    Out8 u16 u8
  | In8 u16 u8
  | Write32 usize u32
  | Read32 usize u32
  | Write64 usize u64
  | Read64 usize u64

type_synonym io = "io_event list"

record hardware =
  port_value :: "io \<Rightarrow> u16 \<Rightarrow> u8"
  reg32_value :: "io \<Rightarrow> usize \<Rightarrow> u32"
  reg64_value :: "io \<Rightarrow> usize \<Rightarrow> u64"

definition outb :: "u16 \<Rightarrow> u8 \<Rightarrow> io \<Rightarrow> io" where
  "outb port v io = io @ [Out8 port v]"

definition inb :: "hardware \<Rightarrow> u16 \<Rightarrow> io \<Rightarrow> u8 \<times> io" where
  "inb hw port io = (let v = port_value hw io port in (v, io @ [In8 port v]))"

definition write_volatile32 :: "usize \<Rightarrow> u32 \<Rightarrow> io \<Rightarrow> io" where
  "write_volatile32 addr v io = io @ [Write32 addr v]"

definition read_volatile32 :: "hardware \<Rightarrow> usize \<Rightarrow> io \<Rightarrow> u32 \<times> io" where
  "read_volatile32 hw addr io = (let v = reg32_value hw io addr in (v, io @ [Read32 addr v]))"

definition write_volatile64 :: "usize \<Rightarrow> u64 \<Rightarrow> io \<Rightarrow> io" where
  "write_volatile64 addr v io = io @ [Write64 addr v]"

definition read_volatile64 :: "hardware \<Rightarrow> usize \<Rightarrow> io \<Rightarrow> u64 \<times> io" where
  "read_volatile64 hw addr io = (let v = reg64_value hw io addr in (v, io @ [Read64 addr v]))"

fun outs :: "(u16 \<times> u8) list \<Rightarrow> io \<Rightarrow> io" where
  "outs [] io = io"
| "outs ((port, v) # ps) io = outs ps (outb port v io)"

lemma outs_eq: "outs ps io = io @ map (\<lambda>(port, v). Out8 port v) ps"
  by (induction ps arbitrary: io) (auto simp: outb_def)

section \<open>Waiting\<close>

text \<open>\<open>while (inb(port) & mask) == 0 {}\<close>\<close>

partial_function (option) wait_port :: "hardware \<Rightarrow> u16 \<Rightarrow> u8 \<Rightarrow> io \<Rightarrow> io option" where
  "wait_port hw port msk io =
     (let (v, io') = inb hw port io in if v AND msk = 0 then wait_port hw port msk io' else Some io')"

text \<open>The accesses after polling a port \<open>n\<close> times.\<close>

primrec polled :: "hardware \<Rightarrow> u16 \<Rightarrow> nat \<Rightarrow> io \<Rightarrow> io" where
  "polled hw port 0 io = io"
| "polled hw port (Suc n) io = polled hw port n (snd (inb hw port io))"

definition device_answers :: "hardware \<Rightarrow> u16 \<Rightarrow> u8 \<Rightarrow> io \<Rightarrow> bool" where
  "device_answers hw port msk io \<longleftrightarrow> (\<exists>n. port_value hw (polled hw port n io) port AND msk \<noteq> 0)"

lemma polled_Suc: "polled hw port (Suc n) io = snd (inb hw port (polled hw port n io))"
  by (induction n arbitrary: io) auto

lemma wait_port_polls:
  assumes "\<forall>k < n. port_value hw (polled hw port k io) port AND msk = 0"
    and "port_value hw (polled hw port n io) port AND msk \<noteq> 0"
  shows "wait_port hw port msk io = Some (polled hw port (Suc n) io)"
  using assms
proof (induction n arbitrary: io)
  case 0
  then show ?case by (subst wait_port.simps) (simp add: inb_def Let_def)
next
  case (Suc n)
  let ?io = "snd (inb hw port io)"
  have "port_value hw (polled hw port 0 io) port AND msk = 0" using Suc.prems(1) by blast
  then have z: "port_value hw io port AND msk = 0" by simp
  have "\<forall>k < n. port_value hw (polled hw port k ?io) port AND msk = 0"
    using Suc.prems(1) by (metis Suc_mono polled.simps(2))
  then have "wait_port hw port msk ?io = Some (polled hw port (Suc n) ?io)"
    using Suc.prems(2) by (intro Suc.IH) simp_all
  then show ?case using z by (subst wait_port.simps) (simp add: inb_def Let_def)
qed

text \<open>Waiting ends exactly when the device answers at some time.\<close>

lemma wait_port_returns:
  assumes "device_answers hw port msk io"
  obtains n where "wait_port hw port msk io = Some (polled hw port (Suc n) io)"
    "\<forall>k < n. port_value hw (polled hw port k io) port AND msk = 0"
    "port_value hw (polled hw port n io) port AND msk \<noteq> 0"
proof -
  define n where "n = (LEAST n. port_value hw (polled hw port n io) port AND msk \<noteq> 0)"
  have "port_value hw (polled hw port n io) port AND msk \<noteq> 0"
    using assms unfolding n_def device_answers_def by (rule LeastI_ex)
  moreover have "\<forall>k < n. port_value hw (polled hw port k io) port AND msk = 0"
    unfolding n_def using not_less_Least by blast
  ultimately show thesis using that wait_port_polls by blast
qed

lemma wait_port_Some:
  assumes "wait_port hw port msk io = Some io'"
  shows "\<exists>n. io' = polled hw port (Suc n) io \<and> port_value hw (polled hw port n io) port AND msk \<noteq> 0"
proof (rule wait_port.raw_induct[OF _ assms, of "\<lambda>hw port msk io io'.
    \<exists>n. io' = polled hw port (Suc n) io \<and> port_value hw (polled hw port n io) port AND msk \<noteq> 0"])
  fix f hw port msk io r
  assume IH: "\<And>hw port msk io r. f hw port msk io = Some r \<Longrightarrow>
      \<exists>n. r = polled hw port (Suc n) io \<and> port_value hw (polled hw port n io) port AND msk \<noteq> 0"
    and eq: "(let (v, io') = inb hw port io in if v AND msk = 0 then f hw port msk io' else Some io') = Some r"
  show "\<exists>n. r = polled hw port (Suc n) io \<and> port_value hw (polled hw port n io) port AND msk \<noteq> 0"
  proof (cases "port_value hw io port AND msk = 0")
    case True
    then have "f hw port msk (snd (inb hw port io)) = Some r" using eq by (simp add: inb_def Let_def)
    from IH[OF this] show ?thesis by (metis polled.simps(2))
  next
    case False
    then have "r = polled hw port (Suc 0) io" using eq by (simp add: inb_def Let_def)
    then show ?thesis using False by (intro exI[of _ 0]) simp
  qed
qed

lemma wait_port_iff: "(\<exists>io'. wait_port hw port msk io = Some io') \<longleftrightarrow> device_answers hw port msk io"
  using wait_port_Some wait_port_returns unfolding device_answers_def by metis

lemma polled_events: "\<exists>rs. polled hw port n io = io @ rs \<and> (\<forall>e \<in> set rs. \<exists>v. e = In8 port v)"
proof (induction n arbitrary: io)
  case (Suc n)
  then obtain rs where "polled hw port n (snd (inb hw port io)) = snd (inb hw port io) @ rs" "\<forall>e \<in> set rs. \<exists>v. e = In8 port v" by blast
  then show ?case by (intro exI[of _ "In8 port (port_value hw io port) # rs"]) (auto simp: inb_def Let_def)
qed simp

lemma wait_port_events:
  "wait_port hw port msk io = Some io' \<Longrightarrow> \<exists>rs. io' = io @ rs \<and> (\<forall>e \<in> set rs. \<exists>v. e = In8 port v)"
  using wait_port_Some[of hw port msk io io'] polled_events[of hw port _ io] by metis

end
