(* ===== verification/Console.thy ===== *)
theory Console
  imports Devices
begin

text \<open>
  The console of \<open>src/src/lib.rs\<close>: the VGA text buffer with its cursor, and the serial port to which every
  message is copied. The text buffer is a function from cell numbers to cells, so that a write outside the
  2000 cells of the screen would be visible.
\<close>

section \<open>Text buffer\<close>

definition VGA_W :: usize where "VGA_W = 80"
definition VGA_H :: usize where "VGA_H = 25"

record Console =
  vga_buf :: "nat \<Rightarrow> u16"
  vga_row :: usize
  vga_col :: usize
  vga_color :: u8

definition BLANK :: u16 where "BLANK = 0x0F20"

definition copy_cell :: "nat \<Rightarrow> nat \<Rightarrow> (nat \<Rightarrow> u16) \<Rightarrow> nat \<Rightarrow> u16" where
  "copy_cell src dst buf = buf(dst := buf src)"

definition scroll_row :: "nat \<Rightarrow> (nat \<Rightarrow> u16) \<Rightarrow> nat \<Rightarrow> u16" where
  "scroll_row row = fold (\<lambda>col. copy_cell (row * VGA_W + col) ((row - 1) * VGA_W + col)) [0..<VGA_W]"

definition vga_scroll :: "(nat \<Rightarrow> u16) \<Rightarrow> nat \<Rightarrow> u16" where
  "vga_scroll buf =
     fold (\<lambda>col buf. buf((VGA_H - 1) * VGA_W + col := BLANK)) [0..<VGA_W] (fold scroll_row [1..<VGA_H] buf)"

definition vga_put :: "u8 \<Rightarrow> Console \<Rightarrow> Console" where
  "vga_put byte c =
     (if byte = 0x0A then c\<lparr>vga_row := vga_row c + 1, vga_col := 0\<rparr>
      else let offset = vga_row c * VGA_W + vga_col c;
               c1 = c\<lparr>vga_buf := (vga_buf c)(offset := ucast byte OR push_bit 8 (ucast (vga_color c))),
                      vga_col := vga_col c + 1\<rparr>
           in if vga_col c1 \<ge> VGA_W then c1\<lparr>vga_col := 0, vga_row := vga_row c1 + 1\<rparr> else c1)"

definition vga_byte :: "u8 \<Rightarrow> Console \<Rightarrow> Console" where
  "vga_byte byte c =
     (let c1 = vga_put byte c in
      if vga_row c1 \<ge> VGA_H
      then c1\<lparr>vga_buf := vga_scroll (vga_buf c1), vga_row := VGA_H - 1, vga_col := 0\<rparr>
      else c1)"

definition vga_set_color :: "u8 \<Rightarrow> u8 \<Rightarrow> Console \<Rightarrow> Console" where
  "vga_set_color fg bg c = c\<lparr>vga_color := push_bit 4 bg OR fg\<rparr>"

definition vga_clear :: "Console \<Rightarrow> Console" where
  "vga_clear c =
     c\<lparr>vga_buf := fold (\<lambda>i buf. buf(i := BLANK)) [0..<VGA_W * VGA_H] (vga_buf c), vga_row := 0, vga_col := 0\<rparr>"

section \<open>Serial port\<close>

definition COM1 :: u16 where "COM1 = 0x3F8"

definition serial_init :: "io \<Rightarrow> io" where
  "serial_init =
     outs [(COM1 + 1, 0x00), (COM1 + 3, 0x80), (COM1, 0x03), (COM1 + 1, 0x00), (COM1 + 3, 0x03),
           (COM1 + 2, 0xC7), (COM1 + 4, 0x0B)]"

fun serial_print :: "hardware \<Rightarrow> u8 list \<Rightarrow> io \<Rightarrow> io option" where
  "serial_print hw [] io = Some io"
| "serial_print hw (byte # msg) io =
     (case wait_port hw (COM1 + 5) 0x20 io of
        None \<Rightarrow> None
      | Some io' \<Rightarrow> serial_print hw msg (outb COM1 byte io'))"

definition vga_print :: "hardware \<Rightarrow> u8 list \<Rightarrow> Console \<times> io \<Rightarrow> (Console \<times> io) option" where
  "vga_print hw msg = (\<lambda>(c, io). map_option (Pair (fold vga_byte msg c)) (serial_print hw msg io))"

definition vga_print_char :: "hardware \<Rightarrow> u8 \<Rightarrow> Console \<times> io \<Rightarrow> (Console \<times> io) option" where
  "vga_print_char hw byte = vga_print hw [byte]"

section \<open>A terminal\<close>

text \<open>The abstract view: 25 lines of 80 cells, where a full screen drops its first line.\<close>

record terminal =
  screen_lines :: "u16 list list"
  line :: nat
  column :: nat
  color :: u8

definition terminal_wf :: "terminal \<Rightarrow> bool" where
  "terminal_wf t \<longleftrightarrow> length (screen_lines t) = 25 \<and> (\<forall>l \<in> set (screen_lines t). length l = 80) \<and> line t < 25 \<and> column t < 80"

definition next_line :: "terminal \<Rightarrow> terminal" where
  "next_line t =
     (if line t = 24 then t\<lparr>screen_lines := tl (screen_lines t) @ [replicate 80 BLANK], column := 0\<rparr>
      else t\<lparr>line := line t + 1, column := 0\<rparr>)"

definition terminal_byte :: "u8 \<Rightarrow> terminal \<Rightarrow> terminal" where
  "terminal_byte b t =
     (if b = 0x0A then next_line t
      else let t1 = t\<lparr>screen_lines := (screen_lines t)[line t := (screen_lines t ! line t)[column t := ucast b OR push_bit 8 (ucast (color t))]]\<rparr>
           in if column t = 79 then next_line t1 else t1\<lparr>column := column t + 1\<rparr>)"

definition buffer_line :: "(nat \<Rightarrow> u16) \<Rightarrow> nat \<Rightarrow> u16 list" where
  "buffer_line buf r = map (\<lambda>k. buf (80 * r + k)) [0..<80]"

definition terminal_of :: "Console \<Rightarrow> terminal" where
  "terminal_of c = \<lparr>screen_lines = map (buffer_line (vga_buf c)) [0..<25], line = vga_row c, column = vga_col c, color = vga_color c\<rparr>"

definition cursor_ok :: "Console \<Rightarrow> bool" where
  "cursor_ok c \<longleftrightarrow> vga_row c < 25 \<and> vga_col c < 80"

section \<open>Scrolling\<close>

lemma copy_cell_apply: "copy_cell src dst buf x = (if x = dst then buf src else buf x)"
  by (simp add: copy_cell_def)

lemma fold_copy:
  assumes "b + n \<le> a" 
  shows "fold (\<lambda>col. copy_cell (a + col) (b + col)) [0..<n] buf x = (if b \<le> x \<and> x < b + n then buf (a + (x - b)) else buf x)"
  using assms
proof (induction n arbitrary: x)
  case (Suc n)
  then have IH: "fold (\<lambda>col. copy_cell (a + col) (b + col)) [0..<n] buf y =
      (if b \<le> y \<and> y < b + n then buf (a + (y - b)) else buf y)" for y by simp
  have "\<not> (b \<le> a + n \<and> a + n < b + n)" using Suc.prems by simp
  then have "fold (\<lambda>col. copy_cell (a + col) (b + col)) [0..<n] buf (a + n) = buf (a + n)" by (simp only: IH if_False)
  moreover have "fold (\<lambda>col. copy_cell (a + col) (b + col)) [0..<Suc n] buf x =
      copy_cell (a + n) (b + n) (fold (\<lambda>col. copy_cell (a + col) (b + col)) [0..<n] buf) x" by simp
  ultimately show ?case using IH[of x]
    by (cases "x = b + n") (auto simp: copy_cell_apply[of _ _ "fold _ _ _"])
qed auto

lemma scroll_row_eq:
  "scroll_row (Suc r) buf x = (if 80 * r \<le> x \<and> x < 80 * r + 80 then buf (x + 80) else buf x)"
proof -
  have "scroll_row (Suc r) buf x = (if 80 * r \<le> x \<and> x < 80 * r + 80 then buf (80 * Suc r + (x - 80 * r)) else buf x)"
    unfolding scroll_row_def using fold_copy[of "80 * r" 80 "80 * Suc r" buf x] by (simp add: VGA_W_def mult.commute)
  then show ?thesis by (simp add: add.commute)
qed

lemma fold_scroll_rows:
  "fold scroll_row [1..<Suc n] buf x = (if x < 80 * n then buf (x + 80) else buf x)"
proof (induction n arbitrary: x)
  case (Suc n)
  have "fold scroll_row [1..<Suc (Suc n)] buf x = scroll_row (Suc n) (fold scroll_row [1..<Suc n] buf) x" by simp
  also have "\<dots> = (if x < 80 * Suc n then buf (x + 80) else buf x)"
    unfolding scroll_row_eq by (simp only: Suc.IH) auto
  finally show ?case .
qed simp

lemma fold_fill:
  fixes buf :: "nat \<Rightarrow> u16"
  shows "fold (\<lambda>i buf. buf(b + i := v)) [0..<n] buf x = (if b \<le> x \<and> x < b + n then v else buf x)"
  by (induction n) auto

lemma vga_scroll_eq:
  "vga_scroll buf x = (if x < 1920 then buf (x + 80) else if x < 2000 then BLANK else buf x)"
  unfolding vga_scroll_def using fold_scroll_rows[of 24 buf] fold_fill[of 1920 BLANK 80]
  by (auto simp: VGA_W_def VGA_H_def)

lemma scroll_lines:
  "map (buffer_line (vga_scroll buf)) [0..<25] = tl (map (buffer_line buf) [0..<25]) @ [replicate 80 BLANK]"
proof (rule nth_equalityI)
  fix i
  assume "i < length (map (buffer_line (vga_scroll buf)) [0..<25])"
  then have i: "i < 25" by simp
  show "map (buffer_line (vga_scroll buf)) [0..<25] ! i = (tl (map (buffer_line buf) [0..<25]) @ [replicate 80 BLANK]) ! i"
  proof (cases "i = 24")
    case True
    then show ?thesis by (auto simp: buffer_line_def vga_scroll_eq nth_append intro!: nth_equalityI)
  next
    case False
    then have "i < 24" using i by simp
    then show ?thesis by (auto simp: buffer_line_def vga_scroll_eq nth_append nth_tl algebra_simps intro!: nth_equalityI)
  qed
qed simp

section \<open>Refinement\<close>

lemma buffer_line_write:
  assumes "r < 25" "k < 80"
  shows "map (buffer_line (buf(80 * r + k := v))) [0..<25] =
    (map (buffer_line buf) [0..<25])[r := (map (buffer_line buf) [0..<25] ! r)[k := v]]"
proof (rule nth_equalityI)
  fix i
  assume "i < length (map (buffer_line (buf(80 * r + k := v))) [0..<25])"
  then have i: "i < 25" by simp
  have e: "80 * i + x = 80 * r + k \<longleftrightarrow> i = r \<and> x = k" if "x < 80" for x
  proof -
    have "(80 * i + x) div 80 = i" "(80 * i + x) mod 80 = x" "(80 * r + k) div 80 = r" "(80 * r + k) mod 80 = k"
      using that assms(2) by simp_all
    then show ?thesis by metis
  qed
  show "map (buffer_line (buf(80 * r + k := v))) [0..<25] ! i =
      (map (buffer_line buf) [0..<25])[r := (map (buffer_line buf) [0..<25] ! r)[k := v]] ! i"
  proof (cases "i = r")
    case True
    then show ?thesis using i assms by (auto simp: buffer_line_def nth_list_update intro!: nth_equalityI)
  next
    case False
    then show ?thesis using i e by (auto simp: buffer_line_def)
  qed
qed simp

lemma vga_byte_refines:
  assumes "cursor_ok c"
  shows "terminal_of (vga_byte b c) = terminal_byte b (terminal_of c)" "cursor_ok (vga_byte b c)"
    "x \<ge> 2000 \<Longrightarrow> vga_buf (vga_byte b c) x = vga_buf c x"
proof -
  have rk: "vga_row c < 25" "vga_col c < 80" using assms by (simp_all add: cursor_ok_def)
  note w = buffer_line_write[OF rk, unfolded mult.commute[of 80 "vga_row c"]]
  have lt: "80 * vga_row c + vga_col c < 2000" using rk by simp
  consider (nl) "b = 0x0A" | (wrap) "b \<noteq> 0x0A" "vga_col c = 79" | (plain) "b \<noteq> 0x0A" "vga_col c < 79" using rk by linarith
  then show "terminal_of (vga_byte b c) = terminal_byte b (terminal_of c)"
  proof cases
    case nl
    then show ?thesis using rk
      by (auto simp: vga_byte_def vga_put_def terminal_of_def terminal_byte_def next_line_def VGA_H_def scroll_lines Let_def)
  next
    case wrap
    then show ?thesis using rk w
      by (auto simp: vga_byte_def vga_put_def terminal_of_def terminal_byte_def next_line_def VGA_W_def VGA_H_def scroll_lines Let_def)
  next
    case plain
    then show ?thesis using rk w
      by (auto simp: vga_byte_def vga_put_def terminal_of_def terminal_byte_def VGA_W_def VGA_H_def Let_def)
  qed
  show "cursor_ok (vga_byte b c)" using rk
    by (auto simp: vga_byte_def vga_put_def cursor_ok_def VGA_H_def VGA_W_def Let_def)
  show "vga_buf (vga_byte b c) x = vga_buf c x" if "x \<ge> 2000" using that lt
    by (auto simp: vga_byte_def vga_put_def vga_scroll_eq VGA_W_def Let_def)
qed

lemma fold_vga_byte:
  assumes "cursor_ok c"
  shows "terminal_of (fold vga_byte msg c) = fold terminal_byte msg (terminal_of c) \<and> cursor_ok (fold vga_byte msg c) \<and>
    (\<forall>x \<ge> 2000. vga_buf (fold vga_byte msg c) x = vga_buf c x)"
  using assms by (induction msg arbitrary: c) (simp_all add: vga_byte_refines)

lemma serial_print_events:
  assumes "serial_print hw msg io = Some io'"
  shows "\<exists>es. io' = io @ es \<and> [e \<leftarrow> es. \<exists>p v. e = Out8 p v] = map (Out8 COM1) msg"
  using assms
proof (induction msg arbitrary: io)
  case (Cons b msg)
  then obtain io1 where w: "wait_port hw (COM1 + 5) 0x20 io = Some io1" "serial_print hw msg (outb COM1 b io1) = Some io'"
    by (auto split: option.splits)
  obtain rs where rs: "io1 = io @ rs" "\<forall>e \<in> set rs. \<exists>v. e = In8 (COM1 + 5) v" using wait_port_events[OF w(1)] by blast
  obtain es where es: "io' = outb COM1 b io1 @ es" "[e \<leftarrow> es. \<exists>p v. e = Out8 p v] = map (Out8 COM1) msg"
    using Cons.IH[OF w(2)] by blast
  have "[e \<leftarrow> rs. \<exists>p v. e = Out8 p v] = []" using rs(2) by (auto simp: filter_empty_conv)
  then show ?case using es rs(1) by (intro exI[of _ "rs @ Out8 COM1 b # es"]) (simp add: outb_def)
qed simp

text \<open>
  C27. The console is a terminal of 25 lines of 80 characters, and every message reaches the serial port. When
  \<open>vga_print\<close> returns, the screen, the cursor and the colour are those of the abstract terminal after the same bytes
  (with line wrap, and a full screen dropping its first line), the cursor is again on the screen, no memory behind the 2000
  cells of the text buffer has been written, and the only port output is the message, byte by byte, on \<open>COM1\<close>.
\<close>
theorem vga_print_refines_terminal:
  assumes "vga_print hw msg (c, io) = Some (c', io')" "cursor_ok c"
  shows "terminal_of c' = fold terminal_byte msg (terminal_of c) \<and> cursor_ok c' \<and>
    (\<forall>x. 2000 \<le> x \<longrightarrow> vga_buf c' x = vga_buf c x) \<and>
    (\<exists>es. io' = io @ es \<and> [e \<leftarrow> es. \<exists>p v. e = Out8 p v] = map (Out8 COM1) msg)"
proof -
  have "c' = fold vga_byte msg c" "serial_print hw msg io = Some io'" using assms(1) by (auto simp: vga_print_def)
  then show ?thesis using fold_vga_byte[OF assms(2), of msg] serial_print_events by auto
qed

definition ready_hardware :: hardware where
  "ready_hardware = \<lparr>port_value = (\<lambda>_ _. 0xFF), reg32_value = (\<lambda>_ _. 0xFFFFFFFF), reg64_value = (\<lambda>_ _. 0)\<rparr>"

definition demo_console :: Console where
  "demo_console = \<lparr>vga_buf = (\<lambda>_. 0), vga_row = 24, vga_col = 79, vga_color = 0x0F\<rparr>"

lemma ready_wait: "msk \<noteq> 0 \<Longrightarrow> wait_port ready_hardware port msk io = Some (io @ [In8 port 0xFF])"
proof -
  assume "msk \<noteq> 0"
  moreover have "(0xFF :: u8) = - 1" by simp
  ultimately have "(0xFF :: u8) AND msk \<noteq> 0" by (metis bit.conj_one_right and.commute)
  then show ?thesis by (subst wait_port.simps) (simp add: inb_def ready_hardware_def Let_def)
qed

theorem vga_print_refines_terminal_witness:
  "\<exists>c' io'. vga_print ready_hardware [0x41, 0x0A] (demo_console, []) = Some (c', io') \<and>
     terminal_of c' = fold terminal_byte [0x41, 0x0A] (terminal_of demo_console) \<and> cursor_ok c'"
proof -
  obtain c' io' where r: "vga_print ready_hardware [0x41, 0x0A] (demo_console, []) = Some (c', io')"
    by (simp add: vga_print_def ready_wait)
  have "cursor_ok demo_console" by (simp add: cursor_ok_def demo_console_def)
  from vga_print_refines_terminal[OF r this] r show ?thesis by blast
qed

end
