(* ===== verification/Keyboard.thy ===== *)
theory Keyboard
  imports Console
begin

text \<open>
  The two keyboard drivers: the one of the kernel's interrupt handler (\<open>src/src/interrupts.rs\<close>) and the C driver
  \<open>src/drivers/keyboard.c\<close>. Both translate scancodes and keep the characters in a ring buffer of 256 places, of which one
  stays free; both are instances of one interface, a bounded queue. The statics of each driver are a record. Indices stay
  below 256 by the invariant of the queue.
\<close>

section \<open>The kernel's keyboard\<close>

record keyboard =
  KEYBOARD_BUFFER :: "u8 list"
  KEYBOARD_HEAD :: usize
  KEYBOARD_TAIL :: usize
  SHIFT_PRESSED :: bool
  CAPS_LOCK :: bool

definition keyboard_statics :: keyboard where
  "keyboard_statics =
     \<lparr>KEYBOARD_BUFFER = replicate 256 0, KEYBOARD_HEAD = 0, KEYBOARD_TAIL = 0, SHIFT_PRESSED = False, CAPS_LOCK = False\<rparr>"

definition keyboard_has_data :: "keyboard \<Rightarrow> bool" where
  "keyboard_has_data k \<longleftrightarrow> KEYBOARD_HEAD k \<noteq> KEYBOARD_TAIL k"

definition keyboard_read_char :: "keyboard \<Rightarrow> u8 \<times> keyboard" where
  "keyboard_read_char k =
     (if KEYBOARD_HEAD k = KEYBOARD_TAIL k then (0, k)
      else (KEYBOARD_BUFFER k ! KEYBOARD_TAIL k, k\<lparr>KEYBOARD_TAIL := (KEYBOARD_TAIL k + 1) mod 256\<rparr>))"

definition SCANCODE_TO_ASCII :: "u8 list" where
  "SCANCODE_TO_ASCII =
     [0, 27, 49, 50, 51, 52, 53, 54, 55, 56, 57, 48, 45, 61, 8, 9, 113, 119, 101, 114,
      116, 121, 117, 105, 111, 112, 91, 93, 10, 0, 97, 115, 100, 102, 103, 104, 106, 107, 108, 59,
      39, 96, 0, 92, 122, 120, 99, 118, 98, 110, 109, 44, 46, 47, 0, 42, 0, 32, 0, 0,
      0, 0, 0, 0, 0, 0, 0, 0, 0, 0, 0, 0, 0, 0, 0, 0, 0, 0, 0, 0,
      0, 0, 45, 0, 0, 0, 43] @
     replicate 41 0"

definition SCANCODE_TO_ASCII_SHIFT :: "u8 list" where
  "SCANCODE_TO_ASCII_SHIFT =
     [0, 27, 33, 64, 35, 36, 37, 94, 38, 42, 40, 41, 95, 43, 8, 9, 81, 87, 69, 82,
      84, 89, 85, 73, 79, 80, 123, 125, 10, 0, 65, 83, 68, 70, 71, 72, 74, 75, 76, 58,
      34, 126, 0, 124, 90, 88, 67, 86, 66, 78, 77, 60, 62, 63, 0, 42, 0, 32, 0, 0,
      0, 0, 0, 0, 0, 0, 0, 0, 0, 0, 0, 0, 0, 0, 0, 0, 0, 0, 0, 0,
      0, 0, 45, 0, 0, 0, 43] @
     replicate 41 0"

text \<open>The innermost block of the handler.\<close>

definition keyboard_put :: "u8 \<Rightarrow> keyboard \<Rightarrow> keyboard" where
  "keyboard_put ch k =
     (let next_head = (KEYBOARD_HEAD k + 1) mod 256 in
      if next_head \<noteq> KEYBOARD_TAIL k
      then k\<lparr>KEYBOARD_BUFFER := (KEYBOARD_BUFFER k)[KEYBOARD_HEAD k := ch], KEYBOARD_HEAD := next_head\<rparr> else k)"

definition handle_keyboard_scancode :: "u8 \<Rightarrow> keyboard \<Rightarrow> keyboard" where
  "handle_keyboard_scancode scancode k =
     (let released = (scancode AND 0x80 \<noteq> 0); key = scancode AND 0x7F in
      if key = 0x2A \<or> key = 0x36 then k\<lparr>SHIFT_PRESSED := \<not> released\<rparr>
      else if key = 0x3A then (if \<not> released then k\<lparr>CAPS_LOCK := \<not> CAPS_LOCK k\<rparr> else k)
      else if released then k
      else if key < 128
      then let ch = (if SHIFT_PRESSED k then SCANCODE_TO_ASCII_SHIFT else SCANCODE_TO_ASCII) ! unat key
           in if ch \<noteq> 0 then keyboard_put ch k else k
      else k)"

section \<open>The C driver\<close>

record kb_driver =
  g_shift_pressed :: bool
  g_ctrl_pressed :: bool
  g_alt_pressed :: bool
  g_caps_lock :: bool
  g_extended_key :: bool
  g_key_buffer :: "u8 list"
  g_key_buffer_head :: u32
  g_key_buffer_tail :: u32

definition kb_driver_statics :: kb_driver where
  "kb_driver_statics =
     \<lparr>g_shift_pressed = False, g_ctrl_pressed = False, g_alt_pressed = False, g_caps_lock = False, g_extended_key = False,
      g_key_buffer = replicate 256 0, g_key_buffer_head = 0, g_key_buffer_tail = 0\<rparr>"

definition PS2_DATA_PORT :: u16 where "PS2_DATA_PORT = 0x60"
definition PS2_STATUS_PORT :: u16 where "PS2_STATUS_PORT = 0x64"
definition PS2_COMMAND_PORT :: u16 where "PS2_COMMAND_PORT = 0x64"

definition scancode_to_ascii :: "u8 list" where
  "scancode_to_ascii =
     [0, 27, 49, 50, 51, 52, 53, 54, 55, 56, 57, 48, 45, 61, 8, 9, 113, 119, 101, 114,
      116, 121, 117, 105, 111, 112, 91, 93, 10, 0, 97, 115, 100, 102, 103, 104, 106, 107, 108, 59,
      39, 96, 0, 92, 122, 120, 99, 118, 98, 110, 109, 44, 46, 47, 0, 42, 0, 32, 0, 0,
      0, 0, 0, 0, 0, 0, 0, 0, 0, 0, 0, 0, 45, 0, 0, 0, 43] @
     replicate 51 0"

definition scancode_to_ascii_shift :: "u8 list" where
  "scancode_to_ascii_shift =
     [0, 27, 33, 64, 35, 36, 37, 94, 38, 42, 40, 41, 95, 43, 8, 9, 81, 87, 69, 82,
      84, 89, 85, 73, 79, 80, 123, 125, 10, 0, 65, 83, 68, 70, 71, 72, 74, 75, 76, 58,
      34, 126, 0, 124, 90, 88, 67, 86, 66, 78, 77, 60, 62, 63, 0, 42, 0, 32, 0, 0,
      0, 0, 0, 0, 0, 0, 0, 0, 0, 0, 0, 0, 45, 0, 0, 0, 43] @
     replicate 51 0"

primrec ps2_wait_input_loop :: "nat \<Rightarrow> hardware \<Rightarrow> io \<Rightarrow> io" where
  "ps2_wait_input_loop 0 hw io = io"
| "ps2_wait_input_loop (Suc timeout) hw io =
     (let (status, io') = inb hw PS2_STATUS_PORT io in if status AND 0x02 = 0 then io' else ps2_wait_input_loop timeout hw io')"

definition ps2_wait_input :: "hardware \<Rightarrow> io \<Rightarrow> io" where
  "ps2_wait_input = ps2_wait_input_loop 100000"

primrec ps2_wait_output_loop :: "nat \<Rightarrow> hardware \<Rightarrow> io \<Rightarrow> io" where
  "ps2_wait_output_loop 0 hw io = io"
| "ps2_wait_output_loop (Suc timeout) hw io =
     (let (status, io') = inb hw PS2_STATUS_PORT io in if status AND 0x01 \<noteq> 0 then io' else ps2_wait_output_loop timeout hw io')"

definition ps2_wait_output :: "hardware \<Rightarrow> io \<Rightarrow> io" where
  "ps2_wait_output = ps2_wait_output_loop 100000"

primrec kb_send_loop :: "nat \<Rightarrow> hardware \<Rightarrow> u8 \<Rightarrow> io \<Rightarrow> int \<times> io" where
  "kb_send_loop 0 hw cmd io = (- 1, io)"
| "kb_send_loop (Suc retries) hw cmd io =
     (let io1 = outb PS2_DATA_PORT cmd (ps2_wait_input hw io);
          (response, io2) = inb hw PS2_DATA_PORT (ps2_wait_output hw io1)
      in if response = 0xFA then (0, io2) else kb_send_loop retries hw cmd io2)"

definition kb_send_command :: "hardware \<Rightarrow> u8 \<Rightarrow> io \<Rightarrow> int \<times> io" where
  "kb_send_command = kb_send_loop 3"

definition kb_buffer_put :: "u8 \<Rightarrow> kb_driver \<Rightarrow> kb_driver" where
  "kb_buffer_put ch k =
     (let next_head = (g_key_buffer_head k + 1) mod 256 in
      if next_head \<noteq> g_key_buffer_tail k
      then k\<lparr>g_key_buffer := (g_key_buffer k)[unat (g_key_buffer_head k) := ch], g_key_buffer_head := next_head\<rparr> else k)"

definition kb_char :: "u8 \<Rightarrow> kb_driver \<Rightarrow> u8" where
  "kb_char key k =
     (let ch = (if key < 128
                then if g_shift_pressed k
                     then let ch = scancode_to_ascii_shift ! unat key in if g_caps_lock k \<and> 0x41 \<le> ch \<and> ch \<le> 0x5A then ch + 32 else ch
                     else let ch = scancode_to_ascii ! unat key in if g_caps_lock k \<and> 0x61 \<le> ch \<and> ch \<le> 0x7A then ch - 32 else ch
                else 0)
      in if g_ctrl_pressed k \<and> 0x61 \<le> ch \<and> ch \<le> 0x7A then ch - 0x61 + 1 else ch)"

definition kb_handle_scancode :: "u8 \<Rightarrow> kb_driver \<Rightarrow> kb_driver" where
  "kb_handle_scancode scancode k =
     (if scancode = 0xE0 then k\<lparr>g_extended_key := True\<rparr>
      else let released = (scancode AND 0x80 \<noteq> 0); key = scancode AND NOT 0x80 in
        if key = 0x2A \<or> key = 0x36 then k\<lparr>g_shift_pressed := \<not> released, g_extended_key := False\<rparr>
        else if key = 0x1D then k\<lparr>g_ctrl_pressed := \<not> released, g_extended_key := False\<rparr>
        else if key = 0x38 then k\<lparr>g_alt_pressed := \<not> released, g_extended_key := False\<rparr>
        else if key = 0x3A \<and> \<not> released then k\<lparr>g_caps_lock := \<not> g_caps_lock k, g_extended_key := False\<rparr>
        else if released then k\<lparr>g_extended_key := False\<rparr>
        else let ch = kb_char key k in (if ch \<noteq> 0 then kb_buffer_put ch k else k)\<lparr>g_extended_key := False\<rparr>)"

text \<open>\<open>while (inb(PS2_STATUS_PORT) & 0x01) inb(PS2_DATA_PORT)\<close> may not end.\<close>

partial_function (option) ps2_flush :: "hardware \<Rightarrow> io \<Rightarrow> io option" where
  "ps2_flush hw io =
     (let (status, io1) = inb hw PS2_STATUS_PORT io
      in if status AND 0x01 \<noteq> 0 then ps2_flush hw (snd (inb hw PS2_DATA_PORT io1)) else Some io1)"

definition ps2_command :: "hardware \<Rightarrow> u8 \<Rightarrow> io \<Rightarrow> io" where
  "ps2_command hw cmd io = outb PS2_COMMAND_PORT cmd (ps2_wait_input hw io)"

definition ps2_read :: "hardware \<Rightarrow> io \<Rightarrow> u8 \<times> io" where
  "ps2_read hw io = inb hw PS2_DATA_PORT (ps2_wait_output hw io)"

definition keyboard_init :: "hardware \<Rightarrow> kb_driver \<times> io \<Rightarrow> (int \<times> kb_driver \<times> io) option" where
  "keyboard_init hw = (\<lambda>(k, io).
     case ps2_flush hw (ps2_command hw 0xA7 (ps2_command hw 0xAD io)) of
       None \<Rightarrow> None
     | Some io1 \<Rightarrow>
         let (test_result, io2) = ps2_read hw (ps2_command hw 0xAA io1) in
         if test_result \<noteq> 0x55 then Some (- 1, k, io2)
         else let (config, io3) = ps2_read hw (ps2_command hw 0x20 (ps2_command hw 0xAE io2));
                  config' = (config OR 0x01) AND NOT 0x10 AND NOT 0x20;
                  io4 = outb PS2_DATA_PORT config' (ps2_wait_input hw (ps2_command hw 0x60 io3));
                  (reset, io5) = kb_send_command hw 0xFF io4
              in if reset \<noteq> 0 then Some (- 1, k, io5)
                 else let (bat_result, io6) = ps2_read hw io5 in
                   if bat_result \<noteq> 0xAA then Some (- 1, k, io6)
                   else let io7 = fold (\<lambda>cmd io. snd (kb_send_command hw cmd io)) [0xF0, 0x01, 0xF4, 0xF3, 0x00] io6
                        in Some (0, k\<lparr>g_key_buffer_head := 0, g_key_buffer_tail := 0, g_shift_pressed := False,
                                      g_ctrl_pressed := False, g_alt_pressed := False, g_caps_lock := False,
                                      g_extended_key := False\<rparr>, io7))"

definition keyboard_read_scancode :: "hardware \<Rightarrow> kb_driver \<times> io \<Rightarrow> u8 \<times> kb_driver \<times> io" where
  "keyboard_read_scancode hw = (\<lambda>(k, io).
     let (scancode, io1) = inb hw PS2_DATA_PORT io in (scancode, kb_handle_scancode scancode k, io1))"

definition keyboard_get_char :: "kb_driver \<Rightarrow> u8 \<times> kb_driver" where
  "keyboard_get_char k =
     (if g_key_buffer_head k = g_key_buffer_tail k then (0, k)
      else (g_key_buffer k ! unat (g_key_buffer_tail k), k\<lparr>g_key_buffer_tail := (g_key_buffer_tail k + 1) mod 256\<rparr>))"

definition kb_has_data :: "kb_driver \<Rightarrow> bool" where
  "kb_has_data k \<longleftrightarrow> g_key_buffer_head k \<noteq> g_key_buffer_tail k"

section \<open>Ring buffers\<close>

definition ring_inv :: "u8 list \<Rightarrow> nat \<Rightarrow> nat \<Rightarrow> bool" where
  "ring_inv buf h t \<longleftrightarrow> length buf = 256 \<and> h < 256 \<and> t < 256"

definition ring_length :: "nat \<Rightarrow> nat \<Rightarrow> nat" where
  "ring_length h t = (h + 256 - t) mod 256"

definition ring_content :: "u8 list \<Rightarrow> nat \<Rightarrow> nat \<Rightarrow> u8 list" where
  "ring_content buf h t = map (\<lambda>i. buf ! ((t + i) mod 256)) [0..<ring_length h t]"

lemma ring_length_cases:
  assumes "h < 256" "t < 256"
  shows "ring_length h t = (if t \<le> h then h - t else h + 256 - t)"
proof (cases "t \<le> h")
  case True
  then have "h + 256 - t = (h - t) + 256" using assms by simp
  then have "ring_length h t = (h - t) mod 256" unfolding ring_length_def by (metis mod_add_self2)
  then show ?thesis using True assms by simp
qed (simp add: ring_length_def assms)

lemma succ_mod: "h < 256 \<Longrightarrow> (h + 1) mod 256 = (if h = 255 then 0 else h + (1 :: nat))"
  by auto

lemma ring_length_put:
  assumes "h < 256" "t < 256" "(h + 1) mod 256 \<noteq> t"
  shows "ring_length ((h + 1) mod 256) t = ring_length h t + 1" "ring_length h t < 255" "h = (t + ring_length h t) mod 256"
proof -
  have l: "(h + 1) mod 256 < 256" by simp
  show "ring_length ((h + 1) mod 256) t = ring_length h t + 1" "ring_length h t < 255"
    unfolding ring_length_cases[OF l assms(2)] ring_length_cases[OF assms(1,2)]
    unfolding succ_mod[OF assms(1)]
    using assms unfolding succ_mod[OF assms(1)] by (auto split: if_splits)
  show "h = (t + ring_length h t) mod 256" unfolding ring_length_cases[OF assms(1,2)] using assms by auto
qed

lemma ring_length_full:
  assumes "h < 256" "t < 256" "(h + 1) mod 256 = t"
  shows "ring_length h t = 255"
  unfolding ring_length_cases[OF assms(1,2)] using assms(3) unfolding succ_mod[OF assms(1)] using assms(1,2) by (auto split: if_splits)

lemma ring_put:
  assumes "ring_inv buf h t" "(h + 1) mod 256 \<noteq> t"
  shows "ring_content (buf[h := c]) ((h + 1) mod 256) t = ring_content buf h t @ [c]"
proof -
  have i: "length buf = 256" "h < 256" "t < 256" using assms(1) by (auto simp: ring_inv_def)
  note r = ring_length_put[OF i(2,3) assms(2)]
  have "h \<noteq> (t + j) mod 256" if "j < ring_length h t" for j
  proof
    assume "h = (t + j) mod 256"
    then have "(t + j) mod 256 = (t + ring_length h t) mod 256" using r(3) by simp
    then show False using that r(2) i(3) by (auto simp: mod_if split: if_splits)
  qed
  then have "map (\<lambda>j. buf[h := c] ! ((t + j) mod 256)) [0..<ring_length h t] = ring_content buf h t"
    unfolding ring_content_def by (intro map_cong) auto
  moreover have "buf[h := c] ! ((t + ring_length h t) mod 256) = c" using r(3) i by simp
  ultimately show ?thesis unfolding ring_content_def[of "buf[h := c]"] r(1) by simp
qed

lemma ring_put_cases:
  assumes "ring_inv buf h t"
  shows "(h + 1) mod 256 \<noteq> t \<Longrightarrow> ring_content (buf[h := c]) ((h + 1) mod 256) t = ring_content buf h t @ [c] \<and> length (ring_content buf h t) < 255"
    "(h + 1) mod 256 = t \<Longrightarrow> length (ring_content buf h t) = 255"
proof -
  have i: "h < 256" "t < 256" using assms by (auto simp: ring_inv_def)
  show "(h + 1) mod 256 \<noteq> t \<Longrightarrow> ring_content (buf[h := c]) ((h + 1) mod 256) t = ring_content buf h t @ [c] \<and> length (ring_content buf h t) < 255"
    using ring_put[OF assms] ring_length_put(2)[OF i] by (simp add: ring_content_def)
  show "(h + 1) mod 256 = t \<Longrightarrow> length (ring_content buf h t) = 255" using ring_length_full[OF i] by (simp add: ring_content_def)
qed

lemma ring_get:
  assumes "ring_inv buf h t" "h \<noteq> t"
  shows "ring_content buf h t = buf ! t # ring_content buf h ((t + 1) mod 256)"
proof -
  have i: "h < 256" "t < 256" "(t + 1) mod 256 < 256" using assms(1) by (auto simp: ring_inv_def)
  have "ring_length h t = Suc (ring_length h ((t + 1) mod 256))"
    unfolding ring_length_cases[OF i(1,2)] ring_length_cases[OF i(1,3)] unfolding succ_mod[OF i(2)]
    using assms(2) i(1,2) by (auto split: if_splits)
  then have "ring_content buf h t = map (\<lambda>j. buf ! ((t + j) mod 256)) (0 # map Suc [0..<ring_length h ((t + 1) mod 256)])"
    unfolding ring_content_def by (simp add: map_Suc_upt upt_conv_Cons del: upt_Suc)
  also have "\<dots> = buf ! t # map (\<lambda>j. buf ! ((t + Suc j) mod 256)) [0..<ring_length h ((t + 1) mod 256)]" using i(2) by simp
  also have "\<dots> = buf ! t # ring_content buf h ((t + 1) mod 256)"
    unfolding ring_content_def by (simp add: mod_add_left_eq)
  finally show ?thesis .
qed

lemma ring_empty: "ring_inv buf h t \<Longrightarrow> ring_content buf h t = [] \<longleftrightarrow> h = t"
  using ring_get[of buf h t] by (cases "h = t") (simp_all add: ring_content_def ring_length_def)

lemma length_ring_content: "ring_inv buf h t \<Longrightarrow> length (ring_content buf h t) \<le> 255"
  by (auto simp: ring_content_def ring_length_def)

section \<open>Bounded queues\<close>

text \<open>The interface of a character queue that drops what arrives while it is full, and answers 0 when it is empty.\<close>

primrec reads :: "('s \<Rightarrow> u8 \<times> 's) \<Rightarrow> nat \<Rightarrow> 's \<Rightarrow> u8 list \<times> 's" where
  "reads get 0 s = ([], s)"
| "reads get (Suc n) s = (let (c, s1) = get s; (cs, s2) = reads get n s1 in (c # cs, s2))"

locale char_queue =
  fixes content :: "'s \<Rightarrow> u8 list"
    and inv :: "'s \<Rightarrow> bool"
    and put :: "u8 \<Rightarrow> 's \<Rightarrow> 's"
    and get :: "'s \<Rightarrow> u8 \<times> 's"
    and has_data :: "'s \<Rightarrow> bool"
    and capacity :: nat
  assumes put_inv: "inv s \<Longrightarrow> inv (put c s)"
    and get_inv: "inv s \<Longrightarrow> inv (snd (get s))"
    and content_put: "inv s \<Longrightarrow> content (put c s) = (if length (content s) < capacity then content s @ [c] else content s)"
    and get_empty: "inv s \<Longrightarrow> content s = [] \<Longrightarrow> get s = (0, s)"
    and get_first: "inv s \<Longrightarrow> content s = c # cs \<Longrightarrow> fst (get s) = c \<and> content (snd (get s)) = cs"
    and has_data_iff: "inv s \<Longrightarrow> has_data s \<longleftrightarrow> content s \<noteq> []"
    and content_bound: "inv s \<Longrightarrow> length (content s) \<le> capacity"
begin

lemma content_put_take: "inv s \<Longrightarrow> content (put c s) = take capacity (content s @ [c])"
  using content_put[of s c] content_bound[of s] by auto

lemma take_put:
  assumes "inv s" shows "take capacity (content (put c s) @ cs) = take capacity (content s @ c # cs)"
  unfolding content_put_take[OF assms] take_take_append by simp

lemma reads_content:
  assumes "inv s"
  shows "fst (reads get n s) = take n (content s) @ replicate (n - length (content s)) 0 \<and> content (snd (reads get n s)) = drop n (content s) \<and>
    inv (snd (reads get n s))"
  using assms
proof (induction n arbitrary: s)
  case (Suc n)
  note IH = Suc.IH[OF get_inv[OF Suc.prems]]
  show ?case
  proof (cases "content s")
    case Nil
    then show ?thesis using IH get_empty[OF Suc.prems Nil] Suc.prems by (auto simp: Let_def split: prod.splits)
  next
    case (Cons c cs)
    then show ?thesis using IH get_first[OF Suc.prems Cons] by (auto simp: Let_def split: prod.splits)
  qed
qed auto

end

definition keyboard_inv :: "keyboard \<Rightarrow> bool" where
  "keyboard_inv k \<longleftrightarrow> ring_inv (KEYBOARD_BUFFER k) (KEYBOARD_HEAD k) (KEYBOARD_TAIL k)"

definition keyboard_queue :: "keyboard \<Rightarrow> u8 list" where
  "keyboard_queue k = ring_content (KEYBOARD_BUFFER k) (KEYBOARD_HEAD k) (KEYBOARD_TAIL k)"

interpretation kbd: char_queue keyboard_queue keyboard_inv keyboard_put keyboard_read_char keyboard_has_data 255
proof
  fix k :: keyboard and c cs
  assume i: "keyboard_inv k"
  show "keyboard_inv (keyboard_put c k)" "keyboard_inv (snd (keyboard_read_char k))"
    using i by (auto simp: keyboard_inv_def keyboard_put_def keyboard_read_char_def ring_inv_def Let_def)
  show "keyboard_queue (keyboard_put c k) = (if length (keyboard_queue k) < 255 then keyboard_queue k @ [c] else keyboard_queue k)"
    using i ring_put_cases(1)[of "KEYBOARD_BUFFER k" "KEYBOARD_HEAD k" "KEYBOARD_TAIL k" c]
      ring_put_cases(2)[of "KEYBOARD_BUFFER k" "KEYBOARD_HEAD k" "KEYBOARD_TAIL k"]
    by (auto simp: keyboard_inv_def keyboard_queue_def keyboard_put_def Let_def)
  show "keyboard_has_data k \<longleftrightarrow> keyboard_queue k \<noteq> []"
    using i ring_empty by (auto simp: keyboard_inv_def keyboard_queue_def keyboard_has_data_def)
  show "length (keyboard_queue k) \<le> 255" using i length_ring_content by (simp add: keyboard_inv_def keyboard_queue_def)
  show "keyboard_queue k = [] \<Longrightarrow> keyboard_read_char k = (0, k)"
    using i ring_empty by (auto simp: keyboard_inv_def keyboard_queue_def keyboard_read_char_def)
  show "keyboard_queue k = c # cs \<Longrightarrow> fst (keyboard_read_char k) = c \<and> keyboard_queue (snd (keyboard_read_char k)) = cs"
    using i ring_get[of "KEYBOARD_BUFFER k" "KEYBOARD_HEAD k" "KEYBOARD_TAIL k"] ring_empty[of "KEYBOARD_BUFFER k" "KEYBOARD_HEAD k" "KEYBOARD_TAIL k"]
    by (auto simp: keyboard_inv_def keyboard_queue_def keyboard_read_char_def)
qed

definition kb_inv :: "kb_driver \<Rightarrow> bool" where
  "kb_inv k \<longleftrightarrow> ring_inv (g_key_buffer k) (unat (g_key_buffer_head k)) (unat (g_key_buffer_tail k))"

definition kb_queue :: "kb_driver \<Rightarrow> u8 list" where
  "kb_queue k = ring_content (g_key_buffer k) (unat (g_key_buffer_head k)) (unat (g_key_buffer_tail k))"

lemma unat_succ_mod: "unat (h :: u32) < 256 \<Longrightarrow> unat ((h + 1) mod 256) = (unat h + 1) mod 256"
  by (simp add: unat_mod_distrib unat_word_ariths(1))

interpretation cdrv: char_queue kb_queue kb_inv kb_buffer_put keyboard_get_char kb_has_data 255
proof
  fix k :: kb_driver and c cs
  assume i: "kb_inv k"
  let ?b = "g_key_buffer k" and ?h = "unat (g_key_buffer_head k)" and ?t = "unat (g_key_buffer_tail k)"
  have u: "unat ((g_key_buffer_head k + 1) mod 256) = (?h + 1) mod 256" "unat ((g_key_buffer_tail k + 1) mod 256) = (?t + 1) mod 256"
    using i unat_succ_mod by (auto simp: kb_inv_def ring_inv_def)
  have e: "(g_key_buffer_head k + 1) mod 256 = g_key_buffer_tail k \<longleftrightarrow> (?h + 1) mod 256 = ?t"
    "g_key_buffer_head k = g_key_buffer_tail k \<longleftrightarrow> ?h = ?t" using u(1) by (simp_all add: word_unat_eq_iff)
  have r: "ring_inv ?b ?h ?t" using i by (simp add: kb_inv_def)
  show "kb_inv (kb_buffer_put c k)" "kb_inv (snd (keyboard_get_char k))"
    using r u by (auto simp: kb_inv_def kb_buffer_put_def keyboard_get_char_def ring_inv_def Let_def)
  show "kb_queue (kb_buffer_put c k) = (if length (kb_queue k) < 255 then kb_queue k @ [c] else kb_queue k)"
    using ring_put_cases(1)[OF r, of c] ring_put_cases(2)[OF r] e u by (simp add: kb_queue_def kb_buffer_put_def Let_def)
  show "kb_has_data k \<longleftrightarrow> kb_queue k \<noteq> []" using ring_empty[OF r] e by (simp add: kb_queue_def kb_has_data_def)
  show "length (kb_queue k) \<le> 255" using length_ring_content[OF r] by (simp add: kb_queue_def)
  show "kb_queue k = [] \<Longrightarrow> keyboard_get_char k = (0, k)" using ring_empty[OF r] e by (simp add: kb_queue_def keyboard_get_char_def)
  show "kb_queue k = c # cs \<Longrightarrow> fst (keyboard_get_char k) = c \<and> kb_queue (snd (keyboard_get_char k)) = cs"
    using ring_get[OF r] ring_empty[OF r] e u by (auto simp: kb_queue_def keyboard_get_char_def)
qed

section \<open>Typing\<close>

text \<open>What a sequence of scancodes types, given whether shift is down.\<close>

definition key_char :: "bool \<Rightarrow> u8 \<Rightarrow> u8" where
  "key_char sh scancode =
     (let key = scancode AND 0x7F in
      if scancode AND 0x80 \<noteq> 0 \<or> key = 0x3A then 0 else (if sh then SCANCODE_TO_ASCII_SHIFT else SCANCODE_TO_ASCII) ! unat key)"

fun typed :: "bool \<Rightarrow> u8 list \<Rightarrow> u8 list" where
  "typed sh [] = []"
| "typed sh (sc # scs) =
     (if sc AND 0x7F = 0x2A \<or> sc AND 0x7F = 0x36 then typed (sc AND 0x80 = 0) scs
      else if key_char sh sc = 0 then typed sh scs else key_char sh sc # typed sh scs)"

lemma key_small: "(sc :: u8) AND 0x7F < 128"
proof -
  have "sc AND 0x7F \<le> 0x7F" by (rule word_and_le1)
  then show ?thesis by (simp add: word_le_nat_alt word_less_nat_alt)
qed

lemma handle_keyboard_scancode_cases:
  "handle_keyboard_scancode sc k =
     (if sc AND 0x7F = 0x2A \<or> sc AND 0x7F = 0x36 then k\<lparr>SHIFT_PRESSED := (sc AND 0x80 = 0)\<rparr>
      else if key_char (SHIFT_PRESSED k) sc \<noteq> 0 then keyboard_put (key_char (SHIFT_PRESSED k) sc) k
      else if sc AND 0x7F = 0x3A \<and> sc AND 0x80 = 0 then k\<lparr>CAPS_LOCK := \<not> CAPS_LOCK k\<rparr> else k)"
  using key_small[of sc] by (simp add: handle_keyboard_scancode_def key_char_def Let_def)

lemma keyboard_put_shift [simp]: "SHIFT_PRESSED (keyboard_put c k) = SHIFT_PRESSED k"
  by (simp add: keyboard_put_def Let_def)

lemma keyboard_flags [simp]:
  "keyboard_queue (k\<lparr>SHIFT_PRESSED := b\<rparr>) = keyboard_queue k" "keyboard_queue (k\<lparr>CAPS_LOCK := b\<rparr>) = keyboard_queue k"
  "keyboard_inv (k\<lparr>SHIFT_PRESSED := b\<rparr>) = keyboard_inv k" "keyboard_inv (k\<lparr>CAPS_LOCK := b\<rparr>) = keyboard_inv k"
  by (simp_all add: keyboard_queue_def keyboard_inv_def)

lemma keyboard_typed:
  assumes "keyboard_inv k"
  shows "keyboard_inv (fold handle_keyboard_scancode scs k) \<and>
    keyboard_queue (fold handle_keyboard_scancode scs k) = take 255 (keyboard_queue k @ typed (SHIFT_PRESSED k) scs)"
  using assms
proof (induction scs arbitrary: k)
  case Nil
  then show ?case using kbd.content_bound[OF Nil] by simp
next
  case (Cons sc scs)
  then show ?case
    using kbd.take_put[OF Cons.prems] kbd.put_inv[OF Cons.prems] by (simp add: handle_keyboard_scancode_cases)
qed

text \<open>
  C11. Typing is first in, first out. The scancodes that the interrupt handler takes leave in the ring buffer, after what was there, the characters they
  type (shifted while a shift key is down), as far as 255 characters fit, the rest being dropped; and \<open>n\<close>
  reads return the first \<open>n\<close> of them in order, then zeros. The ring stays well formed.
\<close>
theorem keyboard_fifo:
  assumes "keyboard_inv k" "k' = fold handle_keyboard_scancode scs k"
  shows "keyboard_inv k' \<and> keyboard_queue k' = take 255 (keyboard_queue k @ typed (SHIFT_PRESSED k) scs) \<and>
    fst (reads keyboard_read_char n k') = take n (keyboard_queue k') @ replicate (n - length (keyboard_queue k')) 0 \<and>
    keyboard_queue (snd (reads keyboard_read_char n k')) = drop n (keyboard_queue k')"
  using keyboard_typed[OF assms(1), of scs] kbd.reads_content[of k' n] assms(2) by simp

lemma keyboard_statics_inv: "keyboard_inv keyboard_statics" "keyboard_queue keyboard_statics = []" "\<not> SHIFT_PRESSED keyboard_statics"
  by (simp_all add: keyboard_inv_def ring_inv_def keyboard_queue_def ring_content_def ring_length_def keyboard_statics_def)

theorem keyboard_fifo_witness:
  "fst (reads keyboard_read_char 3 (fold handle_keyboard_scancode [0x2A, 0x23, 0xAA, 0x17] keyboard_statics)) = [0x48, 0x69, 0]"
proof -
  have t: "typed False [0x2A, 0x23, 0xAA, 0x17] = [0x48, 0x69]" by code_simp
  show ?thesis
    using keyboard_fifo[OF keyboard_statics_inv(1) refl, where n = 3 and scs = "[0x2A, 0x23, 0xAA, 0x17]"] keyboard_statics_inv(2,3) t by simp
qed

text \<open>The two translation tables differ in the places of the keys of the numeric block.\<close>

definition common_key :: "u8 \<Rightarrow> bool" where
  "common_key sc \<longleftrightarrow> sc AND 0x7F \<notin> {0x1D, 0x3A, 72, 76, 82, 86}"

lemma tables_agree:
  assumes "i < 128" "i \<notin> {72, 76, 82, 86}"
  shows "SCANCODE_TO_ASCII ! i = scancode_to_ascii ! i" "SCANCODE_TO_ASCII_SHIFT ! i = scancode_to_ascii_shift ! i"
proof -
  have "list_all (\<lambda>i. i = 72 \<or> i = 76 \<or> i = 82 \<or> i = 86 \<or>
      SCANCODE_TO_ASCII ! i = scancode_to_ascii ! i \<and> SCANCODE_TO_ASCII_SHIFT ! i = scancode_to_ascii_shift ! i) [0..<128]"
    by code_simp
  then show "SCANCODE_TO_ASCII ! i = scancode_to_ascii ! i" "SCANCODE_TO_ASCII_SHIFT ! i = scancode_to_ascii_shift ! i"
    using assms unfolding list_all_iff by auto
qed

lemma tables_differ: "SCANCODE_TO_ASCII ! 72 = 0" "scancode_to_ascii ! 72 = 45" "SCANCODE_TO_ASCII ! 82 = 45" "scancode_to_ascii ! 82 = 0"
  by code_simp+

definition keyboards_match :: "keyboard \<Rightarrow> kb_driver \<Rightarrow> bool" where
  "keyboards_match k c \<longleftrightarrow> keyboard_inv k \<and> kb_inv c \<and> keyboard_queue k = kb_queue c \<and> SHIFT_PRESSED k = g_shift_pressed c \<and>
     \<not> g_ctrl_pressed c \<and> \<not> g_caps_lock c"

lemma kb_flags [simp]:
  "kb_queue (c\<lparr>g_extended_key := b\<rparr>) = kb_queue c" "kb_inv (c\<lparr>g_extended_key := b\<rparr>) = kb_inv c"
  "kb_queue (c\<lparr>g_shift_pressed := b\<rparr>) = kb_queue c" "kb_inv (c\<lparr>g_shift_pressed := b\<rparr>) = kb_inv c"
  "kb_queue (c\<lparr>g_alt_pressed := b\<rparr>) = kb_queue c" "kb_inv (c\<lparr>g_alt_pressed := b\<rparr>) = kb_inv c"
  "g_shift_pressed (kb_buffer_put ch c) = g_shift_pressed c" "g_ctrl_pressed (kb_buffer_put ch c) = g_ctrl_pressed c"
  "g_caps_lock (kb_buffer_put ch c) = g_caps_lock c"
  by (simp_all add: kb_queue_def kb_inv_def kb_buffer_put_def Let_def)

lemma kb_handle_scancode_cases:
  assumes "\<not> g_ctrl_pressed c" "\<not> g_caps_lock c" "common_key sc"
  shows "kb_handle_scancode sc c =
     (if sc = 0xE0 then c\<lparr>g_extended_key := True\<rparr>
      else if sc AND 0x7F = 0x2A \<or> sc AND 0x7F = 0x36 then c\<lparr>g_shift_pressed := (sc AND 0x80 = 0), g_extended_key := False\<rparr>
      else if sc AND 0x7F = 0x38 then c\<lparr>g_alt_pressed := (sc AND 0x80 = 0), g_extended_key := False\<rparr>
      else (if key_char (g_shift_pressed c) sc \<noteq> 0 then kb_buffer_put (key_char (g_shift_pressed c) sc) c else c)\<lparr>g_extended_key := False\<rparr>)"
proof -
  have n: "NOT 0x80 = (0x7F :: u8)" by simp
  have i: "unat (sc AND 0x7F) < 128" using key_small[of sc] by (simp add: word_less_nat_alt)
  have ne: "sc AND 0x7F \<noteq> 0x1D" "sc AND 0x7F \<noteq> 0x3A" "unat (sc AND 0x7F) \<notin> {72, 76, 82, 86}"
    using assms(3) by (auto simp: common_key_def word_unat_eq_iff)
  note t = tables_agree[OF i ne(3)]
  show ?thesis unfolding kb_handle_scancode_def kb_char_def key_char_def n Let_def using assms(1,2) ne(1,2) key_small[of sc]
    by (cases "g_shift_pressed c") (simp_all add: t)
qed

lemma keyboards_match_step:
  assumes "keyboards_match k c" "common_key sc"
  shows "keyboards_match (handle_keyboard_scancode sc k) (kb_handle_scancode sc c)"
proof -
  have a: "keyboard_inv k" "kb_inv c" "keyboard_queue k = kb_queue c" "SHIFT_PRESSED k = g_shift_pressed c" "\<not> g_ctrl_pressed c" "\<not> g_caps_lock c"
    using assms(1) by (auto simp: keyboards_match_def)
  have nk: "sc AND 0x7F \<noteq> 0x3A" using assms(2) by (simp add: common_key_def)
  have e0: "sc = 0xE0 \<Longrightarrow> sc AND 0x7F = 0x60 \<and> key_char b sc = 0" for b by (simp add: key_char_def)
  have alt: "sc AND 0x7F = 0x38 \<Longrightarrow> key_char b sc = 0" for b
  proof -
    have "SCANCODE_TO_ASCII ! 56 = 0" "SCANCODE_TO_ASCII_SHIFT ! 56 = 0" by code_simp+
    then show "sc AND 0x7F = 0x38 \<Longrightarrow> key_char b sc = 0" by (simp add: key_char_def)
  qed
  have q: "keyboard_queue (keyboard_put ch k) = kb_queue (kb_buffer_put ch c)" for ch
    using kbd.content_put[OF a(1)] cdrv.content_put[OF a(2)] a(3) by simp
  show ?thesis
    using a nk e0 alt q kbd.put_inv[OF a(1)] cdrv.put_inv[OF a(2)]
    by (auto simp: keyboards_match_def handle_keyboard_scancode_cases kb_handle_scancode_cases[OF a(5,6) assms(2)])
qed

text \<open>
  C29. The two drivers agree. Started from the same queue and the same shift state, without control and caps lock, the kernel's handler and the C
  driver give the reader the same characters for every sequence of scancodes of the common keys; the keys left out are
  control and caps lock, which only the C driver uses, and four places of the numeric block, where the tables differ.
\<close>
theorem keyboard_drivers_agree:
  assumes "keyboards_match k c" "\<forall>sc \<in> set scs. common_key sc"
    and "k' = fold handle_keyboard_scancode scs k" "c' = fold kb_handle_scancode scs c"
  shows "keyboard_has_data k' = kb_has_data c' \<and> fst (reads keyboard_read_char n k') = fst (reads keyboard_get_char n c')"
proof -
  have "keyboards_match k' c'" unfolding assms(3,4) using assms(1,2)
    by (induction scs arbitrary: k c) (simp_all add: keyboards_match_step)
  then have m: "keyboard_inv k'" "kb_inv c'" "keyboard_queue k' = kb_queue c'" by (auto simp: keyboards_match_def)
  show ?thesis
    using kbd.has_data_iff[OF m(1)] cdrv.has_data_iff[OF m(2)] kbd.reads_content[OF m(1), of n] cdrv.reads_content[OF m(2), of n] m(3) by simp
qed

theorem keyboard_drivers_agree_witness:
  "fst (reads keyboard_read_char 2 (fold handle_keyboard_scancode [0x2A, 0x23, 0xAA, 0x17] keyboard_statics)) =
     fst (reads keyboard_get_char 2 (fold kb_handle_scancode [0x2A, 0x23, 0xAA, 0x17] kb_driver_statics))"
proof -
  have "kb_inv kb_driver_statics" "kb_queue kb_driver_statics = []"
    by (simp_all add: kb_inv_def ring_inv_def kb_queue_def ring_content_def ring_length_def kb_driver_statics_def)
  then have "keyboards_match keyboard_statics kb_driver_statics"
    using keyboard_statics_inv by (simp add: keyboards_match_def kb_driver_statics_def)
  moreover have "\<forall>sc \<in> set [0x2A, 0x23, 0xAA, 0x17]. common_key sc" by (simp add: common_key_def)
  ultimately show ?thesis using keyboard_drivers_agree by blast
qed

end
