(* ===== verification/Acpi.thy ===== *)
theory Acpi
  imports Bytes Devices
begin

text \<open>
  The ACPI table parser (\<open>src/src/acpi/mod.rs\<close>): the search for the root pointer, the checksums, the root tables and
  the interrupt controller and HPET tables. Firmware memory is a byte memory, which nothing changes while the parser runs; the packed structures are read
  field by field at their offsets. The counter of processors, which the code declares as \<open>u8\<close> but
  compares with 256 and uses as an array index, is a \<open>usize\<close>, as these uses require.
\<close>

section \<open>Firmware memory\<close>

definition mem_bytes :: "pmem \<Rightarrow> usize \<Rightarrow> nat \<Rightarrow> u8 list" where
  "mem_bytes m a n = map (\<lambda>i. m (a + i)) [0..<n]"

abbreviation mem_u16 :: "pmem \<Rightarrow> usize \<Rightarrow> u16" where
  "mem_u16 m a \<equiv> le_word (mem_bytes m a 2)"

abbreviation mem_u32 :: "pmem \<Rightarrow> usize \<Rightarrow> u32" where
  "mem_u32 m a \<equiv> le_word (mem_bytes m a 4)"

abbreviation mem_u64 :: "pmem \<Rightarrow> usize \<Rightarrow> u64" where
  "mem_u64 m a \<equiv> le_word (mem_bytes m a 8)"

lemma mem_bytes_Suc: "mem_bytes m a (Suc n) = m a # mem_bytes m (a + 1) n"
  by (simp add: mem_bytes_def upt_conv_Cons map_Suc_upt[symmetric] del: upt_Suc)

lemma mem_bytes_numeral: "mem_bytes m a (numeral k) = m a # mem_bytes m (a + 1) (pred_numeral k)"
  unfolding numeral_eq_Suc[of k] by (rule mem_bytes_Suc)

lemmas mem_bytes_unfold = mem_bytes_Suc mem_bytes_numeral mem_bytes_def[of _ _ 0]

section \<open>Root pointer\<close>

definition RSDP_SIGNATURE :: "u8 list" where
  "RSDP_SIGNATURE = [0x52, 0x53, 0x44, 0x20, 0x50, 0x54, 0x52, 0x20]"

definition RSDP_SIZE :: usize where "RSDP_SIZE = 36"

record Rsdp =
  rsdp_signature :: "u8 list"
  rsdp_revision :: u8
  rsdp_rsdt_address :: u32
  rsdp_xsdt_address :: u64

definition read_rsdp :: "pmem \<Rightarrow> usize \<Rightarrow> Rsdp" where
  "read_rsdp m p =
     \<lparr>rsdp_signature = mem_bytes m p 8, rsdp_revision = m (p + 15), rsdp_rsdt_address = mem_u32 m (p + 16),
      rsdp_xsdt_address = mem_u64 m (p + 24)\<rparr>"

text \<open>\<open>bytes.iter().fold(0u8, |acc, &b| acc.wrapping_add(b))\<close>\<close>

definition byte_sum :: "u8 list \<Rightarrow> u8" where
  "byte_sum bs = fold (\<lambda>b acc. acc + b) bs 0"

definition validate_checksum :: "pmem \<Rightarrow> usize \<Rightarrow> bool" where
  "validate_checksum m p = (byte_sum (mem_bytes m p RSDP_SIZE) = 0)"

text \<open>The loop over the offsets \<open>0, 16, 32, ...\<close> below \<open>size\<close>; \<open>n\<close> rounds are left.\<close>

fun search_loop :: "pmem \<Rightarrow> usize \<Rightarrow> usize \<Rightarrow> usize \<Rightarrow> nat \<Rightarrow> usize option" where
  "search_loop m start rsize offset 0 = None"
| "search_loop m start rsize offset (Suc n) =
     (let p = start + offset in
      if m p \<noteq> 0x52 then search_loop m start rsize (offset + 16) n
      else if p + 8 > start + rsize then None
      else if mem_bytes m p 8 = RSDP_SIGNATURE \<and> validate_checksum m p then Some p
      else search_loop m start rsize (offset + 16) n)"

definition search_region :: "pmem \<Rightarrow> usize \<Rightarrow> usize \<Rightarrow> usize option" where
  "search_region m start rsize = search_loop m start rsize 0 ((rsize + 15) div 16)"

definition rsdp_find :: "pmem \<Rightarrow> usize option" where
  "rsdp_find m =
     (let ebda_ptr = unat (mem_u16 m 0x40E) in
      case (if ebda_ptr \<noteq> 0 then search_region m ebda_ptr 1024 else None) of
        Some p \<Rightarrow> Some p
      | None \<Rightarrow> search_region m 0xE0000 0x20000)"

definition xsdt_address :: "Rsdp \<Rightarrow> PhysAddr option" where
  "xsdt_address r = (if rsdp_revision r \<ge> 2 \<and> rsdp_xsdt_address r \<noteq> 0 then Some (unat (rsdp_xsdt_address r)) else None)"

definition rsdt_address :: "Rsdp \<Rightarrow> PhysAddr" where
  "rsdt_address r = unat (rsdp_rsdt_address r)"

section \<open>Tables\<close>

definition SDT_HEADER_SIZE :: usize where "SDT_HEADER_SIZE = 36"

definition sdt_signature :: "pmem \<Rightarrow> PhysAddr \<Rightarrow> u8 list" where
  "sdt_signature m a = mem_bytes m a 4"

definition sdt_length :: "pmem \<Rightarrow> PhysAddr \<Rightarrow> usize" where
  "sdt_length m a = unat (mem_u32 m (a + 4))"

definition sdt_validate :: "pmem \<Rightarrow> PhysAddr \<Rightarrow> bool" where
  "sdt_validate m a = (byte_sum (mem_bytes m a (sdt_length m a)) = 0)"

definition MADT_SIGNATURE :: "u8 list" where "MADT_SIGNATURE = [0x41, 0x50, 0x49, 0x43]"
definition HPET_SIGNATURE :: "u8 list" where "HPET_SIGNATURE = [0x48, 0x50, 0x45, 0x54]"
definition FADT_SIGNATURE :: "u8 list" where "FADT_SIGNATURE = [0x46, 0x41, 0x43, 0x50]"

datatype MadtEntryType =
    LocalApicEntry | IoApicEntry | InterruptSourceOverride | NmiSource | LocalApicNmi | LocalApicAddressOverride
  | IoSapic | LocalSapic | PlatformInterruptSource | UnknownEntry

definition madt_entry_type_from :: "u8 \<Rightarrow> MadtEntryType" where
  "madt_entry_type_from v =
     (if v = 0 then LocalApicEntry
      else if v = 1 then IoApicEntry
      else if v = 2 then InterruptSourceOverride
      else if v = 3 then NmiSource
      else if v = 4 then LocalApicNmi
      else if v = 5 then LocalApicAddressOverride
      else if v = 6 then IoSapic
      else if v = 7 then LocalSapic
      else if v = 8 then PlatformInterruptSource
      else UnknownEntry)"

record ProcessorInfo =
  pi_processor_id :: u8
  pi_apic_id :: u8
  pi_is_enabled :: bool

record IntOverride =
  io_bus_source :: u8
  io_irq_source :: u8
  io_global_system_interrupt :: u32
  io_flags :: u16

record AcpiInfo =
  local_apic_address :: PhysAddr
  io_apic_address :: PhysAddr
  io_apic_gsi_base :: u32
  hpet_address :: PhysAddr
  hpet_number :: u8
  hpet_min_tick :: u16
  processor_count :: usize
  processors :: "ProcessorInfo list"
  int_overrides :: "IntOverride list"
  int_override_count :: usize
  is_acpi_2 :: bool

definition acpi_info_new :: AcpiInfo where
  "acpi_info_new =
     \<lparr>local_apic_address = 0xFEE00000, io_apic_address = 0xFEC00000, io_apic_gsi_base = 0, hpet_address = 0,
      hpet_number = 0, hpet_min_tick = 0, processor_count = 0,
      processors = replicate 256 \<lparr>pi_processor_id = 0, pi_apic_id = 0, pi_is_enabled = False\<rparr>,
      int_overrides = replicate 16 \<lparr>io_bus_source = 0, io_irq_source = 0, io_global_system_interrupt = 0, io_flags = 0\<rparr>,
      int_override_count = 0, is_acpi_2 = False\<rparr>"

text \<open>One entry of the interrupt controller table at address \<open>e\<close>.\<close>

definition madt_entry :: "pmem \<Rightarrow> usize \<Rightarrow> AcpiInfo \<Rightarrow> AcpiInfo" where
  "madt_entry m e info =
     (case madt_entry_type_from (m e) of
        LocalApicEntry \<Rightarrow>
          (if processor_count info < 256
           then info\<lparr>processors := (processors info)[processor_count info :=
                        \<lparr>pi_processor_id = m (e + 2), pi_apic_id = m (e + 3), pi_is_enabled = (mem_u32 m (e + 4) AND 1 \<noteq> 0)\<rparr>],
                     processor_count := processor_count info + 1\<rparr>
           else info)
      | IoApicEntry \<Rightarrow>
          info\<lparr>io_apic_address := unat (mem_u32 m (e + 4)), io_apic_gsi_base := mem_u32 m (e + 8)\<rparr>
      | InterruptSourceOverride \<Rightarrow>
          (if int_override_count info < 16
           then info\<lparr>int_overrides := (int_overrides info)[int_override_count info :=
                        \<lparr>io_bus_source = m (e + 2), io_irq_source = m (e + 3),
                         io_global_system_interrupt = mem_u32 m (e + 4), io_flags = mem_u16 m (e + 8)\<rparr>],
                     int_override_count := int_override_count info + 1\<rparr>
           else info)
      | LocalApicAddressOverride \<Rightarrow> info\<lparr>local_apic_address := unat (mem_u64 m (e + 4))\<rparr>
      | _ \<Rightarrow> info)"

definition MADT_SIZE :: usize where "MADT_SIZE = 44"

function madt_loop :: "pmem \<Rightarrow> PhysAddr \<Rightarrow> usize \<Rightarrow> usize \<Rightarrow> AcpiInfo \<Rightarrow> AcpiInfo" where
  "madt_loop m addr len offset info =
     (if offset < len
      then let info' = madt_entry m (addr + offset) info;
               entry_len = unat (m (addr + offset + 1))
           in if entry_len = 0 then info' else madt_loop m addr len (offset + entry_len) info'
      else info)"
  by pat_completeness auto
termination
  by (relation "measure (\<lambda>(m, addr, len, offset, info). len - offset)") auto

declare madt_loop.simps [simp del]

definition parse_madt :: "pmem \<Rightarrow> PhysAddr \<Rightarrow> AcpiInfo \<Rightarrow> AcpiInfo" where
  "parse_madt m addr info =
     madt_loop m addr (sdt_length m addr) MADT_SIZE (info\<lparr>local_apic_address := unat (mem_u32 m (addr + 36))\<rparr>)"

definition parse_hpet :: "pmem \<Rightarrow> PhysAddr \<Rightarrow> AcpiInfo \<Rightarrow> AcpiInfo" where
  "parse_hpet m addr info =
     info\<lparr>hpet_address := unat (mem_u64 m (addr + 44)), hpet_number := m (addr + 52), hpet_min_tick := mem_u16 m (addr + 53)\<rparr>"

definition parse_table :: "pmem \<Rightarrow> PhysAddr \<Rightarrow> AcpiInfo \<Rightarrow> AcpiInfo" where
  "parse_table m addr info =
     (let sig = sdt_signature m addr in
      if sig = MADT_SIGNATURE then parse_madt m addr info
      else if sig = HPET_SIGNATURE then parse_hpet m addr info
      else info)"

definition parse_entry :: "pmem \<Rightarrow> PhysAddr \<Rightarrow> AcpiInfo \<Rightarrow> AcpiInfo" where
  "parse_entry m addr info = (if addr = 0 then info else parse_table m addr info)"

definition parse_xsdt :: "pmem \<Rightarrow> PhysAddr \<Rightarrow> AcpiInfo \<Rightarrow> (string + unit) \<times> AcpiInfo" where
  "parse_xsdt m xsdt info =
     (if sdt_signature m xsdt \<noteq> [0x58, 0x53, 0x44, 0x54] then (Inl ''Invalid XSDT signature'', info)
      else if \<not> sdt_validate m xsdt then (Inl ''XSDT checksum invalid'', info)
      else let entry_count = usize_sub (sdt_length m xsdt) SDT_HEADER_SIZE div 8
           in (Inr (), fold (\<lambda>i. parse_entry m (unat (mem_u64 m (xsdt + SDT_HEADER_SIZE + 8 * i)))) [0..<entry_count] info))"

definition parse_rsdt :: "pmem \<Rightarrow> PhysAddr \<Rightarrow> AcpiInfo \<Rightarrow> (string + unit) \<times> AcpiInfo" where
  "parse_rsdt m rsdt info =
     (if sdt_signature m rsdt \<noteq> [0x52, 0x53, 0x44, 0x54] then (Inl ''Invalid RSDT signature'', info)
      else if \<not> sdt_validate m rsdt then (Inl ''RSDT checksum invalid'', info)
      else let entry_count = usize_sub (sdt_length m rsdt) SDT_HEADER_SIZE div 4
           in (Inr (), fold (\<lambda>i. parse_entry m (unat (mem_u32 m (rsdt + SDT_HEADER_SIZE + 4 * i)))) [0..<entry_count] info))"

definition acpi_parse :: "pmem \<Rightarrow> AcpiInfo \<Rightarrow> (string + AcpiInfo) \<times> AcpiInfo" where
  "acpi_parse m info =
     (case rsdp_find m of
        None \<Rightarrow> (Inl ''RSDP not found'', info)
      | Some p \<Rightarrow>
          let rsdp = read_rsdp m p;
              info1 = info\<lparr>is_acpi_2 := (rsdp_revision rsdp \<ge> 2)\<rparr>;
              (r, info2) = (case xsdt_address rsdp of
                              Some a \<Rightarrow> parse_xsdt m a info1
                            | None \<Rightarrow> parse_rsdt m (rsdt_address rsdp) info1)
          in (case r of Inl e \<Rightarrow> (Inl e, info2) | Inr _ \<Rightarrow> (Inr info2, info2)))"

section \<open>The interrupt controller table\<close>

text \<open>The entries of the table, and what each of the two kinds that are collected says.\<close>

function madt_entries :: "pmem \<Rightarrow> PhysAddr \<Rightarrow> usize \<Rightarrow> usize \<Rightarrow> usize list" where
  "madt_entries m addr len offset =
     (if offset < len
      then (addr + offset) #
           (let entry_len = unat (m (addr + offset + 1))
            in if entry_len = 0 then [] else madt_entries m addr len (offset + entry_len))
      else [])"
  by pat_completeness auto
termination
  by (relation "measure (\<lambda>(m, addr, len, offset). len - offset)") auto

declare madt_entries.simps [simp del]

definition processors_of :: "pmem \<Rightarrow> usize list \<Rightarrow> ProcessorInfo list" where
  "processors_of m es =
     map (\<lambda>e. \<lparr>pi_processor_id = m (e + 2), pi_apic_id = m (e + 3), pi_is_enabled = (mem_u32 m (e + 4) AND 1 \<noteq> 0)\<rparr>)
       [e \<leftarrow> es. m e = 0]"

definition overrides_of :: "pmem \<Rightarrow> usize list \<Rightarrow> IntOverride list" where
  "overrides_of m es =
     map (\<lambda>e. \<lparr>io_bus_source = m (e + 2), io_irq_source = m (e + 3),
               io_global_system_interrupt = mem_u32 m (e + 4), io_flags = mem_u16 m (e + 8)\<rparr>)
       [e \<leftarrow> es. m e = 2]"

definition active_processors :: "AcpiInfo \<Rightarrow> ProcessorInfo list" where
  "active_processors i = take (processor_count i) (processors i)"

definition active_overrides :: "AcpiInfo \<Rightarrow> IntOverride list" where
  "active_overrides i = take (int_override_count i) (int_overrides i)"

definition acpi_wf :: "AcpiInfo \<Rightarrow> bool" where
  "acpi_wf i \<longleftrightarrow> length (processors i) = 256 \<and> processor_count i \<le> 256 \<and>
     length (int_overrides i) = 16 \<and> int_override_count i \<le> 16"

lemma acpi_wf_new: "acpi_wf acpi_info_new"
  by (simp add: acpi_wf_def acpi_info_new_def)

lemma madt_loop_fold: "madt_loop m addr len offset info = fold (madt_entry m) (madt_entries m addr len offset) info"
proof (induction m addr len offset info rule: madt_loop.induct)
  case (1 m addr len offset info)
  then show ?case
    by (subst madt_loop.simps, subst madt_entries.simps) (simp add: Let_def)
qed

lemma take_append_update:
  "n < length xs \<Longrightarrow> take (Suc n) (xs[n := x]) = take n xs @ [x]"
  by (simp add: take_Suc_conv_app_nth)

lemma madt_entry_type_cases:
  "madt_entry_type_from v = LocalApicEntry \<longleftrightarrow> v = 0" "madt_entry_type_from v = InterruptSourceOverride \<longleftrightarrow> v = 2"
  by (simp_all add: madt_entry_type_from_def)

lemma madt_entry_collects:
  assumes "acpi_wf info"
  shows "acpi_wf (madt_entry m e info)"
    "active_processors (madt_entry m e info) = take 256 (active_processors info @ processors_of m [e])"
    "active_overrides (madt_entry m e info) = take 16 (active_overrides info @ overrides_of m [e])"
proof -
  consider (cpu) "m e = 0" | (ovr) "m e = 2" | (other) "m e \<noteq> 0" "m e \<noteq> 2" by blast
  then have "acpi_wf (madt_entry m e info) \<and>
    active_processors (madt_entry m e info) = take 256 (active_processors info @ processors_of m [e]) \<and>
    active_overrides (madt_entry m e info) = take 16 (active_overrides info @ overrides_of m [e])"
  proof cases
    case cpu
    then have ty: "madt_entry_type_from (m e) = LocalApicEntry" by (simp add: madt_entry_type_cases)
    note d = madt_entry_def[of m e info, unfolded ty MadtEntryType.case]
    show ?thesis unfolding d using assms cpu
      by (cases "processor_count info < 256")
        (simp_all add: acpi_wf_def active_processors_def active_overrides_def processors_of_def overrides_of_def take_append_update)
  next
    case ovr
    then have ty: "madt_entry_type_from (m e) = InterruptSourceOverride" by (simp add: madt_entry_type_cases)
    note d = madt_entry_def[of m e info, unfolded ty MadtEntryType.case]
    show ?thesis unfolding d using assms ovr
      by (cases "int_override_count info < 16")
        (simp_all add: acpi_wf_def active_processors_def active_overrides_def processors_of_def overrides_of_def take_append_update)
  next
    case other
    then have ty: "madt_entry_type_from (m e) \<noteq> LocalApicEntry" "madt_entry_type_from (m e) \<noteq> InterruptSourceOverride"
      by (simp_all add: madt_entry_type_cases)
    show ?thesis using assms other ty
      by (cases "madt_entry_type_from (m e)")
        (simp_all add: madt_entry_def acpi_wf_def active_processors_def active_overrides_def processors_of_def overrides_of_def)
  qed
  then show "acpi_wf (madt_entry m e info)"
    "active_processors (madt_entry m e info) = take 256 (active_processors info @ processors_of m [e])"
    "active_overrides (madt_entry m e info) = take 16 (active_overrides info @ overrides_of m [e])" by blast+
qed

lemma fold_madt_entries:
  assumes "acpi_wf info"
  shows "acpi_wf (fold (madt_entry m) es info) \<and>
    active_processors (fold (madt_entry m) es info) = take 256 (active_processors info @ processors_of m es) \<and>
    active_overrides (fold (madt_entry m) es info) = take 16 (active_overrides info @ overrides_of m es)"
  using assms
proof (induction es arbitrary: info)
  case Nil
  then show ?case by (simp add: acpi_wf_def active_processors_def active_overrides_def processors_of_def overrides_of_def)
next
  case (Cons e es)
  have "processors_of m (e # es) = processors_of m [e] @ processors_of m es"
    "overrides_of m (e # es) = overrides_of m [e] @ overrides_of m es" by (simp_all add: processors_of_def overrides_of_def)
  then show ?case using Cons.IH[OF madt_entry_collects(1)[OF Cons.prems], of m e]
    by (simp only: madt_entry_collects(2,3)[OF Cons.prems] take_take_append append_assoc fold_simps simp_thms)
qed

lemma parse_madt_fold:
  "parse_madt m addr info = fold (madt_entry m) (madt_entries m addr (sdt_length m addr) MADT_SIZE)
     (info\<lparr>local_apic_address := unat (mem_u32 m (addr + 36))\<rparr>)"
  by (simp add: parse_madt_def madt_loop_fold)


text \<open>A table with one processor entry.\<close>

definition demo_madt :: pmem where
  "demo_madt a = (if a = 4 then 52 else if a = 45 then 8 else if a = 46 then 1 else if a = 47 then 7 else if a = 48 then 1 else 0)"

lemma demo_madt_entries: "madt_entries demo_madt 0 (sdt_length demo_madt 0) MADT_SIZE = [44]"
proof -
  have "sdt_length demo_madt 0 = 52"
    by (simp add: sdt_length_def mem_bytes_unfold demo_madt_def)
  then show ?thesis
    by (subst madt_entries.simps) (simp add: MADT_SIZE_def demo_madt_def madt_entries.simps[of _ _ 52 52])
qed


lemma parse_madt_wf: "acpi_wf info \<Longrightarrow> acpi_wf (parse_madt m addr info)"
  using fold_madt_entries by (simp add: parse_madt_fold acpi_wf_def)

lemma parse_entry_wf: "acpi_wf info \<Longrightarrow> acpi_wf (parse_entry m addr info)"
  using parse_madt_wf[of info m addr]
  by (auto simp: parse_entry_def parse_table_def parse_hpet_def Let_def acpi_wf_def)

lemma fold_parse_entry_wf: "acpi_wf info \<Longrightarrow> acpi_wf (fold (\<lambda>i. parse_entry m (f i)) is info)"
  by (induction "is" arbitrary: info) (simp_all add: parse_entry_wf)

lemma parse_root_wf:
  "acpi_wf info \<Longrightarrow> acpi_wf (snd (parse_xsdt m a info))" "acpi_wf info \<Longrightarrow> acpi_wf (snd (parse_rsdt m a info))"
  by (auto simp: parse_xsdt_def parse_rsdt_def Let_def fold_parse_entry_wf)

text \<open>The arrays stay within their bounds for every firmware memory, on success and on failure.\<close>

lemma acpi_parse_keeps_wf:
  assumes "acpi_wf info"
  shows "acpi_wf (snd (acpi_parse m info))"
proof (cases "rsdp_find m")
  case None
  then show ?thesis using assms by (simp add: acpi_parse_def)
next
  case (Some p)
  define i where "i = info\<lparr>is_acpi_2 := (rsdp_revision (read_rsdp m p) \<ge> 2)\<rparr>"
  have "acpi_wf i" using assms by (simp add: acpi_wf_def i_def)
  moreover obtain r j where r: "(case xsdt_address (read_rsdp m p) of
      Some a \<Rightarrow> parse_xsdt m a i | None \<Rightarrow> parse_rsdt m (rsdt_address (read_rsdp m p)) i) = (r, j)"
    by (rule prod.exhaust)
  ultimately have "acpi_wf j"
    using parse_root_wf[of i m] by (cases "xsdt_address (read_rsdp m p)") (metis option.case snd_conv)+
  moreover have "snd (acpi_parse m info) = j"
    unfolding acpi_parse_def Some Let_def option.case i_def[symmetric] r by (cases r) simp_all
  ultimately show ?thesis by simp
qed

lemma acpi_parse_wf: "acpi_wf (snd (acpi_parse m acpi_info_new))"
  by (rule acpi_parse_keeps_wf[OF acpi_wf_new])

text \<open>What the search returns is a root pointer with its signature and a valid checksum.\<close>

lemma search_loop_Some:
  "search_loop m start rsize offset n = Some p \<Longrightarrow>
     mem_bytes m p 8 = RSDP_SIGNATURE \<and> validate_checksum m p \<and> (\<exists>k < n. p = start + offset + 16 * k) \<and> p + 8 \<le> start + rsize"
proof (induction n arbitrary: offset)
  case (Suc n)
  have eq: "search_loop m start rsize offset (Suc n) =
     (if m (start + offset) \<noteq> 0x52 then search_loop m start rsize (offset + 16) n
      else if start + offset + 8 > start + rsize then None
      else if mem_bytes m (start + offset) 8 = RSDP_SIGNATURE \<and> validate_checksum m (start + offset) then Some (start + offset)
      else search_loop m start rsize (offset + 16) n)"
    by (simp only: search_loop.simps Let_def)
  consider "search_loop m start rsize (offset + 16) n = Some p"
    | "p = start + offset" "start + offset + 8 \<le> start + rsize" "mem_bytes m (start + offset) 8 = RSDP_SIGNATURE"
      "validate_checksum m (start + offset)"
    using Suc.prems unfolding eq by (metis not_less option.distinct(1) option.inject)
  then show ?case
  proof cases
    case 1
    from Suc.IH[OF this] obtain k where "k < n" "p = start + (offset + 16) + 16 * k" "mem_bytes m p 8 = RSDP_SIGNATURE"
      "validate_checksum m p" "p + 8 \<le> start + rsize" by blast
    then show ?thesis by (intro conjI exI[of _ "Suc k"]) simp_all
  next
    case 2
    then show ?thesis by (metis add.right_neutral mult_0_right zero_less_Suc)
  qed
qed simp

end
