(* ===== verification/Timer.thy ===== *)
theory Timer
  imports Acpi Console
begin

text \<open>
  The timer subsystem (\<open>src/src/timer/mod.rs\<close>): the interval timer and the HPET as drivers on the access sequence, and
  the tick counters. Divisions by a zero frequency panic (\<open>None\<close>), and so does waiting for a timer that never
  expires. Messages on the console are left out.
\<close>

section \<open>Constants and state\<close>

definition PIT_CHANNEL_0 :: u16 where "PIT_CHANNEL_0 = 0x40"
definition PIT_CHANNEL_2 :: u16 where "PIT_CHANNEL_2 = 0x42"
definition PIT_COMMAND :: u16 where "PIT_COMMAND = 0x43"
definition PIT_BASE_FREQ :: u64 where "PIT_BASE_FREQ = 1193182"
definition PIT_MODE_ONESHOT :: u8 where "PIT_MODE_ONESHOT = 1"
definition PIT_MODE_RATE_GEN :: u8 where "PIT_MODE_RATE_GEN = 2"
definition PIT_LOHI :: u8 where "PIT_LOHI = 3"
definition HPET_GENERAL_CAPS :: usize where "HPET_GENERAL_CAPS = 0x000"
definition HPET_GENERAL_CONFIG :: usize where "HPET_GENERAL_CONFIG = 0x010"
definition HPET_MAIN_COUNTER :: usize where "HPET_MAIN_COUNTER = 0x0F0"
definition HPET_TIMER0_CONFIG :: usize where "HPET_TIMER0_CONFIG = 0x100"
definition HPET_TIMER0_COMPARATOR :: usize where "HPET_TIMER0_COMPARATOR = 0x108"
definition HPET_CONFIG_ENABLE :: u64 where "HPET_CONFIG_ENABLE = 1"
definition HPET_CONFIG_LEGACY_ROUTE :: u64 where "HPET_CONFIG_LEGACY_ROUTE = 2"
definition HPET_TIMER_CONFIG_ENABLE :: u64 where "HPET_TIMER_CONFIG_ENABLE = 1"
definition HPET_TIMER_CONFIG_PERIODIC :: u64 where "HPET_TIMER_CONFIG_PERIODIC = 2"
definition HPET_TIMER_CONFIG_IRQ_ENABLE :: u64 where "HPET_TIMER_CONFIG_IRQ_ENABLE = 4"

record timer_statics =
  TICK_COUNT :: u64
  TIMER_HZ :: u32
  HPET_BASE :: PhysAddr
  HPET_PERIOD :: u64
  HPET_AVAILABLE :: bool
  UPTIME_MS :: u64

definition timer_statics_init :: timer_statics where
  "timer_statics_init =
     \<lparr>TICK_COUNT = 0, TIMER_HZ = 100, HPET_BASE = 0, HPET_PERIOD = 0, HPET_AVAILABLE = False, UPTIME_MS = 0\<rparr>"

section \<open>Interval timer\<close>

definition pit_divisor :: "u32 \<Rightarrow> u16" where
  "pit_divisor frequency_hz =
     (if frequency_hz = 0 then 0xFFFF
      else let d = PIT_BASE_FREQ div ucast frequency_hz
           in if d > 65535 then 65535 else if d < 1 then 1 else ucast d)"

definition pit_init :: "u32 \<Rightarrow> timer_statics \<times> io \<Rightarrow> timer_statics \<times> io" where
  "pit_init frequency_hz = (\<lambda>(t, io).
     let divisor = pit_divisor frequency_hz in
     (t\<lparr>TIMER_HZ := frequency_hz\<rparr>,
      outs [(PIT_COMMAND, push_bit 4 PIT_LOHI OR push_bit 1 PIT_MODE_RATE_GEN OR 0),
            (PIT_CHANNEL_0, ucast (divisor AND 0xFF)),
            (PIT_CHANNEL_0, ucast (drop_bit 8 divisor AND 0xFF))] io))"

definition pit_current_count :: "hardware \<Rightarrow> io \<Rightarrow> u16 \<times> io" where
  "pit_current_count hw io =
     (let io1 = outb PIT_COMMAND 0 io;
          (lo, io2) = inb hw PIT_CHANNEL_0 io1;
          (hi, io3) = inb hw PIT_CHANNEL_0 io2
      in (push_bit 8 (ucast hi) OR ucast lo, io3))"

definition pit_start_channel_2 :: "hardware \<Rightarrow> io \<Rightarrow> io" where
  "pit_start_channel_2 hw io = (let (v, io1) = inb hw 0x61 io in outb 0x61 ((v AND 0x0D) OR 0x01) io1)"

definition pit_delay_ms :: "hardware \<Rightarrow> u32 \<Rightarrow> io \<Rightarrow> io option" where
  "pit_delay_ms hw ms io =
     (let ticks = ucast (PIT_BASE_FREQ * ucast ms div 1000) :: u16;
          io1 = pit_start_channel_2 hw io;
          io2 = outs [(PIT_COMMAND, 0xB2), (PIT_CHANNEL_2, ucast (ticks AND 0xFF)),
                      (PIT_CHANNEL_2, ucast (drop_bit 8 ticks AND 0xFF))] io1;
          io3 = pit_start_channel_2 hw io2
      in wait_port hw 0x61 0x20 io3)"

definition pit_disable :: "io \<Rightarrow> io" where
  "pit_disable =
     outs [(PIT_COMMAND, push_bit 4 PIT_LOHI OR push_bit 1 PIT_MODE_ONESHOT OR 0), (PIT_CHANNEL_0, 0xFF), (PIT_CHANNEL_0, 0xFF)]"

section \<open>HPET\<close>

definition hpet_read_reg :: "hardware \<Rightarrow> usize \<Rightarrow> timer_statics \<Rightarrow> io \<Rightarrow> u64 \<times> io" where
  "hpet_read_reg hw offset t io = read_volatile64 hw (usize_add (HPET_BASE t) offset) io"

definition hpet_write_reg :: "usize \<Rightarrow> u64 \<Rightarrow> timer_statics \<Rightarrow> io \<Rightarrow> io" where
  "hpet_write_reg offset v t io = write_volatile64 (usize_add (HPET_BASE t) offset) v io"

definition hpet_is_available :: "timer_statics \<Rightarrow> bool" where
  "hpet_is_available t = HPET_AVAILABLE t"

definition hpet_init :: "hardware \<Rightarrow> AcpiInfo \<Rightarrow> timer_statics \<times> io \<Rightarrow> (string + unit) \<times> timer_statics \<times> io" where
  "hpet_init hw info = (\<lambda>(t, io).
     if hpet_address info = 0 then (Inr (), t, io)
     else let t1 = t\<lparr>HPET_BASE := hpet_address info\<rparr>;
              (caps, io1) = hpet_read_reg hw HPET_GENERAL_CAPS t1 io;
              period = drop_bit 32 caps AND 0xFFFFFFFF;
              legacy_route = (caps AND push_bit 15 1 \<noteq> 0)
          in if period = 0 \<or> period > 100000000 then (Inl ''Invalid HPET period'', t1, io1)
             else let t2 = t1\<lparr>HPET_PERIOD := period, HPET_AVAILABLE := True\<rparr>;
                      config = (if legacy_route then HPET_CONFIG_ENABLE OR HPET_CONFIG_LEGACY_ROUTE else HPET_CONFIG_ENABLE);
                      io2 = hpet_write_reg HPET_GENERAL_CONFIG config t2 io1;
                      io3 = hpet_write_reg HPET_MAIN_COUNTER 0 t2 io2
                  in (Inr (), t2, io3))"

definition hpet_setup_periodic :: "u32 \<Rightarrow> timer_statics \<Rightarrow> io \<Rightarrow> ((string + unit) \<times> io) option" where
  "hpet_setup_periodic frequency_hz t io =
     (if \<not> hpet_is_available t then Some (Inl ''HPET not available'', io)
      else if frequency_hz = 0 \<or> HPET_PERIOD t = 0 then None
      else let ticks_per_period = (1000000000000000 div ucast frequency_hz) div HPET_PERIOD t;
               io1 = hpet_write_reg HPET_TIMER0_CONFIG 0 t io;
               io2 = hpet_write_reg HPET_TIMER0_COMPARATOR ticks_per_period t io1;
               timer_config = HPET_TIMER_CONFIG_ENABLE OR HPET_TIMER_CONFIG_PERIODIC OR HPET_TIMER_CONFIG_IRQ_ENABLE
           in Some (Inr (), hpet_write_reg HPET_TIMER0_CONFIG timer_config t io2))"

definition hpet_counter :: "hardware \<Rightarrow> timer_statics \<Rightarrow> io \<Rightarrow> u64 \<times> io" where
  "hpet_counter hw t io = (if hpet_is_available t then hpet_read_reg hw HPET_MAIN_COUNTER t io else (0, io))"

definition hpet_uptime_us :: "hardware \<Rightarrow> timer_statics \<Rightarrow> io \<Rightarrow> (u64 \<times> io) option" where
  "hpet_uptime_us hw t io =
     (if \<not> hpet_is_available t
      then (if TIMER_HZ t = 0 then None else Some (TICK_COUNT t * 10000 div ucast (TIMER_HZ t), io))
      else let (count, io1) = hpet_counter hw t io in Some (count * HPET_PERIOD t div 1000000000, io1))"

section \<open>Ticks\<close>

definition on_timer_tick :: "timer_statics \<Rightarrow> timer_statics option" where
  "on_timer_tick t =
     (if TIMER_HZ t = 0 then None
      else Some (t\<lparr>TICK_COUNT := TICK_COUNT t + 1, UPTIME_MS := UPTIME_MS t + 1000 div ucast (TIMER_HZ t)\<rparr>))"

definition timer_ticks :: "timer_statics \<Rightarrow> u64" where
  "timer_ticks t = TICK_COUNT t"

definition timer_hz :: "timer_statics \<Rightarrow> u32" where
  "timer_hz t = TIMER_HZ t"

definition uptime_ms :: "timer_statics \<Rightarrow> u64" where
  "uptime_ms t = UPTIME_MS t"

definition uptime_sec :: "timer_statics \<Rightarrow> u64" where
  "uptime_sec t = uptime_ms t div 1000"

definition timer_init :: "hardware \<Rightarrow> AcpiInfo \<Rightarrow> timer_statics \<times> io \<Rightarrow> timer_statics \<times> io" where
  "timer_init hw info st = snd (hpet_init hw info (pit_init 100 st))"

section \<open>Properties\<close>

primrec ticks :: "nat \<Rightarrow> timer_statics \<Rightarrow> timer_statics option" where
  "ticks 0 t = Some t"
| "ticks (Suc n) t = Option.bind (on_timer_tick t) (ticks n)"

lemma ticks_at_100:
  assumes "TIMER_HZ t = 100"
  shows "\<exists>t'. ticks n t = Some t' \<and> TICK_COUNT t' = TICK_COUNT t + word_of_nat n \<and>
    UPTIME_MS t' = UPTIME_MS t + word_of_nat (10 * n) \<and> TIMER_HZ t' = 100 \<and>
    HPET_BASE t' = HPET_BASE t \<and> HPET_PERIOD t' = HPET_PERIOD t \<and> HPET_AVAILABLE t' = HPET_AVAILABLE t"
  using assms
proof (induction n arbitrary: t)
  case (Suc n)
  let ?t = "t\<lparr>TICK_COUNT := TICK_COUNT t + 1, UPTIME_MS := UPTIME_MS t + 10\<rparr>"
  have "on_timer_tick t = Some ?t" using Suc.prems by (simp add: on_timer_tick_def)
  then show ?case using Suc.IH[of ?t] Suc.prems by (auto simp: algebra_simps)
qed simp

lemma hpet_init_keeps:
  "hpet_init hw info (t, io) = (r, t', io') \<Longrightarrow> TICK_COUNT t' = TICK_COUNT t \<and> TIMER_HZ t' = TIMER_HZ t \<and> UPTIME_MS t' = UPTIME_MS t"
  by (auto simp: hpet_init_def Let_def split: if_splits prod.splits)

text \<open>
  The heartbeat counts time. After the initialisation, whatever the HPET answers, the timer runs at 100 Hz, no tick panics, and
  after \<open>n\<close> ticks the tick counter has advanced by \<open>n\<close>, the millisecond clock by \<open>10 * n\<close> and, counted from zero, the
  uptime is \<open>n\<close> hundredths of a second.
\<close>
theorem timer_heartbeat:
  assumes "timer_init hw info (t, io) = (t1, io1)" "TICK_COUNT t = 0" "UPTIME_MS t = 0" "10 * n < 2 ^ 64"
  shows "\<exists>t2. ticks n t1 = Some t2 \<and> timer_hz t2 = 100 \<and> unat (timer_ticks t2) = n \<and>
    unat (uptime_ms t2) = 10 * n \<and> unat (uptime_sec t2) = n div 100"
proof -
  obtain r where "hpet_init hw info (t\<lparr>TIMER_HZ := 100\<rparr>, snd (pit_init 100 (t, io))) = (r, t1, io1)"
    using assms(1) by (cases "hpet_init hw info (pit_init 100 (t, io))") (auto simp: timer_init_def pit_init_def Let_def)
  then have "TICK_COUNT t1 = 0" "TIMER_HZ t1 = 100" "UPTIME_MS t1 = 0" using hpet_init_keeps assms(2,3) by fastforce+
  then obtain t2 where t2: "ticks n t1 = Some t2" "TICK_COUNT t2 = word_of_nat n" "UPTIME_MS t2 = word_of_nat (10 * n)" "TIMER_HZ t2 = 100"
    using ticks_at_100[of t1 n] by auto
  have u: "unat (word_of_nat n :: u64) = n" "unat (word_of_nat (10 * n) :: u64) = 10 * n"
    by (rule unat_of_nat_small(4), use assms(4) in simp)+
  have "unat (UPTIME_MS t2 div 1000) = n div 100" unfolding t2(3) unat_div_distrib u by simp
  then show ?thesis using t2 u by (simp add: timer_hz_def timer_ticks_def uptime_ms_def uptime_sec_def)
qed

theorem timer_heartbeat_witness:
  "\<exists>t1 io1 t2. timer_init ready_hardware acpi_info_new (timer_statics_init, []) = (t1, io1) \<and> ticks 250 t1 = Some t2 \<and>
     unat (uptime_ms t2) = 2500 \<and> unat (uptime_sec t2) = 2"
proof -
  obtain t1 io1 where t1: "timer_init ready_hardware acpi_info_new (timer_statics_init, []) = (t1, io1)" by fastforce
  have "TICK_COUNT timer_statics_init = 0" "UPTIME_MS timer_statics_init = 0" by (simp_all add: timer_statics_init_def)
  with timer_heartbeat[OF t1, of 250] t1 show ?thesis by auto
qed

text \<open>
  The divisor of the interval timer: the period is as close to the requested one as the 16-bit register allows.
\<close>

lemma pit_divisor_bounds:
  assumes "19 \<le> f" "f \<le> 1193182"
  shows "1 \<le> unat (pit_divisor f)" "unat (pit_divisor f) * unat f \<le> 1193182" "1193182 < (unat (pit_divisor f) + 1) * unat f"
proof -
  have f: "19 \<le> unat f" "unat f \<le> 1193182" using assms by (simp_all add: word_le_nat_alt)
  have u: "unat (PIT_BASE_FREQ div ucast f) = 1193182 div unat f"
    unfolding unat_div_distrib using f(2) by (simp add: PIT_BASE_FREQ_def unsigned_ucast_eq take_bit_nat_eq_self)
  have le: "1193182 div unat f \<le> 1193182 div 19" using f(1) by (rule div_le_mono2[rotated]) simp
  have ge: "1 \<le> 1193182 div unat f" using f by (simp add: div_greater_zero_iff Suc_le_eq)
  have nz: "f \<noteq> 0" using f(1) by auto
  have "\<not> PIT_BASE_FREQ div ucast f > 65535" "\<not> PIT_BASE_FREQ div ucast f < 1"
    using u le ge by (simp_all add: word_less_nat_alt)
  then have "pit_divisor f = ucast (PIT_BASE_FREQ div ucast f)" using nz by (simp add: pit_divisor_def Let_def)
  then have d: "unat (pit_divisor f) = 1193182 div unat f"
    using u le by (simp add: unsigned_ucast_eq take_bit_nat_eq_self)
  show "1 \<le> unat (pit_divisor f)" using ge d by simp
  show "unat (pit_divisor f) * unat f \<le> 1193182" unfolding d by simp
  show "1193182 < (unat (pit_divisor f) + 1) * unat f" unfolding d using f(1) dividend_less_div_times[of "unat f" 1193182] by simp
qed

end
