(* ===== verification/Apic.thy ===== *)
theory Apic
  imports Timer
begin

text \<open>
  The interrupt controllers (\<open>src/src/apic/mod.rs\<close>): the local APIC with its timer, calibrated against the interval
  timer, and the IO APIC with its redirection table, as drivers on the access sequence. The statics are a record,
  messages are left out, and a wait that does not end or a division by zero has no result. The IO APIC itself is
  hardware: its documented behaviour, a select register and a data window, is a predicate on the parameter.
\<close>

section \<open>Constants and state\<close>

definition LAPIC_ID :: usize where "LAPIC_ID = 0x020"
definition LAPIC_VERSION :: usize where "LAPIC_VERSION = 0x030"
definition LAPIC_EOI :: usize where "LAPIC_EOI = 0x0B0"
definition LAPIC_SVR :: usize where "LAPIC_SVR = 0x0F0"
definition LAPIC_ESR :: usize where "LAPIC_ESR = 0x280"
definition LAPIC_ICR_LOW :: usize where "LAPIC_ICR_LOW = 0x300"
definition LAPIC_ICR_HIGH :: usize where "LAPIC_ICR_HIGH = 0x310"
definition LAPIC_LVT_TIMER :: usize where "LAPIC_LVT_TIMER = 0x320"
definition LAPIC_LVT_THERMAL :: usize where "LAPIC_LVT_THERMAL = 0x330"
definition LAPIC_LVT_PERF :: usize where "LAPIC_LVT_PERF = 0x340"
definition LAPIC_LVT_LINT0 :: usize where "LAPIC_LVT_LINT0 = 0x350"
definition LAPIC_LVT_LINT1 :: usize where "LAPIC_LVT_LINT1 = 0x360"
definition LAPIC_LVT_ERROR :: usize where "LAPIC_LVT_ERROR = 0x370"
definition LAPIC_TIMER_ICR :: usize where "LAPIC_TIMER_ICR = 0x380"
definition LAPIC_TIMER_CCR :: usize where "LAPIC_TIMER_CCR = 0x390"
definition LAPIC_TIMER_DCR :: usize where "LAPIC_TIMER_DCR = 0x3E0"
definition LAPIC_SVR_ENABLE :: u32 where "LAPIC_SVR_ENABLE = 0x100"
definition LAPIC_SPURIOUS_VECTOR :: u32 where "LAPIC_SPURIOUS_VECTOR = 0xFF"
definition LAPIC_TIMER_VECTOR :: u32 where "LAPIC_TIMER_VECTOR = 0x20"
definition LAPIC_TIMER_MODE_ONESHOT :: u32 where "LAPIC_TIMER_MODE_ONESHOT = 0x00000"
definition LAPIC_TIMER_MODE_PERIODIC :: u32 where "LAPIC_TIMER_MODE_PERIODIC = 0x20000"
definition LAPIC_LVT_MASKED :: u32 where "LAPIC_LVT_MASKED = 0x10000"
definition LAPIC_TIMER_DIVIDE_BY_16 :: u32 where "LAPIC_TIMER_DIVIDE_BY_16 = 0x03"
definition ICR_DELIVERY_INIT :: u32 where "ICR_DELIVERY_INIT = 0x500000"
definition ICR_DELIVERY_STARTUP :: u32 where "ICR_DELIVERY_STARTUP = 0x600000"
definition ICR_DEST_PHYSICAL :: u32 where "ICR_DEST_PHYSICAL = 0x000000"
definition ICR_LEVEL_ASSERT :: u32 where "ICR_LEVEL_ASSERT = 0x4000"
definition IOAPIC_REG_VERSION :: u32 where "IOAPIC_REG_VERSION = 0x01"
definition IOAPIC_REG_REDIRECT :: u32 where "IOAPIC_REG_REDIRECT = 0x10"
definition IOAPIC_REDIRECT_MASKED :: u64 where "IOAPIC_REDIRECT_MASKED = push_bit 16 1"
definition IOAPIC_REDIRECT_LEVEL :: u64 where "IOAPIC_REDIRECT_LEVEL = push_bit 15 1"

record apic_statics =
  LAPIC_BASE :: PhysAddr
  IOAPIC_BASE :: PhysAddr
  APIC_INITIALIZED :: bool
  USING_APIC :: bool

definition apic_statics_init :: apic_statics where
  "apic_statics_init = \<lparr>LAPIC_BASE = 0, IOAPIC_BASE = 0, APIC_INITIALIZED = False, USING_APIC = False\<rparr>"

section \<open>Local APIC\<close>

definition lapic_read_reg :: "hardware \<Rightarrow> usize \<Rightarrow> apic_statics \<Rightarrow> io \<Rightarrow> u32 \<times> io" where
  "lapic_read_reg hw offset a = read_volatile32 hw (usize_add (LAPIC_BASE a) offset)"

definition lapic_write_reg :: "usize \<Rightarrow> u32 \<Rightarrow> apic_statics \<Rightarrow> io \<Rightarrow> io" where
  "lapic_write_reg offset v a = write_volatile32 (usize_add (LAPIC_BASE a) offset) v"

fun lapic_writes :: "(usize \<times> u32) list \<Rightarrow> apic_statics \<Rightarrow> io \<Rightarrow> io" where
  "lapic_writes [] a io = io"
| "lapic_writes ((offset, v) # ws) a io = lapic_writes ws a (lapic_write_reg offset v a io)"

definition lapic_is_available :: "apic_statics \<Rightarrow> bool" where
  "lapic_is_available a = APIC_INITIALIZED a"

definition is_using_apic :: "apic_statics \<Rightarrow> bool" where
  "is_using_apic a = USING_APIC a"

definition lapic_init :: "hardware \<Rightarrow> AcpiInfo \<Rightarrow> apic_statics \<times> io \<Rightarrow> (string + unit) \<times> apic_statics \<times> io" where
  "lapic_init hw info = (\<lambda>(a, io).
     let a1 = a\<lparr>LAPIC_BASE := local_apic_address info\<rparr>;
         io1 = lapic_writes
           [(LAPIC_LVT_TIMER, LAPIC_LVT_MASKED), (LAPIC_LVT_THERMAL, LAPIC_LVT_MASKED), (LAPIC_LVT_PERF, LAPIC_LVT_MASKED),
            (LAPIC_LVT_LINT0, LAPIC_LVT_MASKED), (LAPIC_LVT_LINT1, LAPIC_LVT_MASKED), (LAPIC_LVT_ERROR, LAPIC_LVT_MASKED),
            (LAPIC_ESR, 0), (LAPIC_ESR, 0), (LAPIC_SVR, LAPIC_SVR_ENABLE OR LAPIC_SPURIOUS_VECTOR)] a1 io;
         (svr, io2) = lapic_read_reg hw LAPIC_SVR a1 io1
     in if svr AND LAPIC_SVR_ENABLE = 0 then (Inl ''Failed to enable Local APIC'', a1, io2)
        else let (_, io3) = lapic_read_reg hw LAPIC_ID a1 io2;
                 (_, io4) = lapic_read_reg hw LAPIC_VERSION a1 io3;
                 (_, io5) = lapic_read_reg hw LAPIC_VERSION a1 io4
             in (Inr (), a1\<lparr>APIC_INITIALIZED := True, USING_APIC := True\<rparr>, io5))"

definition CALIBRATION_MS :: u64 where "CALIBRATION_MS = 50"
definition CALIBRATION_TICKS :: u16 where "CALIBRATION_TICKS = ucast (PIT_BASE_FREQ * CALIBRATION_MS div 1000)"

definition calibrate_timer :: "hardware \<Rightarrow> apic_statics \<Rightarrow> io \<Rightarrow> (u64 \<times> io) option" where
  "calibrate_timer hw a io =
     (let io1 = pit_start_channel_2 hw io;
          io2 = outs [(0x43, 0xB2), (0x42, ucast (CALIBRATION_TICKS AND 0xFF)),
                      (0x42, ucast (drop_bit 8 CALIBRATION_TICKS AND 0xFF))] io1;
          io3 = lapic_writes [(LAPIC_LVT_TIMER, LAPIC_TIMER_MODE_ONESHOT OR LAPIC_TIMER_VECTOR),
                              (LAPIC_TIMER_DCR, LAPIC_TIMER_DIVIDE_BY_16), (LAPIC_TIMER_ICR, 0xFFFFFFFF)] a io2;
          io4 = pit_start_channel_2 hw io3
      in case wait_port hw 0x61 0x20 io4 of
           None \<Rightarrow> None
         | Some io5 \<Rightarrow>
             let (current_count, io6) = lapic_read_reg hw LAPIC_TIMER_CCR a io5;
                 elapsed = 0xFFFFFFFF - current_count;
                 bus_freq = ucast elapsed * 16 * 1000 div CALIBRATION_MS
             in Some (bus_freq, lapic_write_reg LAPIC_LVT_TIMER LAPIC_LVT_MASKED a io6))"

definition setup_timer :: "hardware \<Rightarrow> u32 \<Rightarrow> apic_statics \<Rightarrow> io \<Rightarrow> io option" where
  "setup_timer hw frequency_hz a io =
     (if \<not> lapic_is_available a then Some io
      else case calibrate_timer hw a (lapic_write_reg LAPIC_TIMER_DCR LAPIC_TIMER_DIVIDE_BY_16 a io) of
             None \<Rightarrow> None
           | Some (bus_freq, io1) \<Rightarrow>
               if frequency_hz = 0 then None
               else let initial_count = (bus_freq div 16) div ucast frequency_hz
                    in Some (lapic_writes [(LAPIC_LVT_TIMER, LAPIC_TIMER_MODE_PERIODIC OR LAPIC_TIMER_VECTOR),
                                           (LAPIC_TIMER_ICR, ucast initial_count)] a io1))"

definition eoi :: "apic_statics \<Rightarrow> io \<Rightarrow> io" where
  "eoi a io = (if lapic_is_available a then lapic_write_reg LAPIC_EOI 0 a io else io)"

definition lapic_id :: "hardware \<Rightarrow> apic_statics \<Rightarrow> io \<Rightarrow> u32 \<times> io" where
  "lapic_id hw a io =
     (if lapic_is_available a then let (v, io') = lapic_read_reg hw LAPIC_ID a io in (drop_bit 24 v, io') else (0, io))"

primrec wait_icr_loop :: "nat \<Rightarrow> hardware \<Rightarrow> apic_statics \<Rightarrow> io \<Rightarrow> io" where
  "wait_icr_loop 0 hw a io = io"
| "wait_icr_loop (Suc n) hw a io =
     (let (v, io') = lapic_read_reg hw LAPIC_ICR_LOW a io in if v AND 0x1000 = 0 then io' else wait_icr_loop n hw a io')"

definition wait_icr :: "hardware \<Rightarrow> apic_statics \<Rightarrow> io \<Rightarrow> io" where
  "wait_icr = wait_icr_loop 1000"

definition send_init :: "hardware \<Rightarrow> u8 \<Rightarrow> apic_statics \<Rightarrow> io \<Rightarrow> io" where
  "send_init hw apic_id a io =
     wait_icr hw a (lapic_writes [(LAPIC_ICR_HIGH, push_bit 24 (ucast apic_id)),
       (LAPIC_ICR_LOW, ICR_DELIVERY_INIT OR ICR_LEVEL_ASSERT OR ICR_DEST_PHYSICAL)] a io)"

definition send_startup :: "hardware \<Rightarrow> u8 \<Rightarrow> u8 \<Rightarrow> apic_statics \<Rightarrow> io \<Rightarrow> io" where
  "send_startup hw apic_id vector a io =
     wait_icr hw a (lapic_writes [(LAPIC_ICR_HIGH, push_bit 24 (ucast apic_id)),
       (LAPIC_ICR_LOW, ICR_DELIVERY_STARTUP OR (ucast vector AND 0xFF) OR ICR_DEST_PHYSICAL)] a io)"

definition stop_timer :: "apic_statics \<Rightarrow> io \<Rightarrow> io" where
  "stop_timer a io =
     (if lapic_is_available a then lapic_writes [(LAPIC_LVT_TIMER, LAPIC_LVT_MASKED), (LAPIC_TIMER_ICR, 0)] a io else io)"

definition disable_pic :: "io \<Rightarrow> io" where
  "disable_pic = outs [(0x21, 0xFF), (0xA1, 0xFF)]"

section \<open>IO APIC\<close>

definition ioapic_read :: "hardware \<Rightarrow> u32 \<Rightarrow> apic_statics \<Rightarrow> io \<Rightarrow> u32 \<times> io" where
  "ioapic_read hw register a io =
     read_volatile32 hw (usize_add (IOAPIC_BASE a) 0x10) (write_volatile32 (IOAPIC_BASE a) register io)"

definition ioapic_write :: "u32 \<Rightarrow> u32 \<Rightarrow> apic_statics \<Rightarrow> io \<Rightarrow> io" where
  "ioapic_write register v a io =
     write_volatile32 (usize_add (IOAPIC_BASE a) 0x10) v (write_volatile32 (IOAPIC_BASE a) register io)"

definition read_redirect :: "hardware \<Rightarrow> u8 \<Rightarrow> apic_statics \<Rightarrow> io \<Rightarrow> u64 \<times> io" where
  "read_redirect hw entry a io =
     (let reg = IOAPIC_REG_REDIRECT + ucast entry * 2;
          (low, io1) = ioapic_read hw reg a io;
          (high, io2) = ioapic_read hw (reg + 1) a io1
      in (push_bit 32 (ucast high) OR ucast low, io2))"

definition write_redirect :: "u8 \<Rightarrow> u64 \<Rightarrow> apic_statics \<Rightarrow> io \<Rightarrow> io" where
  "write_redirect entry v a io =
     (let reg = IOAPIC_REG_REDIRECT + ucast entry * 2
      in ioapic_write (reg + 1) (ucast (drop_bit 32 v)) a (ioapic_write reg (ucast v) a io))"

definition setup_irq :: "u8 \<Rightarrow> u8 \<Rightarrow> bool \<Rightarrow> apic_statics \<Rightarrow> io \<Rightarrow> io" where
  "setup_irq irq vector level_triggered =
     write_redirect irq (if level_triggered then ucast vector OR IOAPIC_REDIRECT_LEVEL else ucast vector)"

definition mask_irq :: "hardware \<Rightarrow> u8 \<Rightarrow> apic_statics \<Rightarrow> io \<Rightarrow> io" where
  "mask_irq hw irq a io = (let (entry, io1) = read_redirect hw irq a io in write_redirect irq (entry OR IOAPIC_REDIRECT_MASKED) a io1)"

definition unmask_irq :: "hardware \<Rightarrow> u8 \<Rightarrow> apic_statics \<Rightarrow> io \<Rightarrow> io" where
  "unmask_irq hw irq a io = (let (entry, io1) = read_redirect hw irq a io in write_redirect irq (entry AND NOT IOAPIC_REDIRECT_MASKED) a io1)"

text \<open>
  \<open>for i in 0..max_entries\<close> and the loop over the overrides of the initialisation. The parser keeps the number of overrides
  within their array (\<open>acpi_parse_wf\<close>), so no index is out of range.
\<close>

primrec mask_entries :: "nat \<Rightarrow> apic_statics \<Rightarrow> io \<Rightarrow> io" where
  "mask_entries 0 a io = io"
| "mask_entries (Suc n) a io = write_redirect (word_of_nat n) IOAPIC_REDIRECT_MASKED a (mask_entries n a io)"

definition setup_override :: "apic_statics \<Rightarrow> IntOverride \<Rightarrow> io \<Rightarrow> io" where
  "setup_override a ov io =
     (if io_irq_source ov = 0
      then setup_irq (ucast (io_global_system_interrupt ov)) (ucast LAPIC_TIMER_VECTOR) (io_flags ov AND 0x0A \<noteq> 0) a io
      else io)"

definition ioapic_init :: "hardware \<Rightarrow> AcpiInfo \<Rightarrow> apic_statics \<times> io \<Rightarrow> (string + unit) \<times> apic_statics \<times> io" where
  "ioapic_init hw info = (\<lambda>(a, io).
     if io_apic_address info = 0 then (Inr (), a, io)
     else let a1 = a\<lparr>IOAPIC_BASE := io_apic_address info\<rparr>;
              (version, io1) = ioapic_read hw IOAPIC_REG_VERSION a1 io;
              max_entries = (drop_bit 16 version AND 0xFF) + 1;
              io2 = mask_entries (unat max_entries) a1 io1;
              io3 = setup_irq 1 0x21 False a1 io2
          in (Inr (), a1, fold (setup_override a1) (take (int_override_count info) (int_overrides info)) io3))"

section \<open>The redirection table\<close>

text \<open>
  The device: a write to the base selects a register, a write to the window at offset 16 sets the selected one; \<open>reset\<close> are
  the registers at power-on. The redirection table is what the registers hold.
\<close>

fun ioapic_event :: "PhysAddr \<Rightarrow> io_event \<Rightarrow> u32 \<times> (u32 \<Rightarrow> u32) \<Rightarrow> u32 \<times> (u32 \<Rightarrow> u32)" where
  "ioapic_event base (Write32 addr v) (sel, regs) =
     (if addr = base then (v, regs) else if addr = usize_add base 0x10 then (sel, regs(sel := v)) else (sel, regs))"
| "ioapic_event base _ s = s"

definition ioapic_state :: "PhysAddr \<Rightarrow> (u32 \<Rightarrow> u32) \<Rightarrow> io \<Rightarrow> u32 \<times> (u32 \<Rightarrow> u32)" where
  "ioapic_state base reset io = fold (ioapic_event base) io (0, reset)"

definition redirect_reg :: "u8 \<Rightarrow> u32" where
  "redirect_reg entry = IOAPIC_REG_REDIRECT + ucast entry * 2"

definition redirection :: "PhysAddr \<Rightarrow> (u32 \<Rightarrow> u32) \<Rightarrow> io \<Rightarrow> u8 \<Rightarrow> u64" where
  "redirection base reset io entry =
     (let regs = snd (ioapic_state base reset io) in push_bit 32 (ucast (regs (redirect_reg entry + 1))) OR ucast (regs (redirect_reg entry)))"

text \<open>
  The writable bits of an entry: the low 17 without the delivery status (12) and the remote IRR (14), and the destination (56 to 63).
  They read as they were written, for the \<open>n\<close> entries the device has; nothing is known of the other bits.
\<close>

definition REDIRECT_LOW :: u32 where "REDIRECT_LOW = 0x1AFFF"
definition REDIRECT_HIGH :: u32 where "REDIRECT_HIGH = 0xFF000000"
definition REDIRECT_BITS :: u64 where "REDIRECT_BITS = push_bit 32 (ucast REDIRECT_HIGH) OR ucast REDIRECT_LOW"

definition ioapic_device :: "hardware \<Rightarrow> PhysAddr \<Rightarrow> (u32 \<Rightarrow> u32) \<Rightarrow> nat \<Rightarrow> bool" where
  "ioapic_device hw base reset n \<longleftrightarrow> (\<forall>io e. unat e < n \<longrightarrow> (let (sel, regs) = ioapic_state base reset io; v = reg32_value hw io (usize_add base 0x10) in
     (sel = redirect_reg e \<longrightarrow> v AND REDIRECT_LOW = regs sel AND REDIRECT_LOW) \<and>
     (sel = redirect_reg e + 1 \<longrightarrow> v AND REDIRECT_HIGH = regs sel AND REDIRECT_HIGH)))"

lemma window_neq: "base < USIZE \<Longrightarrow> usize_add base 0x10 \<noteq> base"
  by (auto simp: usize_add_def mod_if)

lemma ioapic_state_append:
  "ioapic_state base reset (io @ [e]) = ioapic_event base e (ioapic_state base reset io)"
  by (simp add: ioapic_state_def)

lemma ioapic_state_write:
  assumes "IOAPIC_BASE a < USIZE"
  shows "ioapic_state (IOAPIC_BASE a) reset (ioapic_write r v a io) = (r, (snd (ioapic_state (IOAPIC_BASE a) reset io))(r := v))"
  using window_neq[OF assms]
  by (cases "ioapic_state (IOAPIC_BASE a) reset io") (simp add: ioapic_write_def write_volatile32_def ioapic_state_append del: append_assoc)

lemma ioapic_state_read:
  assumes "ioapic_read hw r a io = (v, io')"
  shows "ioapic_state (IOAPIC_BASE a) reset io' = (r, snd (ioapic_state (IOAPIC_BASE a) reset io))"
    "ioapic_device hw (IOAPIC_BASE a) reset n \<Longrightarrow> unat e < n \<Longrightarrow> r = redirect_reg e \<Longrightarrow>
      v AND REDIRECT_LOW = snd (ioapic_state (IOAPIC_BASE a) reset io) r AND REDIRECT_LOW"
    "ioapic_device hw (IOAPIC_BASE a) reset n \<Longrightarrow> unat e < n \<Longrightarrow> r = redirect_reg e + 1 \<Longrightarrow>
      v AND REDIRECT_HIGH = snd (ioapic_state (IOAPIC_BASE a) reset io) r AND REDIRECT_HIGH"
proof -
  let ?b = "IOAPIC_BASE a" and ?io = "write_volatile32 (IOAPIC_BASE a) r io"
  have s: "ioapic_state ?b reset ?io = (r, snd (ioapic_state ?b reset io))"
    by (cases "ioapic_state ?b reset io") (simp add: write_volatile32_def ioapic_state_append)
  have v: "v = reg32_value hw ?io (usize_add ?b 0x10)" "io' = ?io @ [Read32 (usize_add ?b 0x10) v]"
    using assms by (auto simp: ioapic_read_def read_volatile32_def Let_def)
  show "ioapic_state ?b reset io' = (r, snd (ioapic_state ?b reset io))" unfolding v(2) ioapic_state_append using s by simp
  show "ioapic_device hw ?b reset n \<Longrightarrow> unat e < n \<Longrightarrow> r = redirect_reg e \<Longrightarrow>
      v AND REDIRECT_LOW = snd (ioapic_state ?b reset io) r AND REDIRECT_LOW"
    "ioapic_device hw ?b reset n \<Longrightarrow> unat e < n \<Longrightarrow> r = redirect_reg e + 1 \<Longrightarrow>
      v AND REDIRECT_HIGH = snd (ioapic_state ?b reset io) r AND REDIRECT_HIGH"
    unfolding ioapic_device_def v(1) using s by (auto dest!: spec[of _ ?io] spec[of _ e] simp: Let_def)
qed

lemma redirect_reg_unat: "unat (redirect_reg e) = 16 + 2 * unat e" "unat (redirect_reg e + 1) = 17 + 2 * unat e"
proof -
  have u: "unat e < 256" using unsigned_less[of e] by simp
  have m: "unat (ucast e * 2 :: u32) = 2 * unat e"
    using u by (simp add: unat_word_ariths unsigned_ucast_eq take_bit_nat_eq_self)
  show r: "unat (redirect_reg e) = 16 + 2 * unat e"
    unfolding redirect_reg_def IOAPIC_REG_REDIRECT_def using u m by (simp add: unat_word_ariths(1))
  show "unat (redirect_reg e + 1) = 17 + 2 * unat e" using u r by (simp add: unat_word_ariths(1))
qed

lemma redirect_reg_simps [simp]:
  "redirect_reg e = redirect_reg f \<longleftrightarrow> e = f" "redirect_reg e + 1 \<noteq> redirect_reg f" "redirect_reg e \<noteq> redirect_reg f + 1"
proof -
  have "even (unat (redirect_reg e))" "odd (unat (redirect_reg e + 1))" for e unfolding redirect_reg_unat by simp_all
  then show "redirect_reg e + 1 \<noteq> redirect_reg f" "redirect_reg e \<noteq> redirect_reg f + 1" by metis+
qed (auto simp: word_unat_eq_iff redirect_reg_unat word_le_nat_alt)

text \<open>A 64-bit value is its two halves.\<close>

lemma halves_bit:
  "bit (push_bit 32 (ucast h) OR ucast l :: u64) n \<longleftrightarrow> (if n < 32 then bit (l :: u32) n else bit (h :: u32) (n - 32))"
  using bit_imp_le_length[of l n] bit_imp_le_length[of h "n - 32"] by (auto simp: bit_simps)

lemma halves_of: "push_bit 32 (ucast (ucast (drop_bit 32 v) :: u32)) OR ucast (ucast v :: u32) = (v :: u64)"
  by (rule bit_word_eqI) (auto simp: halves_bit bit_simps)

lemma halves_and:
  "(push_bit 32 (ucast h) OR ucast l) AND REDIRECT_BITS = push_bit 32 (ucast (h AND REDIRECT_HIGH)) OR (ucast (l AND REDIRECT_LOW) :: u64)"
  unfolding REDIRECT_BITS_def by (rule bit_word_eqI) (simp only: bit_and_iff halves_bit split: if_splits, simp)

text \<open>Writing an entry sets it and no other.\<close>

lemma redirection_write:
  assumes "IOAPIC_BASE a < USIZE"
  shows "redirection (IOAPIC_BASE a) reset (write_redirect e v a io) = (redirection (IOAPIC_BASE a) reset io)(e := v)"
  by (rule ext) (simp add: redirection_def write_redirect_def ioapic_state_write[OF assms] Let_def halves_of
      flip: redirect_reg_def)

text \<open>Reading one changes none and returns its writable bits.\<close>

lemma redirection_read:
  assumes "read_redirect hw e a io = (v, io')"
  shows "redirection (IOAPIC_BASE a) reset io' = redirection (IOAPIC_BASE a) reset io"
    "ioapic_device hw (IOAPIC_BASE a) reset n \<Longrightarrow> unat e < n \<Longrightarrow>
       v AND REDIRECT_BITS = redirection (IOAPIC_BASE a) reset io e AND REDIRECT_BITS"
proof -
  let ?b = "IOAPIC_BASE a"
  obtain low io1 where 1: "ioapic_read hw (redirect_reg e) a io = (low, io1)" by fastforce
  obtain high io2 where 2: "ioapic_read hw (redirect_reg e + 1) a io1 = (high, io2)" by fastforce
  have v: "v = push_bit 32 (ucast high) OR ucast low" "io' = io2"
    using assms 1 2 by (auto simp: read_redirect_def Let_def simp flip: redirect_reg_def)
  note s = ioapic_state_read(1)[OF 1, of reset] ioapic_state_read(1)[OF 2, of reset]
  show "redirection ?b reset io' = redirection ?b reset io" unfolding v(2) redirection_def using s by simp
  assume d: "ioapic_device hw ?b reset n" and e: "unat e < n"
  from ioapic_state_read(2)[OF 1 d e] ioapic_state_read(3)[OF 2 d e] s(1)
  show "v AND REDIRECT_BITS = redirection ?b reset io e AND REDIRECT_BITS"
    unfolding v(1) redirection_def Let_def halves_and by simp
qed

section \<open>Properties\<close>

lemma and_cong_or: "x AND m = y AND m \<Longrightarrow> (x OR k) AND m = (y OR k) AND (m :: u64)"
  by (metis bit.conj_disj_distrib2)

lemma and_cong_and: "x AND m = y AND m \<Longrightarrow> (x AND k) AND m = (y AND k) AND (m :: u64)"
proof -
  assume "x AND m = y AND m"
  then have "k AND (x AND m) = k AND (y AND m)" by (rule arg_cong)
  then show ?thesis unfolding and.assoc[symmetric] unfolding and.commute[of k] .
qed

text \<open>Masking sets bit 16 of an entry and unmasking clears it; the other writable bits and the other entries stay.\<close>

lemma redirection_mask:
  assumes "IOAPIC_BASE a < USIZE" "ioapic_device hw (IOAPIC_BASE a) reset n" "unat irq < n"
  shows "redirection (IOAPIC_BASE a) reset (mask_irq hw irq a io) irq AND REDIRECT_BITS =
      (redirection (IOAPIC_BASE a) reset io irq OR IOAPIC_REDIRECT_MASKED) AND REDIRECT_BITS"
    "redirection (IOAPIC_BASE a) reset (unmask_irq hw irq a io) irq AND REDIRECT_BITS =
      (redirection (IOAPIC_BASE a) reset io irq AND NOT IOAPIC_REDIRECT_MASKED) AND REDIRECT_BITS"
    "e \<noteq> irq \<Longrightarrow> redirection (IOAPIC_BASE a) reset (mask_irq hw irq a io) e = redirection (IOAPIC_BASE a) reset io e"
    "e \<noteq> irq \<Longrightarrow> redirection (IOAPIC_BASE a) reset (unmask_irq hw irq a io) e = redirection (IOAPIC_BASE a) reset io e"
proof -
  obtain v io1 where r: "read_redirect hw irq a io = (v, io1)" by fastforce
  note rd = redirection_read(1)[OF r, of reset] redirection_read(2)[OF r assms(2,3)]
  show "redirection (IOAPIC_BASE a) reset (mask_irq hw irq a io) irq AND REDIRECT_BITS =
      (redirection (IOAPIC_BASE a) reset io irq OR IOAPIC_REDIRECT_MASKED) AND REDIRECT_BITS"
    "redirection (IOAPIC_BASE a) reset (unmask_irq hw irq a io) irq AND REDIRECT_BITS =
      (redirection (IOAPIC_BASE a) reset io irq AND NOT IOAPIC_REDIRECT_MASKED) AND REDIRECT_BITS"
    using and_cong_or[OF rd(2)] and_cong_and[OF rd(2)] by (simp_all add: mask_irq_def unmask_irq_def r redirection_write[OF assms(1)])
  show "e \<noteq> irq \<Longrightarrow> redirection (IOAPIC_BASE a) reset (mask_irq hw irq a io) e = redirection (IOAPIC_BASE a) reset io e"
    "e \<noteq> irq \<Longrightarrow> redirection (IOAPIC_BASE a) reset (unmask_irq hw irq a io) e = redirection (IOAPIC_BASE a) reset io e"
    using rd(1) by (simp_all add: mask_irq_def unmask_irq_def r redirection_write[OF assms(1)])
qed

text \<open>The table that the initialisation leaves.\<close>

definition timer_entry :: "IntOverride \<Rightarrow> u64" where
  "timer_entry ov = (if io_flags ov AND 0x0A \<noteq> 0 then 0x20 OR IOAPIC_REDIRECT_LEVEL else 0x20)"

definition timer_override :: "AcpiInfo \<Rightarrow> u8 \<Rightarrow> IntOverride option" where
  "timer_override info e =
     find (\<lambda>ov. io_irq_source ov = 0 \<and> ucast (io_global_system_interrupt ov) = e) (rev (active_overrides info))"

lemma redirection_mask_entries:
  assumes "IOAPIC_BASE a < USIZE" "n \<le> 256"
  shows "redirection (IOAPIC_BASE a) reset (mask_entries n a io) e =
    (if unat e < n then IOAPIC_REDIRECT_MASKED else redirection (IOAPIC_BASE a) reset io e)"
  using assms(2)
proof (induction n)
  case (Suc n)
  then have "unat (word_of_nat n :: u8) = n" by (intro unat_of_nat_small(1)) simp
  then have "e = word_of_nat n \<longleftrightarrow> unat e = n" by (metis of_nat_unat ucast_id)
  then show ?case using Suc by (auto simp: redirection_write[OF assms(1)])
qed simp

lemma redirection_overrides:
  assumes "IOAPIC_BASE a < USIZE"
  shows "redirection (IOAPIC_BASE a) reset (fold (setup_override a) ovs io) e =
    (case find (\<lambda>ov. io_irq_source ov = 0 \<and> ucast (io_global_system_interrupt ov) = e) (rev ovs) of
       Some ov \<Rightarrow> timer_entry ov | None \<Rightarrow> redirection (IOAPIC_BASE a) reset io e)"
proof (induction ovs rule: rev_induct)
  case (snoc ov ovs)
  have "(ucast (ucast LAPIC_TIMER_VECTOR :: u8) :: u64) = 0x20" by (simp add: LAPIC_TIMER_VECTOR_def)
  then show ?case using snoc
    by (simp add: setup_override_def setup_irq_def redirection_write[OF assms] timer_entry_def)
qed simp



lemma timer_count_unat:
  fixes elapsed f :: u32
  assumes "20 \<le> f"
  shows "unat (ucast (((ucast elapsed * 16 * 1000 div CALIBRATION_MS) div 16) div ucast f :: u64) :: u32) = 20 * unat elapsed div unat f"
proof -
  have e: "unat elapsed < 4294967296" "unat f < 4294967296" using unsigned_less[of elapsed] unsigned_less[of f] by simp_all
  have f: "20 \<le> unat f" using assms by (simp add: word_le_nat_alt)
  have u: "unat (ucast elapsed :: u64) = unat elapsed" "unat (ucast f :: u64) = unat f"
    using e by (simp_all add: unsigned_ucast_eq take_bit_nat_eq_self)
  have 1: "unat (ucast elapsed * 16 * 1000 :: u64) = unat elapsed * 16 * 1000"
    using e(1) u(1) by (simp add: unat_word_ariths(2))
  have "unat (((ucast elapsed * 16 * 1000 div CALIBRATION_MS) div 16) div ucast f :: u64) = unat elapsed * 16 * 1000 div 50 div 16 div unat f"
    unfolding unat_div_distrib 1 u(2) by (simp add: CALIBRATION_MS_def)
  also have "unat elapsed * 16 * 1000 div 50 div 16 = 20 * unat elapsed" by (simp flip: div_mult2_eq)
  finally have 2: "unat (((ucast elapsed * 16 * 1000 div CALIBRATION_MS) div 16) div ucast f :: u64) = 20 * unat elapsed div unat f" .
  have "20 * unat elapsed div unat f \<le> 20 * unat elapsed div 20" using f by (rule div_le_mono2[rotated]) simp
  then have "20 * unat elapsed div unat f < 4294967296" using e(1) by simp
  then show ?thesis using 2 by (simp add: unsigned_ucast_eq take_bit_nat_eq_self)
qed

text \<open>
  Calibration. When the interval timer expires, setting up the local APIC timer at 20 Hz or more returns, and the
  count it programs is the number of timer ticks in a period: with \<open>elapsed\<close> ticks counted in the 50 milliseconds, that is
  \<open>20 * elapsed\<close> a second, \<open>count\<close> is their number per period, rounded down, and nothing overflows. The timer is left
  periodic on vector 32.
\<close>
theorem setup_timer_counts:
  assumes "lapic_is_available a" "20 \<le> f"
    and "\<And>io'. device_answers hw 0x61 0x20 io'"
  shows "\<exists>pre elapsed count. setup_timer hw f a io =
      Some (pre @ [Read32 (usize_add (LAPIC_BASE a) LAPIC_TIMER_CCR) (0xFFFFFFFF - elapsed),
                   Write32 (usize_add (LAPIC_BASE a) LAPIC_LVT_TIMER) LAPIC_LVT_MASKED,
                   Write32 (usize_add (LAPIC_BASE a) LAPIC_LVT_TIMER) 0x20020,
                   Write32 (usize_add (LAPIC_BASE a) LAPIC_TIMER_ICR) count]) \<and>
    unat count * unat f \<le> 20 * unat elapsed \<and> 20 * unat elapsed < (unat count + 1) * unat f"
proof -
  let ?io = "lapic_write_reg LAPIC_TIMER_DCR LAPIC_TIMER_DIVIDE_BY_16 a io"
  define io4 where "io4 = pit_start_channel_2 hw (lapic_writes [(LAPIC_LVT_TIMER, LAPIC_TIMER_MODE_ONESHOT OR LAPIC_TIMER_VECTOR),
      (LAPIC_TIMER_DCR, LAPIC_TIMER_DIVIDE_BY_16), (LAPIC_TIMER_ICR, 0xFFFFFFFF)] a
      (outs [(0x43, 0xB2), (0x42, ucast (CALIBRATION_TICKS AND 0xFF)), (0x42, ucast (drop_bit 8 CALIBRATION_TICKS AND 0xFF))]
        (pit_start_channel_2 hw ?io)))"
  obtain io5 where w: "wait_port hw 0x61 0x20 io4 = Some io5" using assms(3) wait_port_iff by metis
  obtain cur io6 where c: "lapic_read_reg hw LAPIC_TIMER_CCR a io5 = (cur, io6)" by fastforce
  define elapsed where "elapsed = 0xFFFFFFFF - cur"
  define count where "count = (ucast (((ucast elapsed * 16 * 1000 div CALIBRATION_MS) div 16) div ucast f :: u64) :: u32)"
  have io6: "io6 = io5 @ [Read32 (usize_add (LAPIC_BASE a) LAPIC_TIMER_CCR) (0xFFFFFFFF - elapsed)]"
    using c by (auto simp: lapic_read_reg_def read_volatile32_def Let_def elapsed_def)
  have cal: "calibrate_timer hw a ?io =
      Some (ucast elapsed * 16 * 1000 div CALIBRATION_MS, lapic_write_reg LAPIC_LVT_TIMER LAPIC_LVT_MASKED a io6)"
    using w[unfolded io4_def] c by (simp add: calibrate_timer_def Let_def elapsed_def)
  have f: "f \<noteq> 0" "0 < unat f" using assms(2) by (auto simp: word_le_nat_alt)
  have m: "LAPIC_TIMER_MODE_PERIODIC OR LAPIC_TIMER_VECTOR = 0x20020" by (simp add: LAPIC_TIMER_MODE_PERIODIC_def LAPIC_TIMER_VECTOR_def)
  have "setup_timer hw f a io = Some (lapic_writes [(LAPIC_LVT_TIMER, 0x20020), (LAPIC_TIMER_ICR, count)] a
      (lapic_write_reg LAPIC_LVT_TIMER LAPIC_LVT_MASKED a io6))"
    using assms(1) f(1) by (simp add: setup_timer_def cal m count_def Let_def)
  moreover have "unat count = 20 * unat elapsed div unat f" unfolding count_def using assms(2) by (rule timer_count_unat)
  ultimately show ?thesis using f(2) dividend_less_div_times[of "unat f" "20 * unat elapsed"]
    by (intro exI[of _ io5] exI[of _ elapsed] exI[of _ count]) (simp add: io6 lapic_write_reg_def write_volatile32_def)
qed

theorem setup_timer_counts_witness:
  "\<exists>pre elapsed count. setup_timer ready_hardware 100 (apic_statics_init\<lparr>APIC_INITIALIZED := True\<rparr>) [] =
      Some (pre @ [Read32 0x390 (0xFFFFFFFF - elapsed), Write32 0x320 LAPIC_LVT_MASKED, Write32 0x320 0x20020, Write32 0x380 count]) \<and>
    unat count * 100 \<le> 20 * unat elapsed \<and> 20 * unat elapsed < (unat count + 1) * 100"
proof -
  have d: "device_answers ready_hardware 0x61 0x20 io" for io using wait_port_iff ready_wait by fastforce
  show ?thesis using setup_timer_counts[of "apic_statics_init\<lparr>APIC_INITIALIZED := True\<rparr>" 100 ready_hardware "[]", OF _ _ d]
    by (simp add: lapic_is_available_def apic_statics_init_def usize_add_def LAPIC_TIMER_CCR_def LAPIC_LVT_TIMER_def LAPIC_TIMER_ICR_def)
qed

end
