(* ===== verification/Syscall.thy ===== *)
theory Syscall
  imports Console
begin

text \<open>
  The system call interface (\<open>src/src/syscall.rs\<close>). The result register holds an \<open>i64\<close>, here its 64 bits. A call that does not
  return (\<open>sys_exit\<close> halts for ever, and printing waits for the serial port) has no result. The memory that a caller's
  buffer points into is an argument; a buffer inside the text buffer of the screen is not considered.
\<close>

section \<open>Call numbers\<close>

datatype SyscallNumber =
    SysRead | SysWrite | SysOpen | SysClose | SysSeek | SysStat | SysMkdir | SysUnlink | SysGetdents
  | SysMount | SysUmount | SysClone | SysExit | SysWaitpid | SysGetpid | SysYield | SysMmap | SysMunmap
  | SysPrint | SysReadline | SysSysinfo

definition syscall_number_from :: "u64 \<Rightarrow> SyscallNumber" where
  "syscall_number_from v =
     (if v = 0 then SysRead else if v = 1 then SysWrite else if v = 2 then SysOpen else if v = 3 then SysClose
      else if v = 4 then SysSeek else if v = 5 then SysStat else if v = 6 then SysMkdir else if v = 7 then SysUnlink
      else if v = 8 then SysGetdents else if v = 10 then SysMount else if v = 11 then SysUmount else if v = 20 then SysClone
      else if v = 21 then SysExit else if v = 22 then SysWaitpid else if v = 23 then SysGetpid else if v = 24 then SysYield
      else if v = 30 then SysMmap else if v = 31 then SysMunmap else if v = 100 then SysPrint else if v = 101 then SysReadline
      else if v = 200 then SysSysinfo else SysRead)"

section \<open>Calls\<close>

definition user_slice :: "pmem \<Rightarrow> u64 \<Rightarrow> usize \<Rightarrow> u8 list" where
  "user_slice m buffer count = map (\<lambda>i. m (usize_add (unat buffer) i)) [0..<count]"

fun print_bytes :: "hardware \<Rightarrow> u8 list \<Rightarrow> Console \<times> io \<Rightarrow> (Console \<times> io) option" where
  "print_bytes hw [] st = Some st"
| "print_bytes hw (byte # bs) st = Option.bind (vga_print_char hw byte st) (print_bytes hw bs)"

definition sys_write :: "hardware \<Rightarrow> pmem \<Rightarrow> u64 \<Rightarrow> u64 \<Rightarrow> usize \<Rightarrow> Console \<times> io \<Rightarrow> (u64 KernelResult \<times> Console \<times> io) option" where
  "sys_write hw m fd buffer count st =
     (if fd = 1 \<or> fd = 2 then map_option (Pair (Ok (word_of_nat count))) (print_bytes hw (user_slice m buffer count) st)
      else Some (Err IoError, st))"

definition sys_print :: "hardware \<Rightarrow> pmem \<Rightarrow> u64 \<Rightarrow> usize \<Rightarrow> Console \<times> io \<Rightarrow> (u64 KernelResult \<times> Console \<times> io) option" where
  "sys_print hw m buffer count st = map_option (Pair (Ok (word_of_nat count))) (print_bytes hw (user_slice m buffer count) st)"

definition sys_close :: "u64 \<Rightarrow> u64 KernelResult" where "sys_close fd = Ok 0"
definition sys_getpid :: "u64 KernelResult" where "sys_getpid = Ok 1"
definition sys_yield :: "u64 KernelResult" where "sys_yield = Ok 0"
definition sys_munmap :: "u64 \<Rightarrow> usize \<Rightarrow> u64 KernelResult" where "sys_munmap addr sz = Ok 0"

definition sys_exit :: "u32 \<Rightarrow> Console \<times> io \<Rightarrow> (u64 KernelResult \<times> Console \<times> io) option" where
  "sys_exit code st = None"

definition syscall_result :: "u64 KernelResult \<Rightarrow> u64" where
  "syscall_result r = (case r of Ok val \<Rightarrow> val | Err e \<Rightarrow> word_of_int (isize_of_error e))"

definition rust_syscall_handler ::
  "hardware \<Rightarrow> pmem \<Rightarrow> u64 \<Rightarrow> u64 \<Rightarrow> u64 \<Rightarrow> u64 \<Rightarrow> u64 \<Rightarrow> Console \<times> io \<Rightarrow> (u64 \<times> Console \<times> io) option" where
  "rust_syscall_handler hw m nr arg1 arg2 arg3 arg4 st =
     map_option (map_prod syscall_result id)
       (case syscall_number_from nr of
          SysWrite \<Rightarrow> sys_write hw m arg1 arg2 (unat arg3) st
        | SysPrint \<Rightarrow> sys_print hw m arg1 (unat arg2) st
        | SysGetpid \<Rightarrow> Some (sys_getpid, st)
        | SysYield \<Rightarrow> Some (sys_yield, st)
        | SysClose \<Rightarrow> Some (sys_close arg1, st)
        | SysMunmap \<Rightarrow> Some (sys_munmap arg1 (unat arg2), st)
        | SysExit \<Rightarrow> sys_exit (ucast arg1) st
        | _ \<Rightarrow> Some (Err IoError, st))"

section \<open>Properties\<close>

text \<open>Printing byte by byte is printing the message.\<close>

lemma serial_print_append:
  "serial_print hw (xs @ ys) io = Option.bind (serial_print hw xs io) (serial_print hw ys)"
  by (induction xs arbitrary: io) (auto split: option.splits)

lemma print_bytes_eq: "print_bytes hw bs (c, io) = vga_print hw bs (c, io)"
proof (induction bs arbitrary: c io)
  case (Cons b bs)
  have "serial_print hw (b # bs) io = Option.bind (serial_print hw [b] io) (serial_print hw bs)"
    using serial_print_append[of hw "[b]" bs io] by simp
  then show ?case using Cons.IH
    by (cases "serial_print hw [b] io") (simp_all add: vga_print_char_def vga_print_def)
qed (simp add: vga_print_def)

lemma syscall_spec:
  "rust_syscall_handler hw m nr arg1 arg2 arg3 arg4 (c, io) =
     (if nr = 1 \<and> (arg1 = 1 \<or> arg1 = 2) then map_option (Pair arg3) (vga_print hw (user_slice m arg2 (unat arg3)) (c, io))
      else if nr = 100 then map_option (Pair arg2) (vga_print hw (user_slice m arg1 (unat arg2)) (c, io))
      else if nr = 21 then None
      else Some (if nr = 23 then 1 else if nr \<in> {3, 24, 31} then 0 else - 5, c, io))"
proof -
  have r: "syscall_result (Err IoError) = - 5" "\<And>v. syscall_result (Ok v) = v" by (simp_all add: syscall_result_def)
  have p: "map_option (map_prod syscall_result id) (map_option (Pair (Ok v)) r) = map_option (Pair v) r" for v :: u64 and r :: "(Console \<times> io) option"
    by (cases r) (simp_all add: r)
  consider "nr = 1" | "nr = 100" | "nr = 21" | "nr \<in> {3, 23, 24, 31}" | "nr \<notin> {1, 3, 21, 23, 24, 31, 100}" by auto
  then show ?thesis
  proof cases
    case 5
    then have "syscall_number_from nr \<notin> {SysWrite, SysPrint, SysGetpid, SysYield, SysClose, SysMunmap, SysExit}"
      by (simp add: syscall_number_from_def)
    then have "rust_syscall_handler hw m nr arg1 arg2 arg3 arg4 (c, io) = Some (- 5, c, io)"
      unfolding rust_syscall_handler_def by (cases "syscall_number_from nr") (simp_all add: r)
    then show ?thesis using 5 by auto
  qed (auto simp: rust_syscall_handler_def syscall_number_from_def sys_write_def sys_print_def sys_exit_def sys_close_def
      sys_getpid_def sys_yield_def sys_munmap_def print_bytes_eq p r)
qed


end
