(* ===== verification/Descriptors.thy ===== *)
theory Descriptors
  imports Task
begin

text \<open>
  The descriptor tables (\<open>src/src/arch/gdt.rs\<close>, \<open>src/src/arch/idt.rs\<close>) and the interrupt stubs of
  \<open>src/boot/long_mode.asm\<close>. The tables are lists of records with the fields of the source; where the linker places them, the
  stubs and the boot stack are arguments. Loading a table register or a selector sets a field of a record of the
  processor's registers. How the processor reads a descriptor is written down as decoding functions.
\<close>

section \<open>Layout of structures\<close>

text \<open>
  \<open>repr(C)\<close>: the offset of every field, each aligned to its own alignment, for fields given by size and alignment, and the
  size of the structure, a multiple of its alignment.
\<close>

definition align_to :: "nat \<Rightarrow> nat \<Rightarrow> nat" where
  "align_to a n = (n + a - 1) div a * a"

fun repr_c :: "nat \<Rightarrow> (nat \<times> nat) list \<Rightarrow> nat list \<times> nat" where
  "repr_c offset [] = ([], offset)"
| "repr_c offset ((sz, al) # fs) =
     (let o1 = align_to al offset; (os, fin) = repr_c (o1 + sz) fs in (o1 # os, fin))"

section \<open>Segment descriptors\<close>

record GdtEntry =
  limit_low :: u16
  base_low :: u16
  base_middle :: u8
  access :: u8
  flags_limit_high :: u8
  base_high :: u8

record Tss =
  tss_reserved0 :: u32
  tss_rsp :: "u64 list"
  tss_reserved1 :: u64
  tss_ist :: "u64 list"
  tss_reserved2 :: u64
  tss_reserved3 :: u16
  iomap_base :: u16

definition GDT_ENTRIES :: usize where "GDT_ENTRIES = 7"

text \<open>\<open>reserved0\<close>, \<open>rsp\<close>, \<open>reserved1\<close>, \<open>ist\<close>, \<open>reserved2\<close>, \<open>reserved3\<close>, \<open>iomap_base\<close>\<close>

definition TSS_FIELDS :: "(nat \<times> nat) list" where
  "TSS_FIELDS = [(4, 4), (24, 8), (8, 8), (56, 8), (8, 8), (2, 2), (2, 2)]"

definition TSS_SIZE :: usize where "TSS_SIZE = align_to 16 (snd (repr_c 0 TSS_FIELDS))"

definition gdt_entry_default :: GdtEntry where
  "gdt_entry_default = \<lparr>limit_low = 0, base_low = 0, base_middle = 0, access = 0, flags_limit_high = 0, base_high = 0\<rparr>"

definition create_null_entry :: GdtEntry where
  "create_null_entry = \<lparr>limit_low = 0, base_low = 0, base_middle = 0, access = 0, flags_limit_high = 0, base_high = 0\<rparr>"

definition create_code_entry :: "u8 \<Rightarrow> GdtEntry" where
  "create_code_entry dpl =
     \<lparr>limit_low = 0, base_low = 0, base_middle = 0, access = 0x9A OR push_bit 5 dpl, flags_limit_high = 0x20, base_high = 0\<rparr>"

definition create_data_entry :: "u8 \<Rightarrow> GdtEntry" where
  "create_data_entry dpl =
     \<lparr>limit_low = 0, base_low = 0, base_middle = 0, access = 0x92 OR push_bit 5 dpl, flags_limit_high = 0, base_high = 0\<rparr>"

definition create_tss_entry_low :: "u64 \<Rightarrow> u16 \<Rightarrow> GdtEntry" where
  "create_tss_entry_low base limit =
     \<lparr>limit_low = limit, base_low = ucast (base AND 0xFFFF), base_middle = ucast (drop_bit 16 base AND 0xFF), access = 0x89,
      flags_limit_high = 0, base_high = ucast (drop_bit 24 base AND 0xFF)\<rparr>"

definition create_tss_entry_high :: "u64 \<Rightarrow> GdtEntry" where
  "create_tss_entry_high base =
     \<lparr>limit_low = ucast (drop_bit 32 base AND 0xFFFF), base_low = ucast (drop_bit 48 base AND 0xFFFF), base_middle = 0, access = 0,
      flags_limit_high = 0, base_high = 0\<rparr>"

section \<open>Interrupt gates\<close>

record IdtEntry =
  offset_low :: u16
  selector :: u16
  ist :: u8
  attributes :: u8
  offset_middle :: u16
  offset_high :: u32
  idt_reserved :: u32

definition IDT_ENTRIES :: usize where "IDT_ENTRIES = 256"
definition IDT_PRESENT :: u8 where "IDT_PRESENT = 0x80"
definition IDT_INTERRUPT_GATE :: u8 where "IDT_INTERRUPT_GATE = 0x0E"
definition IDT_TRAP_GATE :: u8 where "IDT_TRAP_GATE = 0x0F"
definition IDT_DPL_KERNEL :: u8 where "IDT_DPL_KERNEL = 0x00"
definition IDT_DPL_USER :: u8 where "IDT_DPL_USER = 0x60"

definition idt_entry_default :: IdtEntry where
  "idt_entry_default =
     \<lparr>offset_low = 0, selector = 0, ist = 0, attributes = 0, offset_middle = 0, offset_high = 0, idt_reserved = 0\<rparr>"

definition set_handler :: "nat \<Rightarrow> u64 \<Rightarrow> u8 \<Rightarrow> IdtEntry list \<Rightarrow> IdtEntry list" where
  "set_handler vector handler_addr attrs idt =
     (if vector \<ge> IDT_ENTRIES then idt
      else idt[vector := \<lparr>offset_low = ucast (handler_addr AND 0xFFFF), selector = 0x08, ist = 0, attributes = attrs,
                          offset_middle = ucast (drop_bit 16 handler_addr AND 0xFFFF),
                          offset_high = ucast (drop_bit 32 handler_addr AND 0xFFFFFFFF), idt_reserved = 0\<rparr>])"

definition set_isr_handler :: "nat \<Rightarrow> u64 \<Rightarrow> IdtEntry list \<Rightarrow> IdtEntry list" where
  "set_isr_handler vector handler_addr = set_handler vector handler_addr (IDT_PRESENT OR IDT_INTERRUPT_GATE OR IDT_DPL_KERNEL)"

definition set_user_handler :: "nat \<Rightarrow> u64 \<Rightarrow> IdtEntry list \<Rightarrow> IdtEntry list" where
  "set_user_handler vector handler_addr = set_handler vector handler_addr (IDT_PRESENT OR IDT_TRAP_GATE OR IDT_DPL_USER)"

section \<open>Initialisation\<close>

record cpu_tables =
  GDT :: "GdtEntry list"
  TSS :: Tss
  IDT :: "IdtEntry list"
  gdtr :: "u16 \<times> u64"
  idtr :: "u16 \<times> u64"
  task_reg :: u16
  seg_cs :: u16
  seg_ds :: u16
  seg_ss :: u16

record linkage =
  gdt_addr :: u64
  tss_addr :: u64
  idt_addr :: u64
  kernel_stack_top :: u64
  isr_stub_table :: "u64 list"
  timer_isr_addr :: u64
  spurious_isr_addr :: u64

definition reload_segments :: "cpu_tables \<Rightarrow> cpu_tables" where
  "reload_segments c = c\<lparr>seg_cs := 0x08, seg_ds := 0x10, seg_ss := 0x10\<rparr>"

definition set_kernel_stack :: "u64 \<Rightarrow> cpu_tables \<Rightarrow> cpu_tables" where
  "set_kernel_stack stack c = c\<lparr>TSS := (TSS c)\<lparr>tss_rsp := (tss_rsp (TSS c))[0 := stack]\<rparr>\<rparr>"

definition gdt_init :: "linkage \<Rightarrow> cpu_tables \<Rightarrow> cpu_tables" where
  "gdt_init l c =
     (let tss_limit = word_of_nat (TSS_SIZE - 1);
          c1 = c\<lparr>GDT := (GDT c)[0 := create_null_entry, 1 := create_code_entry 0, 2 := create_data_entry 0, 3 := create_code_entry 3,
                   4 := create_data_entry 3, 5 := create_tss_entry_low (tss_addr l) tss_limit, 6 := create_tss_entry_high (tss_addr l)]\<rparr>;
          c2 = set_kernel_stack (kernel_stack_top l) c1;
          c3 = c2\<lparr>TSS := (TSS c2)\<lparr>iomap_base := word_of_nat TSS_SIZE AND 0xFFFF\<rparr>\<rparr>;
          c4 = reload_segments (c3\<lparr>gdtr := (word_of_nat (GDT_ENTRIES * 8 - 1), gdt_addr l)\<rparr>)
      in c4\<lparr>task_reg := 0x28\<rparr>)"

definition idt_init :: "linkage \<Rightarrow> cpu_tables \<Rightarrow> cpu_tables" where
  "idt_init l c =
     (let kernel_gate = IDT_PRESENT OR IDT_INTERRUPT_GATE OR IDT_DPL_KERNEL;
          idt0 = map (\<lambda>_. idt_entry_default) (IDT c);
          idt1 = fold (\<lambda>i. set_handler i (isr_stub_table l ! i) kernel_gate) [0..<32] idt0;
          idt2 = set_handler 32 (timer_isr_addr l) kernel_gate idt1;
          idt3 = fold (\<lambda>i. set_handler i (isr_stub_table l ! (i - 1)) kernel_gate) [33..<48] idt2;
          idt4 = set_handler 0x80 (isr_stub_table l ! 48) (IDT_PRESENT OR IDT_TRAP_GATE OR IDT_DPL_USER) idt3;
          idt5 = set_handler 0xFF (spurious_isr_addr l) kernel_gate idt4
      in c\<lparr>IDT := idt5, idtr := (word_of_nat (IDT_ENTRIES * 16 - 1), idt_addr l)\<rparr>)"

section \<open>Stubs\<close>

text \<open>
  The stub at position \<open>i\<close> of \<open>isr_stub_table\<close> pushes a vector number; the stubs of the exceptions with an error code push
  nothing else, the others push a zero first. So the handler finds an error code in each case.
\<close>

definition stub_vectors :: "nat list" where
  "stub_vectors = [0..<48] @ [128]"

definition stub_has_error :: "nat \<Rightarrow> bool" where
  "stub_has_error v \<longleftrightarrow> v \<in> {8, 10, 11, 12, 13, 14, 17, 21, 30}"

definition stub_pushes :: "nat \<Rightarrow> u64 list" where
  "stub_pushes i =
     (let v = stub_vectors ! i in if stub_has_error v then [word_of_nat v] else [0, word_of_nat v])"

section \<open>How the processor reads the tables\<close>

definition gate_offset :: "IdtEntry \<Rightarrow> u64" where
  "gate_offset e = push_bit 32 (ucast (offset_high e)) OR push_bit 16 (ucast (offset_middle e)) OR ucast (offset_low e)"

datatype gate = Interrupt_gate u64 u8 | Trap_gate u64 u8 | No_gate

definition read_gate :: "IdtEntry \<Rightarrow> gate" where
  "read_gate e =
     (if \<not> bit (attributes e) 7 then No_gate
      else let dpl = drop_bit 5 (attributes e) AND 3 in
        if attributes e AND 0x1F = 0x0E then Interrupt_gate (gate_offset e) dpl
        else if attributes e AND 0x1F = 0x0F then Trap_gate (gate_offset e) dpl else No_gate)"

datatype segment = Code64 u8 | Data u8 | No_segment

definition read_segment :: "GdtEntry \<Rightarrow> segment" where
  "read_segment e =
     (if access e AND 0x90 \<noteq> 0x90 then No_segment
      else let dpl = drop_bit 5 (access e) AND 3 in
        if bit (access e) 3 then (if flags_limit_high e AND 0x60 = 0x20 then Code64 dpl else No_segment) else Data dpl)"

definition select :: "GdtEntry list \<Rightarrow> u16 \<Rightarrow> segment" where
  "select gdt s = (let i = unat (drop_bit 3 s) in if i < length gdt then read_segment (gdt ! i) else No_segment)"

definition read_tss :: "GdtEntry \<Rightarrow> GdtEntry \<Rightarrow> (u64 \<times> u16) option" where
  "read_tss low high =
     (if access low = 0x89
      then Some (push_bit 48 (ucast (base_low high)) OR push_bit 32 (ucast (limit_low high)) OR push_bit 24 (ucast (base_high low)) OR
                 push_bit 16 (ucast (base_middle low)) OR ucast (base_low low), limit_low low)
      else None)"

lemma split_offset:
  "push_bit 32 (ucast (ucast (drop_bit 32 v AND 0xFFFFFFFF) :: u32)) OR push_bit 16 (ucast (ucast (drop_bit 16 v AND 0xFFFF) :: u16)) OR
     ucast (ucast (v AND 0xFFFF) :: u16) = (v :: u64)"
proof -
  have m: "(0xFFFFFFFF :: u64) = mask 32" "(0xFFFF :: u64) = mask 16" by (simp_all add: mask_eq_exp_minus_1)
  show ?thesis unfolding m
  proof (rule bit_word_eqI)
    fix n :: nat
    consider "n < 16" | "16 \<le> n" "n < 32" | "32 \<le> n" by linarith
    then show "bit (push_bit 32 (ucast (ucast (drop_bit 32 v AND mask 32) :: u32)) OR push_bit 16 (ucast (ucast (drop_bit 16 v AND mask 16) :: u16)) OR
        ucast (ucast (v AND mask 16) :: u16) :: u64) n = bit v n" if "n < LENGTH(64)"
      using that by cases (auto simp: bit_simps)
  qed
qed

lemma split_base:
  "push_bit 48 (ucast (ucast (drop_bit 48 v AND 0xFFFF) :: u16)) OR push_bit 32 (ucast (ucast (drop_bit 32 v AND 0xFFFF) :: u16)) OR
     push_bit 24 (ucast (ucast (drop_bit 24 v AND 0xFF) :: u8)) OR push_bit 16 (ucast (ucast (drop_bit 16 v AND 0xFF) :: u8)) OR
     ucast (ucast (v AND 0xFFFF) :: u16) = (v :: u64)"
proof -
  have m: "(0xFF :: u64) = mask 8" "(0xFFFF :: u64) = mask 16" by (simp_all add: mask_eq_exp_minus_1)
  show ?thesis unfolding m
  proof (rule bit_word_eqI)
    fix n :: nat
    consider "n < 16" | "16 \<le> n" "n < 24" | "24 \<le> n" "n < 32" | "32 \<le> n" "n < 48" | "48 \<le> n" by linarith
    then show "bit (push_bit 48 (ucast (ucast (drop_bit 48 v AND mask 16) :: u16)) OR push_bit 32 (ucast (ucast (drop_bit 32 v AND mask 16) :: u16)) OR
        push_bit 24 (ucast (ucast (drop_bit 24 v AND mask 8) :: u8)) OR push_bit 16 (ucast (ucast (drop_bit 16 v AND mask 8) :: u8)) OR
        ucast (ucast (v AND mask 16) :: u16) :: u64) n = bit v n" if "n < LENGTH(64)"
      using that by cases (auto simp: bit_simps)
  qed
qed

lemma set_handler_simps:
  "length (set_handler v a at idt) = length idt"
  "length idt = 256 \<Longrightarrow> w < 256 \<Longrightarrow> gate_offset (set_handler v a at idt ! w) = (if w = v then a else gate_offset (idt ! w))"
  "length idt = 256 \<Longrightarrow> w < 256 \<Longrightarrow> attributes (set_handler v a at idt ! w) = (if w = v then at else attributes (idt ! w))"
  "length idt = 256 \<Longrightarrow> w < 256 \<Longrightarrow> selector (set_handler v a at idt ! w) = (if w = v then 0x08 else selector (idt ! w))"
  by (auto simp: set_handler_def IDT_ENTRIES_def nth_list_update gate_offset_def split_offset)

lemma length_fold_set_handler: "length (fold (\<lambda>i. set_handler i (f i) at) vs idt) = length idt"
  by (induction vs arbitrary: idt) (simp_all add: set_handler_simps)

lemma fold_set_handler:
  assumes "length idt = 256" "w < 256"
  shows "gate_offset (fold (\<lambda>i. set_handler i (f i) at) vs idt ! w) = (if w \<in> set vs then f w else gate_offset (idt ! w))"
    "attributes (fold (\<lambda>i. set_handler i (f i) at) vs idt ! w) = (if w \<in> set vs then at else attributes (idt ! w))"
    "selector (fold (\<lambda>i. set_handler i (f i) at) vs idt ! w) = (if w \<in> set vs then 0x08 else selector (idt ! w))"
  using assms by (induction vs arbitrary: idt) (simp_all add: set_handler_simps)

section \<open>Properties\<close>

text \<open>What the stub behind a gate tells the handler: the vector on top of its frame.\<close>

definition delivered_vector :: "linkage \<Rightarrow> u64 \<Rightarrow> nat option" where
  "delivered_vector l addr = (case [i \<leftarrow> [0..<49]. isr_stub_table l ! i = addr] of [] \<Rightarrow> None | i # _ \<Rightarrow> Some (unat (last (stub_pushes i))))"

lemma filter_single: "distinct xs \<Longrightarrow> i \<in> set xs \<Longrightarrow> [k \<leftarrow> xs. k = i] = [i]"
  by (induction xs) (auto simp: filter_empty_conv)

lemma delivered_vector_stub:
  assumes "length (isr_stub_table l) = 49" "distinct (isr_stub_table l)" "i < 49"
  shows "delivered_vector l (isr_stub_table l ! i) = Some (stub_vectors ! i)"
proof -
  have "[k \<leftarrow> [0..<49]. isr_stub_table l ! k = isr_stub_table l ! i] = [k \<leftarrow> [0..<49]. k = i]"
    using assms by (intro filter_cong) (auto simp: nth_eq_iff_index_eq)
  also have "\<dots> = [i]" using assms(3) by (intro filter_single) simp_all
  finally have "delivered_vector l (isr_stub_table l ! i) = Some (unat (last (stub_pushes i)))" by (simp add: delivered_vector_def)
  moreover have "stub_vectors ! i < 256" using assms(3) by (simp add: stub_vectors_def nth_append)
  ultimately show ?thesis by (simp add: stub_pushes_def Let_def unsigned_of_nat take_bit_nat_eq_self)
qed


lemma read_gate_kernel: "attributes e = 0x8E \<Longrightarrow> read_gate e = Interrupt_gate (gate_offset e) 0"
  by (simp add: read_gate_def)

lemma read_gate_user: "attributes e = 0xEF \<Longrightarrow> read_gate e = Trap_gate (gate_offset e) 3"
  by (simp add: read_gate_def)

lemma read_gate_none: "attributes e = 0 \<Longrightarrow> read_gate e = No_gate"
  by (simp add: read_gate_def)

lemma idt_init_gate:
  assumes "length (IDT c) = 256" "v < 256"
  shows "read_gate (IDT (idt_init l c) ! v) =
      (if v < 32 then Interrupt_gate (isr_stub_table l ! v) 0 else if v = 32 then Interrupt_gate (timer_isr_addr l) 0
       else if v < 48 then Interrupt_gate (isr_stub_table l ! (v - 1)) 0 else if v = 128 then Trap_gate (isr_stub_table l ! 48) 3
       else if v = 255 then Interrupt_gate (spurious_isr_addr l) 0 else No_gate)"
    "read_gate (IDT (idt_init l c) ! v) \<noteq> No_gate \<Longrightarrow> selector (IDT (idt_init l c) ! v) = 0x08"
proof -
  let ?e = "IDT (idt_init l c) ! v"
  have k: "IDT_PRESENT OR IDT_INTERRUPT_GATE OR IDT_DPL_KERNEL = 0x8E" "IDT_PRESENT OR IDT_TRAP_GATE OR IDT_DPL_USER = 0xEF"
    by (simp_all add: IDT_PRESENT_def IDT_INTERRUPT_GATE_def IDT_TRAP_GATE_def IDT_DPL_KERNEL_def IDT_DPL_USER_def)
  define low where "low = [0..<32]"
  define high where "high = [33..<48]"
  have idt: "IDT (idt_init l c) = set_handler 0xFF (spurious_isr_addr l) 0x8E (set_handler 0x80 (isr_stub_table l ! 48) 0xEF
      (fold (\<lambda>i. set_handler i (isr_stub_table l ! (i - 1)) 0x8E) high (set_handler 32 (timer_isr_addr l) 0x8E
        (fold (\<lambda>i. set_handler i (isr_stub_table l ! i) 0x8E) low (map (\<lambda>_. idt_entry_default) (IDT c))))))"
    unfolding idt_init_def Let_def k low_def[symmetric] high_def[symmetric] by simp
  have sets: "x \<in> set low \<longleftrightarrow> x < 32" "x \<in> set high \<longleftrightarrow> 33 \<le> x \<and> x < 48" for x
    by (simp_all only: low_def high_def set_upt atLeastLessThan_iff zero_le simp_thms)
  note simps = idt sets set_handler_simps length_fold_set_handler fold_set_handler assms
  have at: "attributes ?e = (if v < 48 \<or> v = 255 then 0x8E else if v = 128 then 0xEF else 0)"
    by (simp add: simps idt_entry_default_def)
  have default_offset: "gate_offset idt_entry_default = 0" by (simp add: gate_offset_def idt_entry_default_def)
  have off: "gate_offset ?e = (if v < 32 then isr_stub_table l ! v else if v = 32 then timer_isr_addr l
      else if v < 48 then isr_stub_table l ! (v - 1) else if v = 128 then isr_stub_table l ! 48
      else if v = 255 then spurious_isr_addr l else 0)"
    using default_offset by (simp add: simps)
  show "read_gate ?e =
      (if v < 32 then Interrupt_gate (isr_stub_table l ! v) 0 else if v = 32 then Interrupt_gate (timer_isr_addr l) 0
       else if v < 48 then Interrupt_gate (isr_stub_table l ! (v - 1)) 0 else if v = 128 then Trap_gate (isr_stub_table l ! 48) 3
       else if v = 255 then Interrupt_gate (spurious_isr_addr l) 0 else No_gate)"
    using at off read_gate_kernel[of ?e] read_gate_user[of ?e] read_gate_none[of ?e] by (simp split: if_splits)
  assume "read_gate ?e \<noteq> No_gate"
  then have "v < 48 \<or> v = 128 \<or> v = 255" using at read_gate_none[of ?e] by (auto split: if_splits)
  then show "selector ?e = 0x08" by (auto simp: simps)
qed

text \<open>
  C22. Dispatch of interrupts. After the initialisation of the interrupt table, an exception reaches the handler under its own number, and so does
  the system call \<open>int 0x80\<close>, the only gate that user code may use; the timer interrupt enters its dedicated
  stub; no other vector above 47 has a gate, but for the spurious one. A device interrupt, vector 33 to 47, is delivered
  to the handler under the number of the vector \<^emph>\<open>before\<close> it, so that the keyboard interrupt arrives as a timer interrupt.
\<close>
theorem idt_dispatch:
  assumes "length (IDT c) = 256" "length (isr_stub_table l) = 49" "distinct (isr_stub_table l)" "v < 256"
    and "g = read_gate (IDT (idt_init l c) ! v)"
  shows "(v < 32 \<longrightarrow> (\<exists>a. g = Interrupt_gate a 0 \<and> delivered_vector l a = Some v)) \<and>
    (v = 32 \<longrightarrow> g = Interrupt_gate (timer_isr_addr l) 0) \<and>
    (32 < v \<and> v < 48 \<longrightarrow> (\<exists>a. g = Interrupt_gate a 0 \<and> delivered_vector l a = Some (v - 1))) \<and>
    (v = 128 \<longrightarrow> (\<exists>a. g = Trap_gate a 3 \<and> delivered_vector l a = Some 128)) \<and>
    (v = 255 \<longrightarrow> g = Interrupt_gate (spurious_isr_addr l) 0) \<and>
    (47 < v \<and> v \<noteq> 128 \<and> v \<noteq> 255 \<longrightarrow> g = No_gate)"
proof -
  note gate = idt_init_gate(1)[OF assms(1,4), of l, folded assms(5)] and stub = delivered_vector_stub[OF assms(2,3)]
  have sv: "i < 48 \<Longrightarrow> stub_vectors ! i = i" "stub_vectors ! 48 = 128" for i by (simp_all add: stub_vectors_def nth_append)
  have "v < 32 \<longrightarrow> (\<exists>a. g = Interrupt_gate a 0 \<and> delivered_vector l a = Some v)" using gate stub[of v] sv(1) by simp
  moreover have "32 < v \<and> v < 48 \<longrightarrow> (\<exists>a. g = Interrupt_gate a 0 \<and> delivered_vector l a = Some (v - 1))"
  proof
    assume v: "32 < v \<and> v < 48"
    then have "v - 1 < 48" by linarith
    then have "delivered_vector l (isr_stub_table l ! (v - 1)) = Some (v - 1)" using stub[of "v - 1"] sv(1)[of "v - 1"] by simp
    then show "\<exists>a. g = Interrupt_gate a 0 \<and> delivered_vector l a = Some (v - 1)" using gate v by auto
  qed
  moreover have "v = 128 \<longrightarrow> (\<exists>a. g = Trap_gate a 3 \<and> delivered_vector l a = Some 128)" using gate stub[of 48] sv(2) by simp
  ultimately show ?thesis using gate by simp
qed

definition demo_linkage :: linkage where
  "demo_linkage = \<lparr>gdt_addr = 0x200000, tss_addr = 0x123456789ABCDEF0, idt_addr = 0x201000, kernel_stack_top = 0x300000,
     isr_stub_table = map word_of_nat [0..<49], timer_isr_addr = 0x1000, spurious_isr_addr = 0x2000\<rparr>"

definition demo_tables :: cpu_tables where
  "demo_tables = \<lparr>GDT = replicate 7 gdt_entry_default,
     TSS = \<lparr>tss_reserved0 = 0, tss_rsp = [0, 0, 0], tss_reserved1 = 0, tss_ist = replicate 7 0, tss_reserved2 = 0, tss_reserved3 = 0,
            iomap_base = 0\<rparr>,
     IDT = replicate 256 idt_entry_default, gdtr = (0, 0), idtr = (0, 0), task_reg = 0, seg_cs = 0, seg_ds = 0, seg_ss = 0\<rparr>"

lemma demo_linkage_ok:
  "length (IDT demo_tables) = 256" "length (GDT demo_tables) = 7" "length (isr_stub_table demo_linkage) = 49" "distinct (isr_stub_table demo_linkage)"
proof -
  have d: "distinct (map word_of_nat [0..<49] :: u64 list)"
    by (auto simp: distinct_map inj_on_def word_unat_eq_iff unsigned_of_nat take_bit_nat_eq_self)
  show "length (IDT demo_tables) = 256" "length (GDT demo_tables) = 7" "length (isr_stub_table demo_linkage) = 49" "distinct (isr_stub_table demo_linkage)"
    using d by (simp_all only: demo_tables_def demo_linkage_def cpu_tables.simps linkage.simps length_replicate length_map length_upt diff_zero)
qed

theorem idt_dispatch_witness:
  "\<exists>a. read_gate (IDT (idt_init demo_linkage demo_tables) ! 33) = Interrupt_gate a 0 \<and> delivered_vector demo_linkage a = Some 32"
proof -
  note ok = demo_linkage_ok(1,3,4)
  from idt_dispatch[OF ok, of 33] show ?thesis by simp
qed

lemma gdt_init_selects:
  assumes "length (GDT c) = 7"
  shows "select (GDT (gdt_init l c)) 0x08 = Code64 0" "select (GDT (gdt_init l c)) 0x10 = Data 0"
    "select (GDT (gdt_init l c)) 0x1B = Code64 3" "select (GDT (gdt_init l c)) 0x23 = Data 3"
    "read_tss (GDT (gdt_init l c) ! 5) (GDT (gdt_init l c) ! 6) = Some (tss_addr l, word_of_nat (TSS_SIZE - 1))"
proof -
  have gdt: "GDT (gdt_init l c) = [create_null_entry, create_code_entry 0, create_data_entry 0, create_code_entry 3, create_data_entry 3,
      create_tss_entry_low (tss_addr l) (word_of_nat (TSS_SIZE - 1)), create_tss_entry_high (tss_addr l)]"
  proof -
    obtain e0 e1 e2 e3 e4 e5 e6 where "GDT c = [e0, e1, e2, e3, e4, e5, e6]"
      using assms by (auto simp: length_Suc_conv numeral_eq_Suc)
    then show ?thesis by (simp add: gdt_init_def set_kernel_stack_def reload_segments_def Let_def)
  qed
  show "select (GDT (gdt_init l c)) 0x08 = Code64 0" "select (GDT (gdt_init l c)) 0x10 = Data 0"
    "select (GDT (gdt_init l c)) 0x1B = Code64 3" "select (GDT (gdt_init l c)) 0x23 = Data 3"
    unfolding gdt by (simp_all add: select_def read_segment_def create_code_entry_def create_data_entry_def)
  show "read_tss (GDT (gdt_init l c) ! 5) (GDT (gdt_init l c) ! 6) = Some (tss_addr l, word_of_nat (TSS_SIZE - 1))"
    unfolding gdt by (simp add: read_tss_def create_tss_entry_low_def create_tss_entry_high_def split_base)
qed

text \<open>
  The task state segment has no packed layout: its first stack pointer lies at offset 8, where the processor reads it at offset 4, and
  the structure is 112 bytes long instead of 104.
\<close>

lemma tss_layout: "fst (repr_c 0 TSS_FIELDS) = [0, 8, 32, 40, 96, 104, 106]" "TSS_SIZE = 112"
  by (simp_all add: TSS_FIELDS_def TSS_SIZE_def align_to_def)



end
