(* ===== verification/Interrupts.thy ===== *)
theory Interrupts
  imports Keyboard Apic Syscall Context Descriptors
begin

text \<open>
  The interrupt handlers (\<open>src/src/interrupts.rs\<close>) on the state they share: keyboard, timer, interrupt controllers, scheduler,
  console and the accesses to the hardware. The text that \<open>kprint!\<close> formats for an exception is an argument. A handler
  that halts, panics or waits for ever has no result. A handler that the scheduler leaves in the middle for another
  task returns the switch instead; what remains of it runs when the task comes back.
\<close>

section \<open>State\<close>

record InterruptContext =
  ic_r15 :: u64
  ic_r14 :: u64
  ic_r13 :: u64
  ic_r12 :: u64
  ic_r11 :: u64
  ic_r10 :: u64
  ic_r9 :: u64
  ic_r8 :: u64
  ic_rbp :: u64
  ic_rdi :: u64
  ic_rsi :: u64
  ic_rdx :: u64
  ic_rcx :: u64
  ic_rbx :: u64
  ic_rax :: u64
  ic_vector :: u64
  ic_error_code :: u64
  ic_rip :: u64
  ic_cs :: u64
  ic_rflags :: u64
  ic_rsp :: u64
  ic_ss :: u64

record kernel =
  kbd_state :: keyboard
  timer_state :: timer_statics
  apic_state :: apic_statics
  KERNEL_SCHEDULER :: "Scheduler option"
  console :: Console
  accesses :: io

type_synonym task_switch = "(arc option \<times> arc) option"

section \<open>Parts of the handlers\<close>

definition send_eoi :: "u8 \<Rightarrow> apic_statics \<Rightarrow> io \<Rightarrow> io" where
  "send_eoi irq a io =
     (if is_using_apic a then eoi a io
      else outb 0x20 0x20 (if irq \<ge> 8 then outb 0xA0 0x20 io else io))"

definition kernel_eoi :: "u8 \<Rightarrow> 'a kernel_scheme \<Rightarrow> 'a kernel_scheme" where
  "kernel_eoi irq k = k\<lparr>accesses := send_eoi irq (apic_state k) (accesses k)\<rparr>"

text \<open>\<open>TICK_COUNT\<close> is what the scheduler stamps new tasks with.\<close>

definition kernel_timer_tick :: "'a kernel_scheme \<Rightarrow> 'a kernel_scheme option" where
  "kernel_timer_tick k =
     map_option (\<lambda>t. k\<lparr>timer_state := t, KERNEL_SCHEDULER := map_option (\<lambda>s. s\<lparr>timer_tick_count := TICK_COUNT t\<rparr>) (KERNEL_SCHEDULER k)\<rparr>)
       (on_timer_tick (timer_state k))"

definition kernel_print :: "hardware \<Rightarrow> u8 list \<Rightarrow> 'a kernel_scheme \<Rightarrow> 'a kernel_scheme option" where
  "kernel_print hw msg k = map_option (\<lambda>(c, io). k\<lparr>console := c, accesses := io\<rparr>) (vga_print hw msg (console k, accesses k))"

section \<open>The general handler\<close>

definition isr_timer :: "'a kernel_scheme \<Rightarrow> ('a kernel_scheme \<times> task_switch) option" where
  "isr_timer k =
     Option.bind (kernel_timer_tick k) (\<lambda>k1.
       case KERNEL_SCHEDULER k1 of
         None \<Rightarrow> Some (kernel_eoi 0 k1, None)
       | Some s \<Rightarrow>
           (case tick s of
              (s1, None) \<Rightarrow> Some (kernel_eoi 0 (k1\<lparr>KERNEL_SCHEDULER := Some s1\<rparr>), None)
            | (s1, Some sw) \<Rightarrow> Some (k1\<lparr>KERNEL_SCHEDULER := Some s1\<rparr>, Some sw)))"

definition isr_timer_resumed :: "'a kernel_scheme \<Rightarrow> 'a kernel_scheme" where
  "isr_timer_resumed k = kernel_eoi 0 (k\<lparr>KERNEL_SCHEDULER := map_option schedule_resumed (KERNEL_SCHEDULER k)\<rparr>)"

definition isr_keyboard :: "hardware \<Rightarrow> 'a kernel_scheme \<Rightarrow> 'a kernel_scheme" where
  "isr_keyboard hw k =
     (let (scancode, io) = inb hw 0x60 (accesses k)
      in kernel_eoi 1 (k\<lparr>accesses := io, kbd_state := handle_keyboard_scancode scancode (kbd_state k)\<rparr>))"

definition isr_syscall :: "hardware \<Rightarrow> pmem \<Rightarrow> InterruptContext \<Rightarrow> 'a kernel_scheme \<Rightarrow> (InterruptContext \<times> 'a kernel_scheme) option" where
  "isr_syscall hw m ctx k =
     map_option (\<lambda>(result, c, io). (ctx\<lparr>ic_rax := result\<rparr>, k\<lparr>console := c, accesses := io\<rparr>))
       (rust_syscall_handler hw m (ic_rax ctx) (ic_rdi ctx) (ic_rsi ctx) (ic_rdx ctx) (ic_r10 ctx) (console k, accesses k))"

definition isr_dispatch ::
  "hardware \<Rightarrow> pmem \<Rightarrow> u8 list \<Rightarrow> InterruptContext \<Rightarrow> 'a kernel_scheme \<Rightarrow> (InterruptContext \<times> 'a kernel_scheme \<times> task_switch) option" where
  "isr_dispatch hw m msg ctx k =
     (let v = ic_vector ctx in
      if v = 0 \<or> v = 6 \<or> v = 13 \<or> v = 14 then map_option (\<lambda>k1. (ctx, k1, None)) (kernel_print hw msg k)
      else if v = 8 then None
      else if v = 32 then map_option (Pair ctx) (isr_timer k)
      else if v = 33 then Some (ctx, isr_keyboard hw k, None)
      else if v = 39 \<or> v = 47 then Some (ctx, k, None)
      else if v = 128 then map_option (\<lambda>(c1, k1). (c1, k1, None)) (isr_syscall hw m ctx k)
      else if v = 255 then Some (ctx, k, None)
      else if v < 32 then map_option (\<lambda>k1. (ctx, k1, None)) (kernel_print hw msg k)
      else Some (ctx, k, None))"

definition rust_isr_handler ::
  "hardware \<Rightarrow> pmem \<Rightarrow> u8 list \<Rightarrow> InterruptContext \<Rightarrow> 'a kernel_scheme \<Rightarrow> (InterruptContext \<times> 'a kernel_scheme \<times> task_switch) option" where
  "rust_isr_handler hw m msg ctx k =
     map_option (\<lambda>(c1, k1, sw).
         (c1, if 34 \<le> ic_vector c1 \<and> ic_vector c1 < 48 then kernel_eoi (ucast (ic_vector c1 - 32)) k1 else k1, sw))
       (isr_dispatch hw m msg ctx k)"

section \<open>The timer handler\<close>

definition rust_timer_handler :: "u64 \<Rightarrow> 'a kernel_scheme \<Rightarrow> (u64 \<times> 'a kernel_scheme) option" where
  "rust_timer_handler saved_state_ptr k =
     map_option (\<lambda>k1.
         let k2 = kernel_eoi 0 k1 in
         case KERNEL_SCHEDULER k2 of
           Some s \<Rightarrow>
             if is_preemption_enabled s
             then let (rsp, s1) = preempt_schedule saved_state_ptr s in (rsp, k2\<lparr>KERNEL_SCHEDULER := Some s1\<rparr>)
             else (saved_state_ptr, k2)
         | None \<Rightarrow> (saved_state_ptr, k2))
       (kernel_timer_tick k)"

definition rust_apic_eoi_handler :: "'a kernel_scheme \<Rightarrow> 'a kernel_scheme" where
  "rust_apic_eoi_handler k = k\<lparr>accesses := eoi (apic_state k) (accesses k)\<rparr>"

section \<open>Invariant\<close>

definition kernel_inv :: "'a kernel_scheme \<Rightarrow> bool" where
  "kernel_inv k \<longleftrightarrow> keyboard_inv (kbd_state k) \<and> cursor_ok (console k) \<and> TIMER_HZ (timer_state k) \<noteq> 0 \<and>
     (\<forall>s. KERNEL_SCHEDULER k = Some s \<longrightarrow> sched_inv s \<and> timer_tick_count s = TICK_COUNT (timer_state k))"

text \<open>The steps of the kernel that interrupts and their clients make.\<close>

inductive irq_step :: "hardware \<Rightarrow> pmem \<Rightarrow> 'a kernel_scheme \<Rightarrow> 'a kernel_scheme \<Rightarrow> bool" for hw m where
  timer: "rust_timer_handler p k = Some (rsp, k') \<Longrightarrow> irq_step hw m k k'"
| isr: "rust_isr_handler hw m msg ctx k = Some (ctx', k', sw) \<Longrightarrow> irq_step hw m k k'"
| resumed: "irq_step hw m k (isr_timer_resumed k)"
| spurious: "irq_step hw m k (rust_apic_eoi_handler k)"
| read: "irq_step hw m k (k\<lparr>kbd_state := snd (keyboard_read_char (kbd_state k))\<rparr>)"
| print: "kernel_print hw msg k = Some k' \<Longrightarrow> irq_step hw m k k'"
| task: "KERNEL_SCHEDULER k = Some s \<Longrightarrow> sched_step s s' \<Longrightarrow> timer_tick_count s' = timer_tick_count s \<Longrightarrow>
    irq_step hw m k (k\<lparr>KERNEL_SCHEDULER := Some s'\<rparr>)"

lemma kernel_inv_eoi [simp]: "kernel_inv (kernel_eoi irq k) = kernel_inv k"
  by (simp add: kernel_inv_def kernel_eoi_def)

lemma kernel_timer_tick_inv:
  assumes "kernel_inv k"
  shows "\<exists>k1. kernel_timer_tick k = Some k1 \<and> kernel_inv k1 \<and> TICK_COUNT (timer_state k1) = TICK_COUNT (timer_state k) + 1 \<and>
    KERNEL_SCHEDULER k1 = map_option (\<lambda>s. s\<lparr>timer_tick_count := TICK_COUNT (timer_state k) + 1\<rparr>) (KERNEL_SCHEDULER k) \<and>
    kbd_state k1 = kbd_state k \<and> console k1 = console k \<and> accesses k1 = accesses k \<and> apic_state k1 = apic_state k"
  using assms by (auto simp: kernel_timer_tick_def on_timer_tick_def kernel_inv_def sched_frame)

lemma kernel_print_inv: "kernel_print hw msg k = Some k' \<Longrightarrow> kernel_inv k \<Longrightarrow> kernel_inv k'"
  using fold_vga_byte[of "console k" msg] by (auto simp: kernel_print_def vga_print_def kernel_inv_def)

lemma handle_keyboard_scancode_inv: "keyboard_inv k \<Longrightarrow> keyboard_inv (handle_keyboard_scancode sc k)"
  by (simp add: handle_keyboard_scancode_cases kbd.put_inv)

lemma syscall_cursor:
  assumes "cursor_ok c" "rust_syscall_handler hw m nr a b d e (c, io) = Some (r, c', io')"
  shows "cursor_ok c'"
  using assms fold_vga_byte[OF assms(1)] by (auto simp: syscall_spec vga_print_def split: if_splits)

lemma schedule_frame: "timer_tick_count (fst (schedule s)) = timer_tick_count s"
  by (simp add: schedule_def requeue_current_def pick_next_task_def upd_task_def Let_def split: option.splits prod.splits)


lemma tick_frame: "timer_tick_count (fst (tick s)) = timer_tick_count s"
  by (simp add: tick_def upd_task_def Let_def schedule_frame split: option.splits prod.splits)

lemma pick_next_task_frame:
  "pick_next_task s = (r, s') \<Longrightarrow> store s' = store s \<and> current s' = current s \<and> timer_tick_count s' = timer_tick_count s"
  by (auto simp: pick_next_task_def Let_def split: if_splits)

lemma preempt_requeue_frame [simp]:
  "current (preempt_requeue p s) = current s" "timer_tick_count (preempt_requeue p s) = timer_tick_count s"
  "current s = Some r \<Longrightarrow> saved_rsp (store (preempt_requeue p s) r) = p"
  by (simp_all add: preempt_requeue_def upd_task_def reset_time_slice_def Let_def split: option.splits)

lemma preempt_schedule_rsp:
  assumes "preempt_enabled s" "preempt_schedule p s = (rsp, s')"
  shows "rsp = (case current s' of Some r \<Rightarrow> saved_rsp (store s' r) | None \<Rightarrow> p)" "timer_tick_count s' = timer_tick_count s"
proof -
  obtain n s2 where pick: "pick_next_task (preempt_requeue p s) = (n, s2)" by fastforce
  note f = pick_next_task_frame[OF pick]
  show "rsp = (case current s' of Some r \<Rightarrow> saved_rsp (store s' r) | None \<Rightarrow> p)" "timer_tick_count s' = timer_tick_count s"
    using assms pick f by (auto simp: preempt_schedule_def upd_task_def Let_def split: option.splits)
qed

lemma kernel_inv_sched:
  assumes "kernel_inv k" "KERNEL_SCHEDULER k = Some s" "sched_inv s'" "timer_tick_count s' = timer_tick_count s"
  shows "kernel_inv (k\<lparr>KERNEL_SCHEDULER := Some s'\<rparr>)"
  using assms by (simp add: kernel_inv_def)

lemma isr_timer_inv:
  assumes "kernel_inv k" "isr_timer k = Some (k', sw)"
  shows "kernel_inv k' \<and> kbd_state k' = kbd_state k \<and> TICK_COUNT (timer_state k') = TICK_COUNT (timer_state k) + 1"
proof -
  obtain k1 where k1: "kernel_timer_tick k = Some k1" "kernel_inv k1" "kbd_state k1 = kbd_state k"
    "TICK_COUNT (timer_state k1) = TICK_COUNT (timer_state k) + 1" using kernel_timer_tick_inv[OF assms(1)] by blast
  show ?thesis
  proof (cases "KERNEL_SCHEDULER k1")
    case None
    then show ?thesis using assms(2) k1 by (auto simp: isr_timer_def kernel_eoi_def kernel_inv_def)
  next
    case (Some s)
    have inv: "kernel_inv (k1\<lparr>KERNEL_SCHEDULER := Some (fst (tick s))\<rparr>)"
      using kernel_inv_sched[OF k1(2) Some] tick_inv k1(2) Some tick_frame by (metis kernel_inv_def)
    obtain s1 w where t: "tick s = (s1, w)" by fastforce
    show ?thesis using assms(2) k1 Some inv t by (cases w) (auto simp: isr_timer_def kernel_eoi_def kernel_inv_def)
  qed
qed

lemma isr_timer_returns:
  assumes "kernel_inv k"
  shows "\<exists>k' sw. isr_timer k = Some (k', sw)"
proof -
  obtain k1 where k1: "kernel_timer_tick k = Some k1" using kernel_timer_tick_inv[OF assms] by blast
  show ?thesis
  proof (cases "KERNEL_SCHEDULER k1")
    case (Some s)
    then show ?thesis using k1 by (cases "tick s"; cases "snd (tick s)") (simp_all add: isr_timer_def)
  qed (use k1 in \<open>simp add: isr_timer_def\<close>)
qed

lemma irq_step_inv:
  assumes "irq_step hw m k k'" "kernel_inv k"
  shows "kernel_inv k'"
  using assms
proof (cases rule: irq_step.cases)
  case (timer p rsp)
  obtain k1 where k1: "kernel_timer_tick k = Some k1" "kernel_inv k1" using kernel_timer_tick_inv[OF assms(2)] by blast
  show ?thesis
  proof (cases "KERNEL_SCHEDULER k1")
    case (Some s)
    obtain r s1 where p: "preempt_schedule p s = (r, s1)" by fastforce
    have "sched_inv s1" using preempt_schedule_inv[of s p] k1(2) Some p by (simp add: kernel_inv_def)
    then have "kernel_inv (k1\<lparr>KERNEL_SCHEDULER := Some s1\<rparr>)" if "preempt_enabled s"
      using kernel_inv_sched[OF k1(2) Some] preempt_schedule_rsp(2)[OF that p] by blast
    then show ?thesis using timer k1 Some p
      by (auto simp: rust_timer_handler_def kernel_eoi_def is_preemption_enabled_def kernel_inv_def Let_def split: if_splits)
  qed (use timer k1 in \<open>auto simp: rust_timer_handler_def kernel_eoi_def kernel_inv_def Let_def\<close>)
next
  case (isr msg ctx ctx' sw)
  then obtain c1 k1 where d: "isr_dispatch hw m msg ctx k = Some (c1, k1, sw)"
    "k' = (if 34 \<le> ic_vector c1 \<and> ic_vector c1 < 48 then kernel_eoi (ucast (ic_vector c1 - 32)) k1 else k1)"
    by (auto simp: rust_isr_handler_def)
  have kb: "kernel_inv (isr_keyboard hw k)"
    using assms(2) by (auto simp: isr_keyboard_def Let_def inb_def kernel_inv_def kernel_eoi_def handle_keyboard_scancode_inv)
  have sy: "kernel_inv k2" if "isr_syscall hw m ctx k = Some (c2, k2)" for c2 k2
    using that assms(2) syscall_cursor[of "console k"] by (auto simp: isr_syscall_def kernel_inv_def)
  have "kernel_inv k1"
    using d(1) assms(2) kb by (auto simp: isr_dispatch_def Let_def split: if_splits dest: kernel_print_inv isr_timer_inv sy)
  then show ?thesis using d(2) by simp
next
  case resumed
  then show ?thesis using assms(2) by (auto simp: isr_timer_resumed_def kernel_inv_def schedule_resumed_def sched_frame kernel_eoi_def)
next
  case spurious
  then show ?thesis using assms(2) by (simp add: rust_apic_eoi_handler_def kernel_inv_def)
next
  case read
  then show ?thesis using assms(2) by (simp add: kernel_inv_def kbd.get_inv)
next
  case (print msg)
  then show ?thesis using assms(2) by (rule kernel_print_inv)
next
  case (task s s')
  then show ?thesis using assms(2) kernel_inv_sched[of k s s'] sched_step_inv[of s s'] by (auto simp: kernel_inv_def)
qed


definition eoi_events :: "u8 \<Rightarrow> apic_statics \<Rightarrow> io" where
  "eoi_events irq a =
     (if USING_APIC a then (if APIC_INITIALIZED a then [Write32 (usize_add (LAPIC_BASE a) LAPIC_EOI) 0] else [])
      else (if irq \<ge> 8 then [Out8 0xA0 0x20] else []) @ [Out8 0x20 0x20])"

lemma send_eoi_events: "send_eoi irq a io = io @ eoi_events irq a"
  by (simp add: send_eoi_def eoi_events_def is_using_apic_def eoi_def lapic_is_available_def lapic_write_reg_def write_volatile32_def outb_def)

section \<open>Properties\<close>

text \<open>
  C3. The kernel stays consistent under every interleaving of timer interrupts, exceptions, device interrupts and system calls, of printing, of reading
  the keyboard and of scheduler operations: the keyboard ring is well formed, the cursor is on the screen, the timer
  frequency is not zero, the scheduler's invariant holds, and the time it stamps tasks with is the tick counter. So
  the timer interrupt never panics.
\<close>
theorem interrupts_keep_kernel:
  assumes "(irq_step hw m)\<^sup>*\<^sup>* k k'" "kernel_inv k"
  shows "kernel_inv k' \<and> (\<exists>rsp k''. rust_timer_handler p k' = Some (rsp, k''))"
proof -
  have "kernel_inv k'" using assms by (induction rule: rtranclp_induct) (auto intro: irq_step_inv)
  moreover obtain k1 where "kernel_timer_tick k' = Some k1" using kernel_timer_tick_inv[OF calculation] by blast
  ultimately show ?thesis by (simp add: rust_timer_handler_def)
qed

definition demo_scheduler :: Scheduler where
  "demo_scheduler = enable_preemption (snd (create_kernel_task 0x101000 ''init'' demo_sched))"

definition demo_kernel :: kernel where
  "demo_kernel = \<lparr>kbd_state = keyboard_statics, timer_state = timer_statics_init, apic_state = apic_statics_init,
     KERNEL_SCHEDULER = Some demo_scheduler, console = demo_console, accesses = []\<rparr>"

lemma demo_kernel_inv: "kernel_inv demo_kernel" "preempt_enabled demo_scheduler"
proof -
  have "sched_inv (snd (create_kernel_task 0x101000 ''init'' demo_sched))"
  proof (rule sched_reach_inv)
    have "sched_reach demo_sched" unfolding demo_sched_def by (rule sched_reach.new)
    moreover have "NEXT_TASK_ID demo_sched < NEXT_TASK_ID demo_sched + 1"
      by (simp add: demo_sched_def scheduler_new_def demo_statics_def)
    ultimately show "sched_reach (snd (create_kernel_task 0x101000 ''init'' demo_sched))"
      by (blast intro: sched_reach.step sched_step.intros)
  qed
  then have "sched_inv demo_scheduler" by (simp add: demo_scheduler_def enable_preemption_def sched_frame)
  moreover have "timer_tick_count demo_scheduler = 0"
    by (simp add: demo_scheduler_def enable_preemption_def create_kernel_task_def new_kernel_def enqueue_new_task_def setup_initial_stack_def
        arc_new_def demo_sched_def scheduler_new_def demo_statics_def Let_def alloc_stack_def fetch_task_id_def split: prod.splits)
  ultimately show "kernel_inv demo_kernel"
    using keyboard_statics_inv(1) by (simp add: kernel_inv_def demo_kernel_def demo_console_def cursor_ok_def timer_statics_init_def)
  show "preempt_enabled demo_scheduler" by (simp add: demo_scheduler_def enable_preemption_def)
qed

theorem interrupts_keep_kernel_witness:
  "\<exists>k'. (irq_step ready_hardware (\<lambda>_. 0))\<^sup>*\<^sup>* demo_kernel k' \<and> kernel_inv k' \<and> kbd_state k' = handle_keyboard_scancode 0xFF keyboard_statics"
proof -
  let ?ctx = "undefined\<lparr>ic_vector := 33\<rparr>"
  have "rust_isr_handler ready_hardware (\<lambda>_. 0) [] ?ctx demo_kernel = Some (?ctx, isr_keyboard ready_hardware demo_kernel, None)"
    by (simp add: rust_isr_handler_def isr_dispatch_def)
  then have "irq_step ready_hardware (\<lambda>_. 0) demo_kernel (isr_keyboard ready_hardware demo_kernel)" by (rule irq_step.isr)
  then have s: "(irq_step ready_hardware (\<lambda>_. 0))\<^sup>*\<^sup>* demo_kernel (isr_keyboard ready_hardware demo_kernel)" by (rule r_into_rtranclp)
  have "kbd_state (isr_keyboard ready_hardware demo_kernel) = handle_keyboard_scancode 0xFF keyboard_statics"
    by (simp add: isr_keyboard_def inb_def ready_hardware_def kernel_eoi_def demo_kernel_def Let_def)
  then show ?thesis using interrupts_keep_kernel[OF s demo_kernel_inv(1)] s by blast
qed

text \<open>
  C6. A timer interrupt preempts. With preemption on, the timer handler counts one tick, acknowledges the interrupt exactly once, leaves keyboard and console
  alone, and lets the scheduler choose: the stack pointer it returns is the one saved for the task that is
  now current, and the interrupted one's if there is none.
\<close>
theorem timer_interrupt_preempts:
  assumes "kernel_inv k" "KERNEL_SCHEDULER k = Some s" "preempt_enabled s"
  shows "\<exists>rsp k' s'. rust_timer_handler p k = Some (rsp, k') \<and> KERNEL_SCHEDULER k' = Some s' \<and> kernel_inv k' \<and>
    (rsp, s') = preempt_schedule p (s\<lparr>timer_tick_count := TICK_COUNT (timer_state k) + 1\<rparr>) \<and>
    rsp = (case current s' of Some r \<Rightarrow> saved_rsp (store s' r) | None \<Rightarrow> p) \<and>
    TICK_COUNT (timer_state k') = TICK_COUNT (timer_state k) + 1 \<and>
    accesses k' = accesses k @ eoi_events 0 (apic_state k) \<and> kbd_state k' = kbd_state k \<and> console k' = console k"
proof -
  let ?s = "s\<lparr>timer_tick_count := TICK_COUNT (timer_state k) + 1\<rparr>"
  obtain k1 where k1: "kernel_timer_tick k = Some k1" "kernel_inv k1" "TICK_COUNT (timer_state k1) = TICK_COUNT (timer_state k) + 1"
    "KERNEL_SCHEDULER k1 = Some ?s" "kbd_state k1 = kbd_state k" "console k1 = console k" "accesses k1 = accesses k" "apic_state k1 = apic_state k"
    using kernel_timer_tick_inv[OF assms(1)] assms(2) by auto
  obtain rsp s' where p: "preempt_schedule p ?s = (rsp, s')" by fastforce
  define k' where "k' = (kernel_eoi 0 k1)\<lparr>KERNEL_SCHEDULER := Some s'\<rparr>"
  have h: "rust_timer_handler p k = Some (rsp, k')"
    using k1(1,4) p assms(3) by (simp add: rust_timer_handler_def k'_def is_preemption_enabled_def kernel_eoi_def Let_def)
  moreover have "kernel_inv k'" using irq_step.timer[OF h] assms(1) irq_step_inv by blast
  moreover have "rsp = (case current s' of Some r \<Rightarrow> saved_rsp (store s' r) | None \<Rightarrow> p)" by (rule preempt_schedule_rsp(1)[OF _ p]) (simp add: assms(3))
  moreover have "TICK_COUNT (timer_state k') = TICK_COUNT (timer_state k) + 1" "accesses k' = accesses k @ eoi_events 0 (apic_state k)"
    "kbd_state k' = kbd_state k" "console k' = console k" "KERNEL_SCHEDULER k' = Some s'"
    using k1 by (simp_all add: k'_def kernel_eoi_def send_eoi_events)
  ultimately show ?thesis using p by (intro exI[of _ rsp] exI[of _ k'] exI[of _ s']) simp
qed

theorem timer_interrupt_preempts_witness:
  "\<exists>rsp k'. rust_timer_handler 0xA0FF00 demo_kernel = Some (rsp, k') \<and> TICK_COUNT (timer_state k') = 1 \<and> accesses k' = [Out8 0x20 0x20]"
proof -
  have d: "KERNEL_SCHEDULER demo_kernel = Some demo_scheduler" "accesses demo_kernel = []" "TICK_COUNT (timer_state demo_kernel) = 0"
    "eoi_events 0 (apic_state demo_kernel) = [Out8 0x20 0x20]"
    by (simp_all add: demo_kernel_def timer_statics_init_def apic_statics_init_def eoi_events_def)
  from timer_interrupt_preempts[OF demo_kernel_inv(1) d(1) demo_kernel_inv(2), of "0xA0FF00"] show ?thesis unfolding d by auto
qed

text \<open>
  C19. Key presses never arrive. Through the interrupt table that the kernel installs, the keyboard interrupt (vector 33) reaches the handler as a timer interrupt: whatever
  the keyboard sends, the handler leaves the keyboard buffer as it was, does not read the scancode, and counts a timer tick.
\<close>
theorem keyboard_interrupt_is_timer:
  assumes "length (IDT c) = 256" "length (isr_stub_table l) = 49" "distinct (isr_stub_table l)"
    and "read_gate (IDT (idt_init l c) ! 33) = Interrupt_gate a dpl" "delivered_vector l a = Some v"
    and "ic_vector ctx = word_of_nat v" "kernel_inv k" "rust_isr_handler hw m msg ctx k = Some (ctx', k', sw)"
  shows "kbd_state k' = kbd_state k \<and> TICK_COUNT (timer_state k') = TICK_COUNT (timer_state k) + 1 \<and>
    (\<exists>es. accesses k' = accesses k @ es \<and> (\<forall>v. In8 0x60 v \<notin> set es))"
proof -
  have "a = isr_stub_table l ! 32" using idt_init_gate(1)[OF assms(1), of 33 l] assms(4) by simp
  then have "v = 32" using delivered_vector_stub[OF assms(2,3), of 32] assms(5) by (simp add: stub_vectors_def nth_append)
  then have "isr_timer k = Some (k', sw)"
    using assms(6,8) by (auto simp: rust_isr_handler_def isr_dispatch_def Let_def)
  moreover obtain k1 where "kernel_timer_tick k = Some k1" "accesses k1 = accesses k" using kernel_timer_tick_inv[OF assms(7)] by blast
  ultimately show ?thesis using isr_timer_inv[OF assms(7), of k' sw]
    by (auto simp: isr_timer_def kernel_eoi_def send_eoi_events eoi_events_def split: option.splits prod.splits if_splits)
qed

theorem keyboard_interrupt_is_timer_witness:
  "\<exists>a k' sw. read_gate (IDT (idt_init demo_linkage demo_tables) ! 33) = Interrupt_gate a 0 \<and> delivered_vector demo_linkage a = Some 32 \<and>
     rust_isr_handler ready_hardware (\<lambda>_. 0) [] (undefined\<lparr>ic_vector := 32\<rparr>) demo_kernel = Some (undefined\<lparr>ic_vector := 32\<rparr>, k', sw) \<and>
     kbd_state k' = keyboard_statics"
proof -
  let ?ctx = "undefined\<lparr>ic_vector := 32\<rparr>"
  have t: "length (IDT demo_tables) = 256" "length (isr_stub_table demo_linkage) = 49" "distinct (isr_stub_table demo_linkage)"
    using demo_linkage_ok by simp_all
  have g: "read_gate (IDT (idt_init demo_linkage demo_tables) ! 33) = Interrupt_gate (isr_stub_table demo_linkage ! 32) 0"
    using idt_init_gate(1)[OF t(1), of 33 demo_linkage] by simp
  have v: "delivered_vector demo_linkage (isr_stub_table demo_linkage ! 32) = Some 32"
    using delivered_vector_stub[OF t(2,3), of 32] by (simp add: stub_vectors_def nth_append)
  obtain k' sw where "isr_timer demo_kernel = Some (k', sw)"
    using isr_timer_returns[OF demo_kernel_inv(1)] by blast
  then have h: "rust_isr_handler ready_hardware (\<lambda>_. 0) [] ?ctx demo_kernel = Some (?ctx, k', sw)"
    by (simp add: rust_isr_handler_def isr_dispatch_def)
  have "ic_vector ?ctx = word_of_nat 32" "kbd_state demo_kernel = keyboard_statics" by (simp_all add: demo_kernel_def)
  then show ?thesis using keyboard_interrupt_is_timer[OF t g v _ demo_kernel_inv(1) h] g v h by auto
qed

end
