(* ===== verification/Format.thy ===== *)
theory Format
  imports Prelude
begin

text \<open>
  Text: what the kernel uses of \<open>core::fmt\<close> and of \<open>str\<close> to print and to read numbers and words, and the number parsers of
  \<open>src/src/lib.rs\<close>. Strings are ASCII.
\<close>

section \<open>Printing numbers\<close>

fun digits :: "nat \<Rightarrow> nat \<Rightarrow> nat list" where
  "digits b n = (if b < 2 \<or> n < b then [n] else digits b (n div b) @ [n mod b])"

declare digits.simps [simp del]

definition digit_char :: "nat \<Rightarrow> char" where
  "digit_char d = (if d < 10 then char_of (48 + d) else char_of (55 + d))"

text \<open>\<open>{}\<close>, \<open>{:X}\<close> and \<open>{:#X}\<close>\<close>

definition show_nat :: "nat \<Rightarrow> string" where
  "show_nat n = map digit_char (digits 10 n)"

definition show_hex_digits :: "nat \<Rightarrow> string" where
  "show_hex_digits n = map digit_char (digits 16 n)"

definition show_hex :: "nat \<Rightarrow> string" where
  "show_hex n = ''0x'' @ show_hex_digits n"

definition show_int :: "int \<Rightarrow> string" where
  "show_int i = (if i < 0 then ''-'' @ show_nat (nat (- i)) else show_nat (nat i))"

text \<open>Width and fill: \<open>{:>w}\<close>, \<open>{:<w}\<close> and \<open>{:0w}\<close>\<close>

definition align_right :: "char \<Rightarrow> nat \<Rightarrow> string \<Rightarrow> string" where
  "align_right fill w s = replicate (w - length s) fill @ s"

definition align_left :: "nat \<Rightarrow> string \<Rightarrow> string" where
  "align_left w s = s @ replicate (w - length s) (CHR '' '')"

fun show_kernel_error :: "KernelError \<Rightarrow> string" where
  "show_kernel_error OutOfMemory = ''OutOfMemory''"
| "show_kernel_error InvalidAddress = ''InvalidAddress''"
| "show_kernel_error PageNotMapped = ''PageNotMapped''"
| "show_kernel_error PageAlreadyMapped = ''PageAlreadyMapped''"
| "show_kernel_error InvalidArgument = ''InvalidArgument''"
| "show_kernel_error DeviceNotFound = ''DeviceNotFound''"
| "show_kernel_error FileSystemNotFound = ''FileSystemNotFound''"
| "show_kernel_error FileNotFound = ''FileNotFound''"
| "show_kernel_error IoError = ''IoError''"
| "show_kernel_error ModuleNotFound = ''ModuleNotFound''"
| "show_kernel_error AccessDenied = ''AccessDenied''"
| "show_kernel_error GeneralFault = ''GeneralFault''"

definition ascii :: "string \<Rightarrow> u8 list" where
  "ascii s = map (\<lambda>c. word_of_nat (of_char c)) s"

definition string_of_bytes :: "u8 list \<Rightarrow> string" where
  "string_of_bytes bs = map (\<lambda>b. char_of (unat b)) bs"

section \<open>Reading numbers\<close>

definition strip_prefix_or :: "string \<Rightarrow> string \<Rightarrow> string" where
  "strip_prefix_or p s = (if take (length p) s = p then drop (length p) s else s)"

definition starts_with :: "string \<Rightarrow> string \<Rightarrow> bool" where
  "starts_with p s \<longleftrightarrow> take (length p) s = p"

definition dec_digit :: "char \<Rightarrow> nat option" where
  "dec_digit ch = (let c = of_char ch in if 48 \<le> c \<and> c \<le> 57 then Some (c - 48) else None)"

definition hex_digit :: "char \<Rightarrow> nat option" where
  "hex_digit ch =
     (let c = of_char ch in
      if 48 \<le> c \<and> c \<le> 57 then Some (c - 48)
      else if 97 \<le> c \<and> c \<le> 102 then Some (c - 97 + 10)
      else if 65 \<le> c \<and> c \<le> 70 then Some (c - 65 + 10)
      else None)"

fun parse_loop :: "usize \<Rightarrow> (char \<Rightarrow> nat option) \<Rightarrow> usize \<Rightarrow> string \<Rightarrow> usize" where
  "parse_loop base digit result [] = result"
| "parse_loop base digit result (ch # s) =
     (let result1 = usize_mul result base in
      case digit ch of
        Some d \<Rightarrow> parse_loop base digit (usize_add result1 d) s
      | None \<Rightarrow> 0)"

definition parse_hex :: "string \<Rightarrow> usize" where
  "parse_hex s = parse_loop 16 hex_digit 0 (strip_prefix_or ''0X'' (strip_prefix_or ''0x'' s))"

definition parse_int :: "string \<Rightarrow> usize" where
  "parse_int s = (if starts_with ''0x'' s \<or> starts_with ''0X'' s then parse_hex s else parse_loop 10 dec_digit 0 s)"

section \<open>Words\<close>

definition is_whitespace :: "char \<Rightarrow> bool" where
  "is_whitespace c \<longleftrightarrow> of_char c \<in> {9, 10, 11, 12, 13, 32 :: nat}"

definition trim :: "string \<Rightarrow> string" where
  "trim s = rev (dropWhile is_whitespace (rev (dropWhile is_whitespace s)))"

fun split_space :: "string \<Rightarrow> string list" where
  "split_space [] = [[]]"
| "split_space (c # cs) =
     (if c = CHR '' '' then [] # split_space cs
      else case split_space cs of [] \<Rightarrow> [[c]] | p # ps \<Rightarrow> (c # p) # ps)"

definition split_words :: "string \<Rightarrow> string list" where
  "split_words s = filter (\<lambda>p. p \<noteq> []) (split_space s)"

section \<open>Laws\<close>

lemma digits_bound: "2 \<le> b \<Longrightarrow> d \<in> set (digits b n) \<Longrightarrow> d < b"
  by (induction b n rule: digits.induct) (subst (asm) (2) digits.simps, auto split: if_splits)

lemma digits_value: "2 \<le> b \<Longrightarrow> foldl (\<lambda>a d. a * b + d) 0 (digits b n) = n"
  by (induction b n rule: digits.induct) (subst digits.simps, auto)

lemma digit_char_digit:
  "d < 10 \<Longrightarrow> dec_digit (digit_char d) = Some d" "d < 16 \<Longrightarrow> hex_digit (digit_char d) = Some d"
  by (auto simp: dec_digit_def hex_digit_def digit_char_def Let_def)

text \<open>The parsing loop computes the positional value modulo the word size.\<close>

lemma parse_loop_value:
  assumes "\<forall>c \<in> set s. digit c \<noteq> None" "r < USIZE"
  shows "parse_loop b digit r s = foldl (\<lambda>a c. a * b + the (digit c)) r s mod USIZE"
proof -
  have "parse_loop b digit (r mod USIZE) s = foldl (\<lambda>a c. a * b + the (digit c)) r s mod USIZE" for r
    using assms(1)
  proof (induction s arbitrary: r)
    case (Cons c s)
    then obtain d where d: "digit c = Some d" by auto
    have "usize_add (usize_mul (r mod USIZE) b) d = (r * b + d) mod USIZE"
      by (simp add: usize_add_def usize_mul_def mod_simps)
    then show ?case using Cons d by (simp add: Let_def)
  qed simp
  from this[of r] show ?thesis using assms(2) by simp
qed

lemma parse_loop_invalid: "\<exists>c \<in> set s. digit c = None \<Longrightarrow> parse_loop b digit r s = 0"
  by (induction s arbitrary: r) (auto simp: Let_def split: option.splits)

lemma parse_loop_digits:
  assumes "2 \<le> b" "n < USIZE" "\<And>d. d < b \<Longrightarrow> digit (digit_char d) = Some d"
  shows "parse_loop b digit 0 (map digit_char (digits b n)) = n"
proof -
  have "\<forall>c \<in> set (map digit_char (digits b n)). digit c \<noteq> None" using assms(3) digits_bound[OF assms(1)] by fastforce
  then have "parse_loop b digit 0 (map digit_char (digits b n)) =
      foldl (\<lambda>a c. a * b + the (digit c)) 0 (map digit_char (digits b n)) mod USIZE" by (intro parse_loop_value) simp_all
  also have "foldl (\<lambda>a c. a * b + the (digit c)) 0 (map digit_char (digits b n)) = foldl (\<lambda>a d. a * b + d) 0 (digits b n)"
    using assms(3) digits_bound[OF assms(1)] unfolding foldl_map by (intro foldl_cong) auto
  finally show ?thesis using digits_value[OF assms(1)] assms(2) by simp
qed

lemma no_prefix: "\<forall>c \<in> set s. hex_digit c \<noteq> None \<Longrightarrow> starts_with ''0x'' s = False \<and> starts_with ''0X'' s = False"
proof -
  assume h: "\<forall>c \<in> set s. hex_digit c \<noteq> None"
  have "hex_digit (CHR ''x'') = None" "hex_digit (CHR ''X'') = None" by (simp_all add: hex_digit_def)
  then have "CHR ''x'' \<notin> set s" "CHR ''X'' \<notin> set s" using h by metis+
  then show ?thesis by (cases s; cases "tl s") (auto simp: starts_with_def)
qed

lemma show_hex_digits_valid: "\<forall>c \<in> set (show_hex_digits n). hex_digit c \<noteq> None"
  using digits_bound[of 16 _ n] digit_char_digit(2) by (fastforce simp: show_hex_digits_def)

lemma show_nat_valid: "\<forall>c \<in> set (show_nat n). hex_digit c \<noteq> None"
  using digits_bound[of 10 _ n] digit_char_digit(2) by (fastforce simp: show_nat_def)

text \<open>
  C38. What the kernel prints, it can read. Every 64-bit number in the decimal or in the hexadecimal notation of the kernel's messages is read back by
  \<open>parse_int\<close>, and in hexadecimal, with or without the prefix, by \<open>parse_hex\<close>.
\<close>
theorem number_roundtrip:
  assumes "n < USIZE"
  shows "parse_int (show_nat n) = n \<and> parse_int (show_hex n) = n \<and> parse_hex (show_hex n) = n \<and> parse_hex (show_hex_digits n) = n"
proof -
  have hex: "parse_loop 16 hex_digit 0 (show_hex_digits n) = n"
    unfolding show_hex_digits_def using assms digit_char_digit(2) by (intro parse_loop_digits) simp_all
  have dec: "parse_loop 10 dec_digit 0 (show_nat n) = n"
    unfolding show_nat_def using assms digit_char_digit(1) by (intro parse_loop_digits) simp_all
  have strip: "strip_prefix_or ''0x'' (show_hex_digits n) = show_hex_digits n" "strip_prefix_or ''0X'' (show_hex_digits n) = show_hex_digits n"
    using no_prefix[OF show_hex_digits_valid, of n] by (simp_all add: strip_prefix_or_def starts_with_def)
  have "strip_prefix_or ''0x'' (show_hex n) = show_hex_digits n" "starts_with ''0x'' (show_hex n)"
    by (simp_all add: strip_prefix_or_def starts_with_def show_hex_def)
  then show ?thesis
    using hex dec strip no_prefix[OF show_nat_valid, of n] by (simp add: parse_int_def parse_hex_def)
qed

theorem number_roundtrip_witness: "parse_int (show_nat 65535) = 65535 \<and> parse_hex (show_hex 0xA00000) = 0xA00000"
  using number_roundtrip[of 65535] number_roundtrip[of "0xA00000"] by simp

end
