(* ===== verification/Pmm.thy ===== *)
theory Pmm
  imports Prelude
begin

text \<open>
  The physical memory manager (\<open>src/src/memory/pmm.rs\<close>): a bitmap with one bit per 4 KiB page.

  The bitmap is a \<open>&'static mut [u8]\<close> over the physical memory at \<open>PMM_BITMAP_BASE\<close>, the same
  memory whose pages the manager hands out and clears. The model keeps this aliasing: the
  record \<open>Pmm\<close> holds the pointer and the length of the slice, and every operation also takes
  and returns the byte memory in which the bitmap lives. Clearing a page could overwrite the
  bitmap; that it does not is a consequence of the invariant.
\<close>

section \<open>State\<close>

record Pmm =
  bitmap_ptr :: usize
  bitmap_len :: usize
  total_pages :: usize
  free_page_count :: usize
  base_addr :: PhysAddr
  end_addr :: PhysAddr

definition MAX_PHYS_MEMORY :: usize where "MAX_PHYS_MEMORY = 64 * 1024 * 1024 * 1024"
definition MAX_PAGES :: usize where "MAX_PAGES = MAX_PHYS_MEMORY div PAGE_SIZE"
definition BITMAP_SIZE :: usize where "BITMAP_SIZE = MAX_PAGES div 8"
definition BITMAP_BASE :: usize where "BITMAP_BASE = PMM_BITMAP_BASE"

section \<open>Bits\<close>

definition get_bit :: "Pmm \<Rightarrow> pmem \<Rightarrow> usize \<Rightarrow> bool" where
  "get_bit p m index =
     (let byte = index div 8; bt = index mod 8 in
      if byte \<ge> bitmap_len p then True
      else (drop_bit bt (m (bitmap_ptr p + byte))) AND 1 = 1)"

definition set_bit :: "Pmm \<Rightarrow> pmem \<Rightarrow> usize \<Rightarrow> pmem" where
  "set_bit p m index =
     (let byte = index div 8; bt = index mod 8 in
      if byte < bitmap_len p
      then m(bitmap_ptr p + byte := m (bitmap_ptr p + byte) OR push_bit bt 1)
      else m)"

definition clear_bit :: "Pmm \<Rightarrow> pmem \<Rightarrow> usize \<Rightarrow> pmem" where
  "clear_bit p m index =
     (let byte = index div 8; bt = index mod 8 in
      if byte < bitmap_len p
      then m(bitmap_ptr p + byte := m (bitmap_ptr p + byte) AND NOT (push_bit bt 1))
      else m)"

section \<open>Operations\<close>

definition new_reserve_step :: "usize \<Rightarrow> Pmm \<times> pmem \<Rightarrow> Pmm \<times> pmem" where
  "new_reserve_step i = (\<lambda>(p, m).
     if i < total_pages p
     then (p\<lparr>free_page_count := saturating_sub (free_page_count p) 1\<rparr>, set_bit p m i)
     else (p, m))"

definition pmm_new :: "PhysAddr \<Rightarrow> usize \<Rightarrow> pmem \<Rightarrow> Pmm \<times> pmem" where
  "pmm_new base memory_size m =
     (let total = memory_size div PAGE_SIZE;
          m1 = write_bytes m BITMAP_BASE 0 BITMAP_SIZE;
          p = \<lparr>bitmap_ptr = BITMAP_BASE, bitmap_len = BITMAP_SIZE, total_pages = total,
               free_page_count = total, base_addr = base,
               end_addr = usize_add base memory_size\<rparr>;
          bitmap_start_page = usize_sub BITMAP_BASE base div PAGE_SIZE;
          bitmap_pages = (BITMAP_SIZE + PAGE_SIZE - 1) div PAGE_SIZE
      in fold new_reserve_step [bitmap_start_page..<bitmap_start_page + bitmap_pages] (p, m1))"

fun alloc_page_loop :: "usize list \<Rightarrow> Pmm \<times> pmem \<Rightarrow> PhysAddr KernelResult \<times> Pmm \<times> pmem" where
  "alloc_page_loop [] (p, m) = (Err OutOfMemory, p, m)"
| "alloc_page_loop (i # is) (p, m) =
     (if \<not> get_bit p m i
      then let m1 = set_bit p m i;
               p1 = p\<lparr>free_page_count := usize_sub (free_page_count p) 1\<rparr>;
               addr = usize_add (base_addr p) (usize_mul i PAGE_SIZE)
           in (Ok addr, p1, write_bytes m1 addr 0 PAGE_SIZE)
      else alloc_page_loop is (p, m))"

definition alloc_page :: "Pmm \<times> pmem \<Rightarrow> PhysAddr KernelResult \<times> Pmm \<times> pmem" where
  "alloc_page = (\<lambda>(p, m).
     if free_page_count p = 0 then (Err OutOfMemory, p, m)
     else alloc_page_loop [0..<total_pages p] (p, m))"

fun alloc_pages_loop ::
  "usize \<Rightarrow> usize list \<Rightarrow> usize option \<Rightarrow> usize \<Rightarrow> Pmm \<times> pmem \<Rightarrow>
     PhysAddr KernelResult \<times> Pmm \<times> pmem" where
  "alloc_pages_loop count [] found_start consecutive (p, m) = (Err OutOfMemory, p, m)"
| "alloc_pages_loop count (i # is) found_start consecutive (p, m) =
     (if \<not> get_bit p m i
      then let start = (case found_start of None \<Rightarrow> i | Some s \<Rightarrow> s);
               consecutive1 = usize_add consecutive 1
           in if consecutive1 = count
              then let m1 = fold (\<lambda>j m. set_bit p m j) [start..<start + count] m;
                       p1 = p\<lparr>free_page_count := usize_sub (free_page_count p) count\<rparr>;
                       addr = usize_add (base_addr p) (usize_mul start PAGE_SIZE)
                   in (Ok addr, p1, write_bytes m1 addr 0 (usize_mul count PAGE_SIZE))
              else alloc_pages_loop count is (Some start) consecutive1 (p, m)
      else alloc_pages_loop count is None 0 (p, m))"

definition alloc_pages :: "usize \<Rightarrow> Pmm \<times> pmem \<Rightarrow> PhysAddr KernelResult \<times> Pmm \<times> pmem" where
  "alloc_pages count = (\<lambda>(p, m).
     if free_page_count p < count then (Err OutOfMemory, p, m)
     else alloc_pages_loop count [0..<total_pages p] None 0 (p, m))"

definition free_page :: "PhysAddr \<Rightarrow> Pmm \<times> pmem \<Rightarrow> unit KernelResult \<times> Pmm \<times> pmem" where
  "free_page addr = (\<lambda>(p, m).
     if addr < base_addr p \<or> addr \<ge> end_addr p then (Err InvalidAddress, p, m)
     else if addr mod PAGE_SIZE \<noteq> 0 then (Err InvalidArgument, p, m)
     else let index = usize_sub addr (base_addr p) div PAGE_SIZE in
       if \<not> get_bit p m index then (Err PageNotMapped, p, m)
       else (Ok (), p\<lparr>free_page_count := usize_add (free_page_count p) 1\<rparr>, clear_bit p m index))"

fun free_pages_range_loop ::
  "PhysAddr \<Rightarrow> usize list \<Rightarrow> Pmm \<times> pmem \<Rightarrow> unit KernelResult \<times> Pmm \<times> pmem" where
  "free_pages_range_loop addr [] s = (Ok (), s)"
| "free_pages_range_loop addr (i # is) s =
     (case free_page (usize_add addr (usize_mul i PAGE_SIZE)) s of
        (Inl e, s') \<Rightarrow> (Err e, s')
      | (Inr _, s') \<Rightarrow> free_pages_range_loop addr is s')"

definition free_pages_range ::
  "PhysAddr \<Rightarrow> usize \<Rightarrow> Pmm \<times> pmem \<Rightarrow> unit KernelResult \<times> Pmm \<times> pmem" where
  "free_pages_range addr count s = free_pages_range_loop addr [0..<count] s"

definition used_pages :: "Pmm \<Rightarrow> usize" where
  "used_pages p = usize_sub (total_pages p) (free_page_count p)"

definition free_memory :: "Pmm \<Rightarrow> usize" where
  "free_memory p = usize_mul (free_page_count p) PAGE_SIZE"

definition used_memory :: "Pmm \<Rightarrow> usize" where
  "used_memory p = usize_mul (used_pages p) PAGE_SIZE"

definition reserve_step :: "usize \<Rightarrow> Pmm \<times> pmem \<Rightarrow> Pmm \<times> pmem" where
  "reserve_step i = (\<lambda>(p, m).
     if i < total_pages p \<and> \<not> get_bit p m i
     then (p\<lparr>free_page_count := saturating_sub (free_page_count p) 1\<rparr>, set_bit p m i)
     else (p, m))"

definition reserve_range :: "PhysAddr \<Rightarrow> usize \<Rightarrow> Pmm \<times> pmem \<Rightarrow> Pmm \<times> pmem" where
  "reserve_range start sz = (\<lambda>(p, m).
     if start < base_addr p then (p, m)
     else let start_page = usize_sub start (base_addr p) div PAGE_SIZE;
              range_end = usize_add start sz;
              end_page = (if range_end > end_addr p then total_pages p
                          else usize_sub (usize_add (usize_sub range_end (base_addr p)) PAGE_SIZE) 1
                               div PAGE_SIZE)
          in fold reserve_step [start_page..<end_page] (p, m))"


section \<open>Specification vocabulary\<close>

definition page_addr :: "Pmm \<Rightarrow> usize \<Rightarrow> usize" where
  "page_addr p i = base_addr p + i * PAGE_SIZE"

definition free_frames :: "Pmm \<Rightarrow> pmem \<Rightarrow> usize set" where
  "free_frames p m = {i. i < total_pages p \<and> \<not> get_bit p m i}"

definition page_overlaps :: "Pmm \<Rightarrow> usize \<Rightarrow> PhysAddr \<Rightarrow> PhysAddr \<Rightarrow> bool" where
  "page_overlaps p i a b \<longleftrightarrow> page_addr p i < b \<and> a < page_addr p i + PAGE_SIZE"

text \<open>A page holds part of the bitmap when the two address ranges overlap.\<close>

definition holds_bitmap :: "Pmm \<Rightarrow> usize \<Rightarrow> bool" where
  "holds_bitmap p i \<longleftrightarrow> page_overlaps p i (bitmap_ptr p) (bitmap_ptr p + bitmap_len p)"

definition pmm_geom :: "Pmm \<Rightarrow> bool" where
  "pmm_geom p \<longleftrightarrow>
     base_addr p mod PAGE_SIZE = 0 \<and>
     end_addr p = base_addr p + total_pages p * PAGE_SIZE \<and>
     end_addr p < USIZE \<and>
     total_pages p \<le> 8 * bitmap_len p"

definition pmm_inv :: "Pmm \<Rightarrow> pmem \<Rightarrow> bool" where
  "pmm_inv p m \<longleftrightarrow>
     pmm_geom p \<and>
     free_page_count p = card (free_frames p m) \<and>
     (\<forall>i < total_pages p. holds_bitmap p i \<longrightarrow> get_bit p m i)"

section \<open>The bitmap is a bit set\<close>

lemma get_bit_iff:
  "get_bit p m i \<longleftrightarrow>
     bitmap_len p \<le> i div 8 \<or> bit (m (bitmap_ptr p + i div 8)) (i mod 8)"
  by (simp add: get_bit_def Let_def and_one_eq bit_iff_odd_drop_bit odd_iff_mod_2_eq_one)

lemma same_bit_position:
  "(j::nat) div 8 = i div 8 \<Longrightarrow> j mod 8 = i mod 8 \<longleftrightarrow> j = i"
  by (metis div_mult_mod_eq)

lemma get_bit_set_bit:
  assumes "i div 8 < bitmap_len p"
  shows "get_bit p (set_bit p m i) j \<longleftrightarrow> j = i \<or> get_bit p m j"
proof (cases "j div 8 = i div 8")
  case True
  have "i mod 8 < 8" by simp
  then show ?thesis
    using assms True same_bit_position[OF True]
    by (auto simp: get_bit_iff set_bit_def Let_def bit_or_iff bit_byte_mask)
next
  case False
  then show ?thesis using assms by (auto simp: get_bit_iff set_bit_def Let_def)
qed

lemma get_bit_clear_bit:
  assumes "i div 8 < bitmap_len p"
  shows "get_bit p (clear_bit p m i) j \<longleftrightarrow> j \<noteq> i \<and> get_bit p m j"
proof (cases "j div 8 = i div 8")
  case True
  have "i mod 8 < 8" by simp
  then show ?thesis
    using assms True same_bit_position[OF True]
    by (auto simp: get_bit_iff clear_bit_def Let_def bit_and_iff bit_not_iff
        bit_byte_mask)
next
  case False
  then show ?thesis using assms by (auto simp: get_bit_iff clear_bit_def Let_def)
qed

interpretation pmm_bits:
  bitset "get_bit p" "set_bit p" "clear_bit p" "\<lambda>i. i div 8 < bitmap_len p" for p
  by unfold_locales (simp_all add: get_bit_set_bit get_bit_clear_bit)

lemma get_bit_cong [simp]:
  "get_bit (p\<lparr>free_page_count := c\<rparr>) m i = get_bit p m i"
  "set_bit (p\<lparr>free_page_count := c\<rparr>) m i = set_bit p m i"
  "clear_bit (p\<lparr>free_page_count := c\<rparr>) m i = clear_bit p m i"
  "free_frames (p\<lparr>free_page_count := c\<rparr>) m = free_frames p m"
  "page_addr (p\<lparr>free_page_count := c\<rparr>) i = page_addr p i"
  "holds_bitmap (p\<lparr>free_page_count := c\<rparr>) i = holds_bitmap p i"
  "pmm_geom (p\<lparr>free_page_count := c\<rparr>) = pmm_geom p"
  by (simp_all add: get_bit_def set_bit_def clear_bit_def free_frames_def page_addr_def
      holds_bitmap_def page_overlaps_def pmm_geom_def Let_def)

lemma finite_free_frames [simp]: "finite (free_frames p m)"
  by (simp add: free_frames_def)

lemma geom_in_range:
  "pmm_geom p \<Longrightarrow> i < total_pages p \<Longrightarrow> i div 8 < bitmap_len p"
  by (auto simp: pmm_geom_def)

lemma free_frames_set_bit:
  assumes "pmm_geom p" "i < total_pages p"
  shows "free_frames p (set_bit p m i) = free_frames p m - {i}"
  unfolding free_frames_def
  using pmm_bits.clear_bits_set1[OF geom_in_range[OF assms]] .

lemma free_frames_clear_bit:
  assumes "pmm_geom p" "i < total_pages p"
  shows "free_frames p (clear_bit p m i) = insert i (free_frames p m)"
  unfolding free_frames_def
  using pmm_bits.clear_bits_clear1[OF geom_in_range[OF assms] assms(2)] .

lemma page_addr_bound:
  assumes "pmm_geom p" "i < total_pages p"
  shows "page_addr p i + PAGE_SIZE \<le> end_addr p"
proof -
  have "(i + 1) * PAGE_SIZE \<le> total_pages p * PAGE_SIZE"
    using assms(2) by (intro mult_le_mono1) simp
  then show ?thesis using assms(1) by (simp add: pmm_geom_def page_addr_def)
qed

lemma page_addr_usize:
  assumes "pmm_geom p" "i < total_pages p"
  shows "usize_add (base_addr p) (usize_mul i PAGE_SIZE) = page_addr p i"
proof -
  have "page_addr p i < USIZE"
    using page_addr_bound[OF assms] assms(1) by (simp add: pmm_geom_def layout)
  then show ?thesis by (simp add: page_addr_def)
qed

section \<open>Clearing pages leaves the bitmap alone\<close>

lemma in_run_page:
  assumes "page_addr p s \<le> a" "a < page_addr p s + c * PAGE_SIZE"
  obtains k where "s \<le> k" "k < s + c" "page_addr p k \<le> a" "a < page_addr p k + PAGE_SIZE"
proof
  let ?x = "a - page_addr p s"
  let ?d = "?x div PAGE_SIZE"
  have "?x = ?d * PAGE_SIZE + ?x mod PAGE_SIZE" by (simp only: div_mult_mod_eq)
  then have a: "a = page_addr p s + ?d * PAGE_SIZE + ?x mod PAGE_SIZE" using assms(1) by linarith
  have r: "?x mod PAGE_SIZE < PAGE_SIZE" by (simp add: layout)
  have "?d < c" using assms by (simp add: less_mult_imp_div_less)
  then show "s \<le> s + ?d" "s + ?d < s + c" by simp_all
  have "page_addr p (s + ?d) = page_addr p s + ?d * PAGE_SIZE"
    by (simp add: page_addr_def add_mult_distrib)
  then show "page_addr p (s + ?d) \<le> a" "a < page_addr p (s + ?d) + PAGE_SIZE"
    using a r by linarith+
qed

lemma get_bit_write_bytes:
  assumes "\<forall>k \<in> {s..<s + c}. \<not> holds_bitmap p k"
  shows "get_bit p (write_bytes m (page_addr p s) v (c * PAGE_SIZE)) j = get_bit p m j"
proof (cases "j div 8 < bitmap_len p")
  case True
  let ?a = "bitmap_ptr p + j div 8"
  have "\<not> (page_addr p s \<le> ?a \<and> ?a < page_addr p s + c * PAGE_SIZE)"
  proof
    assume a: "page_addr p s \<le> ?a \<and> ?a < page_addr p s + c * PAGE_SIZE"
    then obtain k where k: "s \<le> k" "k < s + c" "page_addr p k \<le> ?a" "?a < page_addr p k + PAGE_SIZE"
      using in_run_page by blast
    then have "holds_bitmap p k" using True by (simp add: holds_bitmap_def page_overlaps_def)
    then show False using assms k by simp
  qed
  then show ?thesis using True by (auto simp: get_bit_iff write_bytes_def)
next
  case False
  then show ?thesis by (simp add: get_bit_iff)
qed

lemma free_frames_write_bytes:
  assumes "\<forall>k \<in> {s..<s + c}. \<not> holds_bitmap p k"
  shows "free_frames p (write_bytes m (page_addr p s) v (c * PAGE_SIZE)) = free_frames p m"
  using get_bit_write_bytes[OF assms] by (simp add: free_frames_def)

lemma get_bit_from_free_frames:
  "i < total_pages p \<Longrightarrow> get_bit p m i \<longleftrightarrow> i \<notin> free_frames p m"
  by (simp add: free_frames_def)

text \<open>The invariant only depends on the set of free frames.\<close>

lemma pmm_inv_alt:
  "pmm_inv p m \<longleftrightarrow> pmm_geom p \<and> free_page_count p = card (free_frames p m)
     \<and> (\<forall>i \<in> free_frames p m. \<not> holds_bitmap p i)"
  by (auto simp: pmm_inv_def free_frames_def)


section \<open>Single-page allocation\<close>

lemma alloc_page_loop_find:
  "alloc_page_loop is (p, m) =
     (case find (\<lambda>i. \<not> get_bit p m i) is of
        None \<Rightarrow> (Err OutOfMemory, p, m)
      | Some i \<Rightarrow>
          (let addr = usize_add (base_addr p) (usize_mul i PAGE_SIZE)
           in (Ok addr, p\<lparr>free_page_count := usize_sub (free_page_count p) 1\<rparr>,
               write_bytes (set_bit p m i) addr 0 PAGE_SIZE)))"
  by (induction "is") (simp_all add: Let_def)

lemma find_upt_None:
  "find (\<lambda>i. \<not> get_bit p m i) [0..<total_pages p] = None \<longleftrightarrow> free_frames p m = {}"
  by (auto simp: find_None_iff free_frames_def)

lemma find_upt_Some:
  assumes "find (\<lambda>i. \<not> get_bit p m i) [0..<total_pages p] = Some i"
  shows "free_frames p m \<noteq> {}" "i = Min (free_frames p m)"
proof -
  have i: "i < total_pages p" "\<not> get_bit p m i" "\<forall>j < i. get_bit p m j"
    using assms by (auto simp: find_Some_iff)
  then have "i \<in> free_frames p m" by (simp add: free_frames_def)
  then show "free_frames p m \<noteq> {}" by blast
  show "i = Min (free_frames p m)"
    using i by (intro Min_eqI[symmetric]) (auto simp: free_frames_def not_less[symmetric])
qed

text \<open>The abstract allocator: take the least free frame.\<close>

definition spec_alloc :: "usize set \<Rightarrow> usize option \<times> usize set" where
  "spec_alloc F = (if F = {} then (None, F) else (Some (Min F), F - {Min F}))"

lemma card_free_less_USIZE:
  assumes "pmm_geom p"
  shows "card (free_frames p m) < USIZE"
proof -
  have "card (free_frames p m) \<le> card {..<total_pages p}"
    by (intro card_mono) (auto simp: free_frames_def)
  moreover have "total_pages p \<le> end_addr p" using assms by (simp add: pmm_geom_def layout)
  ultimately show ?thesis using assms by (simp add: pmm_geom_def)
qed

lemma alloc_page_empty:
  "pmm_inv p m \<Longrightarrow> free_frames p m = {} \<Longrightarrow> alloc_page (p, m) = (Err OutOfMemory, p, m)"
  by (simp add: alloc_page_def pmm_inv_def)

lemma alloc_page_nonempty:
  assumes "pmm_inv p m" "free_frames p m \<noteq> {}"
  defines "i \<equiv> Min (free_frames p m)"
  shows "alloc_page (p, m) =
    (Ok (page_addr p i), p\<lparr>free_page_count := free_page_count p - 1\<rparr>,
     write_bytes (set_bit p m i) (page_addr p i) 0 PAGE_SIZE)"
proof -
  have fpc: "free_page_count p = card (free_frames p m)" and geom: "pmm_geom p"
    using assms(1) by (simp_all add: pmm_inv_def)
  then have pos: "0 < free_page_count p" using assms(2) by (simp add: card_gt_0_iff)
  have lt: "free_page_count p < USIZE" using card_free_less_USIZE[OF geom] fpc by simp
  obtain j where j: "find (\<lambda>i. \<not> get_bit p m i) [0..<total_pages p] = Some j"
    using find_upt_None assms(2) by blast
  have ji: "j = i" using find_upt_Some(2)[OF j] by (simp add: i_def)
  have "i \<in> free_frames p m" unfolding i_def using assms(2) by (intro Min_in) simp_all
  then have "i < total_pages p" by (simp add: free_frames_def)
  then show ?thesis
    using pos lt j ji page_addr_usize[OF geom]
    by (simp add: alloc_page_def alloc_page_loop_find Let_def)
qed

lemma alloc_page_keeps_inv:
  assumes "pmm_inv p m" "free_frames p m \<noteq> {}"
  defines "i \<equiv> Min (free_frames p m)"
  defines "p' \<equiv> p\<lparr>free_page_count := free_page_count p - 1\<rparr>"
  defines "m' \<equiv> write_bytes (set_bit p m i) (page_addr p i) 0 PAGE_SIZE"
  shows "free_frames p' m' = free_frames p m - {i}" "pmm_inv p' m'"
proof -
  have i: "i \<in> free_frames p m" unfolding i_def using assms(2) by (intro Min_in) simp_all
  have geom: "pmm_geom p" using assms(1) by (simp add: pmm_inv_def)
  have nb: "\<forall>k \<in> {i..<i + 1}. \<not> holds_bitmap p k"
    using assms(1) i by (auto simp: pmm_inv_alt)
  have "free_frames p m' = free_frames p (set_bit p m i)"
    using free_frames_write_bytes[OF nb] by (simp add: m'_def)
  also have "\<dots> = free_frames p m - {i}"
    using i free_frames_set_bit[OF geom] by (simp add: free_frames_def)
  finally show ff: "free_frames p' m' = free_frames p m - {i}" by (simp add: p'_def)
  show "pmm_inv p' m'"
    using assms(1) i ff by (auto simp: pmm_inv_alt p'_def)
qed

section \<open>Contiguous allocation\<close>

definition run_at :: "usize set \<Rightarrow> usize \<Rightarrow> usize \<Rightarrow> bool" where
  "run_at F s count \<longleftrightarrow> {s..<s + count} \<subseteq> F"

lemma run_atD: "run_at F s count \<Longrightarrow> s \<le> k \<Longrightarrow> k < s + count \<Longrightarrow> k \<in> F"
  by (auto simp: run_at_def)

definition pages_taken :: "usize \<Rightarrow> usize \<Rightarrow> Pmm \<times> pmem \<Rightarrow> PhysAddr KernelResult \<times> Pmm \<times> pmem" where
  "pages_taken count start = (\<lambda>(p, m).
     let addr = usize_add (base_addr p) (usize_mul start PAGE_SIZE) in
     (Ok addr, p\<lparr>free_page_count := usize_sub (free_page_count p) count\<rparr>,
      write_bytes (fold (\<lambda>j m. set_bit p m j) [start..<start + count] m)
        addr 0 (usize_mul count PAGE_SIZE)))"

text \<open>
  The scan after \<open>i\<close> pages: \<open>c\<close> pages directly before \<open>i\<close> are free, and no run of the wanted
  length starts before them.
\<close>

lemma alloc_pages_loop_spec:
  assumes "i \<le> n" "n < USIZE" "c \<le> i" "c < count"
    and "{i - c..<i} \<subseteq> F"
    and "\<forall>s < i - c. \<not> run_at F s count"
    and F: "F = {i. i < n \<and> \<not> get_bit p m i}"
    and found: "found = (if c = 0 then None else Some (i - c))"
  shows "(\<exists>s. run_at F s count \<and> (\<forall>t < s. \<not> run_at F t count) \<and>
             alloc_pages_loop count [i..<n] found c (p, m) = pages_taken count s (p, m))
       \<or> ((\<forall>s. \<not> run_at F s count) \<and>
             alloc_pages_loop count [i..<n] found c (p, m) = (Err OutOfMemory, p, m))"
  using assms(1,3,4,5,6,8)
proof (induction "n - i" arbitrary: i c found)
  case 0
  then have i: "i = n" by simp
  have "\<not> run_at F s count" for s
  proof
    assume r: "run_at F s count"
    then have "s + count - 1 \<in> F" using run_atD[OF r, of "s + count - 1"] 0(4) by simp
    then have "s + count \<le> n" using F 0(4) by auto
    then have "s < i - c" using i 0(4) by linarith
    then show False using 0(6) r by blast
  qed
  then show ?case using i by simp
next
  case (Suc d)
  then have lt: "i < n" by simp
  then have upt: "[i..<n] = i # [Suc i..<n]" by (simp add: upt_conv_Cons)
  show ?case
  proof (cases "get_bit p m i")
    case True
    have no: "\<forall>s < Suc i - 0. \<not> run_at F s count"
    proof (intro allI impI notI)
      fix s assume s: "s < Suc i - 0" and r: "run_at F s count"
      have "i \<notin> F" using True F by simp
      then have "s + count \<le> i" using run_atD[OF r, of i] s by force
      then have "s < i - c" using Suc.prems(3) by linarith
      then show False using Suc.prems(5) r by blast
    qed
    show ?thesis
      using Suc.hyps(1)[of "Suc i" 0 None] Suc.hyps(2) Suc.prems lt no True upt by simp
  next
    case False
    have iF: "i \<in> F" using False lt F by simp
    have start: "(case found of None \<Rightarrow> i | Some s \<Rightarrow> s) = i - c"
      using Suc.prems(6) by simp
    have c1: "usize_add c 1 = Suc c" using Suc.prems(2) lt assms(2) by simp
    have run: "{Suc i - Suc c..<Suc i} \<subseteq> F" using Suc.prems(4) iF by (auto simp: less_Suc_eq)
    show ?thesis
    proof (cases "Suc c = count")
      case True
      have "run_at F (i - c) count"
        using run True Suc.prems(2) by (auto simp: run_at_def)
      moreover have "alloc_pages_loop count [i..<n] found c (p, m) = pages_taken count (i - c) (p, m)"
        using False upt start c1 True by (simp add: pages_taken_def Let_def)
      ultimately show ?thesis using Suc.prems(5) by blast
    next
      case ne: False
      have "alloc_pages_loop count [i..<n] found c (p, m) =
          alloc_pages_loop count [Suc i..<n] (Some (i - c)) (Suc c) (p, m)"
        using False upt start c1 ne by (simp add: Let_def)
      then show ?thesis
        using Suc.hyps(1)[of "Suc i" "Suc c" "Some (i - c)"] Suc.hyps(2) Suc.prems lt run ne
        by simp
    qed
  qed
qed


lemma alloc_pages_zero_loop:
  "n \<le> USIZE \<Longrightarrow> c + length is < USIZE \<Longrightarrow>
     alloc_pages_loop 0 is found c (p, m) = (Err OutOfMemory, p, m)"
  by (induction "is" arbitrary: found c) (simp_all add: Let_def)

lemma alloc_pages_cases:
  assumes "pmm_inv p m" "0 < count"
  obtains (run) s where "run_at (free_frames p m) s count" "\<forall>t < s. \<not> run_at (free_frames p m) t count"
      "alloc_pages count (p, m) = pages_taken count s (p, m)"
    | (none) "\<forall>s. \<not> run_at (free_frames p m) s count"
      "alloc_pages count (p, m) = (Err OutOfMemory, p, m)"
proof -
  have geom: "pmm_geom p" and fpc: "free_page_count p = card (free_frames p m)"
    using assms(1) by (simp_all add: pmm_inv_def)
  have lt: "total_pages p < USIZE" using geom by (simp add: pmm_geom_def layout)
  show ?thesis
  proof (cases "free_page_count p < count")
    case True
    have "\<not> run_at (free_frames p m) s count" for s
    proof
      assume "run_at (free_frames p m) s count"
      then have "card {s..<s + count} \<le> card (free_frames p m)"
        unfolding run_at_def by (intro card_mono) simp_all
      then show False using True fpc by simp
    qed
    then show ?thesis using True none by (simp add: alloc_pages_def)
  next
    case False
    then have "alloc_pages count (p, m) = alloc_pages_loop count [0..<total_pages p] None 0 (p, m)"
      by (simp add: alloc_pages_def)
    then show ?thesis
      using alloc_pages_loop_spec[of 0 "total_pages p" 0 count "free_frames p m" p m None]
        lt assms(2) run none
      by (auto simp: free_frames_def)
  qed
qed

lemma run_at_bound:
  assumes "run_at (free_frames p m) s count" "0 < count"
  shows "s + count \<le> total_pages p"
proof -
  have "s + count - 1 \<in> free_frames p m" using assms by (intro run_atD[OF assms(1)]) simp_all
  then show ?thesis using assms(2) by (auto simp: free_frames_def)
qed

lemma pages_taken_eq:
  assumes "pmm_inv p m" "run_at (free_frames p m) s count" "0 < count"
  shows "pages_taken count s (p, m) =
    (Ok (page_addr p s), p\<lparr>free_page_count := free_page_count p - count\<rparr>,
     write_bytes (fold (\<lambda>j m. set_bit p m j) [s..<s + count] m) (page_addr p s) 0 (count * PAGE_SIZE))"
proof -
  have geom: "pmm_geom p" and fpc: "free_page_count p = card (free_frames p m)"
    using assms(1) by (simp_all add: pmm_inv_def)
  have bound: "s + count \<le> total_pages p" using run_at_bound[OF assms(2,3)] .
  have "count * PAGE_SIZE \<le> total_pages p * PAGE_SIZE"
    using bound by (intro mult_le_mono1) simp
  then have "count * PAGE_SIZE < USIZE" using geom unfolding pmm_geom_def by linarith
  moreover have "card {s..<s + count} \<le> card (free_frames p m)"
    using assms(2) unfolding run_at_def by (intro card_mono) simp_all
  moreover have "s < total_pages p" using bound assms(3) by simp
  ultimately show ?thesis
    using page_addr_usize[OF geom] fpc card_free_less_USIZE[OF geom, of m]
    by (simp add: pages_taken_def Let_def)
qed

lemma pages_taken_keeps_inv:
  assumes "pmm_inv p m" "run_at (free_frames p m) s count" "0 < count"
  defines "p' \<equiv> p\<lparr>free_page_count := free_page_count p - count\<rparr>"
  defines "m' \<equiv> write_bytes (fold (\<lambda>j m. set_bit p m j) [s..<s + count] m)
                  (page_addr p s) 0 (count * PAGE_SIZE)"
  shows "free_frames p' m' = free_frames p m - {s..<s + count}" "pmm_inv p' m'"
proof -
  have geom: "pmm_geom p" using assms(1) by (simp add: pmm_inv_def)
  have sub: "{s..<s + count} \<subseteq> free_frames p m" using assms(2) by (simp add: run_at_def)
  have nb: "\<forall>k \<in> {s..<s + count}. \<not> holds_bitmap p k"
    using assms(1) sub by (auto simp: pmm_inv_alt)
  have rng: "\<forall>i \<in> set [s..<s + count]. i div 8 < bitmap_len p"
    using sub geom_in_range[OF geom] by (auto simp: free_frames_def)
  have "free_frames p m' = free_frames p (fold (\<lambda>j m. set_bit p m j) [s..<s + count] m)"
    using free_frames_write_bytes[OF nb] by (simp add: m'_def)
  also have "\<dots> = free_frames p m - {s..<s + count}"
    using pmm_bits.get_fold_set1[OF rng] by (auto simp: free_frames_def)
  finally show ff: "free_frames p' m' = free_frames p m - {s..<s + count}" by (simp add: p'_def)
  have "card (free_frames p m - {s..<s + count}) = card (free_frames p m) - count"
    using card_Diff_subset[of "{s..<s + count}" "free_frames p m"] sub by simp
  then show "pmm_inv p' m'" using assms(1) ff by (auto simp: pmm_inv_alt p'_def)
qed

section \<open>Freeing\<close>

definition page_index :: "Pmm \<Rightarrow> PhysAddr \<Rightarrow> usize" where
  "page_index p addr = (addr - base_addr p) div PAGE_SIZE"

lemma page_index_page_addr [simp]: "page_index p (page_addr p i) = i"
  by (simp add: page_index_def page_addr_def layout)

lemma page_addr_page_index:
  assumes "pmm_geom p" "base_addr p \<le> addr" "addr mod PAGE_SIZE = 0"
  shows "page_addr p (page_index p addr) = addr"
proof -
  have "(addr - base_addr p) mod PAGE_SIZE = 0"
    using assms by (auto simp: pmm_geom_def mod_eq_0_iff_dvd intro: dvd_diff_nat)
  then show ?thesis using assms(2) by (auto simp: page_addr_def page_index_def)
qed

lemma page_index_bound:
  assumes "pmm_geom p" "base_addr p \<le> addr" "addr < end_addr p"
  shows "page_index p addr < total_pages p"
  using assms by (auto simp: pmm_geom_def page_index_def intro!: less_mult_imp_div_less)

lemma free_page_ok:
  assumes "pmm_inv p m" "base_addr p \<le> addr" "addr < end_addr p" "addr mod PAGE_SIZE = 0"
    "page_index p addr \<notin> free_frames p m"
  shows "free_page addr (p, m) =
    (Ok (), p\<lparr>free_page_count := free_page_count p + 1\<rparr>, clear_bit p m (page_index p addr))"
proof -
  have geom: "pmm_geom p" and fpc: "free_page_count p = card (free_frames p m)"
    using assms(1) by (simp_all add: pmm_inv_def)
  have idx: "page_index p addr < total_pages p" using page_index_bound[OF geom assms(2,3)] .
  have "addr < USIZE" using assms(3) geom by (simp add: pmm_geom_def)
  then have sub: "usize_sub addr (base_addr p) div PAGE_SIZE = page_index p addr"
    using assms(2) by (simp add: page_index_def)
  have "card (insert (page_index p addr) (free_frames p m)) < USIZE"
    using card_free_less_USIZE[OF geom, of "clear_bit p m (page_index p addr)"]
      free_frames_clear_bit[OF geom idx] by simp
  then have "free_page_count p + 1 < USIZE" using assms(5) fpc by simp
  then show ?thesis
    using assms(2-5) sub idx by (simp add: free_page_def Let_def free_frames_def)
qed

lemma free_page_keeps_inv:
  assumes "pmm_inv p m" "base_addr p \<le> addr" "addr < end_addr p"
    "page_index p addr \<notin> free_frames p m" "\<not> holds_bitmap p (page_index p addr)"
  defines "p' \<equiv> p\<lparr>free_page_count := free_page_count p + 1\<rparr>"
  shows "free_frames p' (clear_bit p m (page_index p addr)) = insert (page_index p addr) (free_frames p m)"
    "pmm_inv p' (clear_bit p m (page_index p addr))"
proof -
  have geom: "pmm_geom p" using assms(1) by (simp add: pmm_inv_def)
  show ff: "free_frames p' (clear_bit p m (page_index p addr)) = insert (page_index p addr) (free_frames p m)"
    using free_frames_clear_bit[OF geom page_index_bound[OF geom assms(2,3)]] by (simp add: p'_def)
  then show "pmm_inv p' (clear_bit p m (page_index p addr))"
    using assms(1,4,5) by (auto simp: pmm_inv_alt p'_def)
qed

section \<open>Reservation\<close>

definition same_frame :: "Pmm \<Rightarrow> Pmm \<Rightarrow> bool" where
  "same_frame p p' \<longleftrightarrow> p' = p\<lparr>free_page_count := free_page_count p'\<rparr>"

lemma reserve_step_spec:
  assumes "pmm_geom p" "free_page_count p = card (free_frames p m)" "reserve_step i (p, m) = (p', m')"
  shows "same_frame p p'" "free_frames p' m' = free_frames p m - {i}"
    "free_page_count p' = card (free_frames p' m')"
proof -
  show sf: "same_frame p p'"
    using assms(3) by (auto simp: reserve_step_def same_frame_def split: if_splits)
  show ff: "free_frames p' m' = free_frames p m - {i}"
  proof (cases "i \<in> free_frames p m")
    case True
    then have i: "i < total_pages p" "\<not> get_bit p m i" by (simp_all add: free_frames_def)
    then have "free_frames p' m' = free_frames p (set_bit p m i)"
      using assms(3) by (auto simp: reserve_step_def)
    then show ?thesis using free_frames_set_bit[OF assms(1) i(1)] by simp
  next
    case False
    then have "p' = p \<and> m' = m" using assms(3) by (auto simp: reserve_step_def free_frames_def)
    then show ?thesis using False by simp
  qed
  show "free_page_count p' = card (free_frames p' m')"
    unfolding ff using assms(2,3)
    by (cases "i \<in> free_frames p m") (auto simp: reserve_step_def free_frames_def)
qed

lemma same_frame_simps:
  assumes "same_frame p p'"
  shows "pmm_geom p' = pmm_geom p" "holds_bitmap p' = holds_bitmap p" "total_pages p' = total_pages p"
    "base_addr p' = base_addr p" "end_addr p' = end_addr p" "page_addr p' = page_addr p"
proof -
  have e: "p' = p\<lparr>free_page_count := free_page_count p'\<rparr>" using assms by (simp add: same_frame_def)
  show "pmm_geom p' = pmm_geom p" by (subst e) simp
  show "holds_bitmap p' = holds_bitmap p" by (subst e) (simp add: fun_eq_iff)
  show "total_pages p' = total_pages p" by (subst e) simp
  show "base_addr p' = base_addr p" by (subst e) simp
  show "end_addr p' = end_addr p" by (subst e) simp
  show "page_addr p' = page_addr p" by (subst e) (simp add: fun_eq_iff)
qed

lemma same_frame_trans: "same_frame p q \<Longrightarrow> same_frame q r \<Longrightarrow> same_frame p r"
  unfolding same_frame_def by (metis Pmm.surjective Pmm.update_convs(4))

lemma fold_reserve_spec:
  assumes "pmm_geom p" "free_page_count p = card (free_frames p m)" "fold reserve_step is (p, m) = (p', m')"
  shows "same_frame p p' \<and> free_frames p' m' = free_frames p m - set is \<and>
    free_page_count p' = card (free_frames p' m')"
  using assms
proof (induction "is" arbitrary: p m)
  case Nil
  then show ?case by (simp add: same_frame_def)
next
  case (Cons i "is")
  obtain q n where q: "reserve_step i (p, m) = (q, n)" by (cases "reserve_step i (p, m)")
  note step = reserve_step_spec[OF Cons.prems(1,2) q]
  have "same_frame q p' \<and> free_frames p' m' = free_frames q n - set is \<and>
      free_page_count p' = card (free_frames p' m')"
    using Cons.IH[of q n] Cons.prems q step same_frame_simps(1)[OF step(1)] by simp
  then show ?case using step same_frame_trans by auto
qed


lemma usize_round_up:
  assumes "x + 4095 < USIZE"
  shows "usize_sub (usize_add x PAGE_SIZE) 1 = x + 4095"
proof (cases "x + 4096 < USIZE")
  case True
  then show ?thesis by (simp add: layout)
next
  case False
  then have x: "x = USIZE - 4096" using assms by linarith
  show ?thesis unfolding x by (simp add: layout usize_add_def usize_sub_def)
qed

lemma page_end_usize:
  fixes e :: nat
  assumes "e mod 4096 = 0" "e < USIZE"
  shows "e + 4095 < USIZE"
proof -
  have e: "e = 4096 * (e div 4096)" using assms(1) by auto
  then have "e div 4096 < 4503599627370496" using assms(2) by linarith
  then show ?thesis using e by linarith
qed

lemma less_ceil_div:
  fixes i x :: nat
  shows "i < (x + 4095) div 4096 \<longleftrightarrow> i * 4096 < x"
  by linarith

lemma div_le_iff:
  fixes i x :: nat
  shows "x div 4096 \<le> i \<longleftrightarrow> x < i * 4096 + 4096"
  by linarith

lemma reserved_pages:
  assumes "pmm_geom p" "base_addr p \<le> start" "i < total_pages p"
    and "range_end = start + sz" "range_end < USIZE"
    and "end_page = (if range_end > end_addr p then total_pages p
          else usize_sub (usize_add (usize_sub range_end (base_addr p)) PAGE_SIZE) 1 div PAGE_SIZE)"
  shows "i \<in> {usize_sub start (base_addr p) div PAGE_SIZE..<end_page} \<longleftrightarrow>
    page_overlaps p i start (start + sz)"
proof -
  have "start < USIZE" using assms(4,5) by simp
  then have lo: "usize_sub start (base_addr p) div PAGE_SIZE \<le> i \<longleftrightarrow> start < page_addr p i + PAGE_SIZE"
    using assms(2) by (auto simp: layout div_le_iff page_addr_def)
  have "i < end_page \<longleftrightarrow> page_addr p i < range_end"
  proof (cases "range_end > end_addr p")
    case True
    then show ?thesis using assms(3,6) page_addr_bound[OF assms(1,3)] by simp
  next
    case False
    have "end_addr p mod 4096 = 0" using assms(1) by (auto simp: pmm_geom_def layout)
    moreover have "end_addr p < USIZE" using assms(1) by (simp add: pmm_geom_def)
    ultimately have "end_addr p + 4095 < USIZE" by (rule page_end_usize)
    then have bnd: "(range_end - base_addr p) + 4095 < USIZE" using False by linarith
    have "end_page = ((range_end - base_addr p) + 4095) div 4096"
      using assms(2,4,5,6) False usize_round_up[OF bnd] by (simp add: layout)
    then show ?thesis using assms(2,4) by (auto simp: less_ceil_div page_addr_def layout)
  qed
  then show ?thesis using lo assms(4) by (auto simp: page_overlaps_def)
qed

lemma reserve_range_spec:
  assumes "pmm_inv p m" "base_addr p \<le> start" "start + sz < USIZE"
    and "reserve_range start sz (p, m) = (p', m')"
  shows "same_frame p p'" "pmm_inv p' m'"
    "free_frames p' m' = free_frames p m - {i. page_overlaps p i start (start + sz)}"
proof -
  have geom: "pmm_geom p" and fpc: "free_page_count p = card (free_frames p m)"
    using assms(1) by (simp_all add: pmm_inv_def)
  let ?e = "usize_add start sz"
  define end_page where "end_page = (if ?e > end_addr p then total_pages p
      else usize_sub (usize_add (usize_sub ?e (base_addr p)) PAGE_SIZE) 1 div PAGE_SIZE)"
  have "fold reserve_step [usize_sub start (base_addr p) div PAGE_SIZE..<end_page] (p, m) = (p', m')"
    using assms(2,4) by (simp add: reserve_range_def Let_def end_page_def)
  from fold_reserve_spec[OF geom fpc this]
  have sf: "same_frame p p'"
    and ff: "free_frames p' m' = free_frames p m - {usize_sub start (base_addr p) div PAGE_SIZE..<end_page}"
    and cnt: "free_page_count p' = card (free_frames p' m')"
    by auto
  have "i \<in> {usize_sub start (base_addr p) div PAGE_SIZE..<end_page} \<longleftrightarrow>
      page_overlaps p i start (start + sz)" if "i \<in> free_frames p m" for i
    using that reserved_pages[OF geom assms(2) _ _ _ end_page_def, of i sz] assms(3)
    by (simp add: free_frames_def)
  then show ff': "free_frames p' m' = free_frames p m - {i. page_overlaps p i start (start + sz)}"
    using ff by auto
  show "same_frame p p'" by (rule sf)
  show "pmm_inv p' m'"
    using assms(1) cnt ff' same_frame_simps[OF sf] by (auto simp: pmm_inv_alt)
qed

section \<open>Construction\<close>

lemma fold_new_reserve:
  assumes "pmm_geom p" "distinct is" "\<forall>i \<in> set is. i < total_pages p \<longrightarrow> \<not> get_bit p m i"
  shows "fold new_reserve_step is (p, m) = fold reserve_step is (p, m)"
  using assms
proof (induction "is" arbitrary: p m)
  case Nil
  then show ?case by simp
next
  case (Cons i "is")
  have eq: "new_reserve_step i (p, m) = reserve_step i (p, m)"
    using Cons.prems(3) by (simp add: new_reserve_step_def reserve_step_def)
  obtain q n where q: "reserve_step i (p, m) = (q, n)" by (cases "reserve_step i (p, m)")
  have "fold new_reserve_step is (q, n) = fold reserve_step is (q, n)"
  proof (rule Cons.IH)
    show "pmm_geom q" "distinct is"
      using q Cons.prems(1,2) by (auto simp: reserve_step_def split: if_splits)
    show "\<forall>j \<in> set is. j < total_pages q \<longrightarrow> \<not> get_bit q n j"
      using q Cons.prems geom_in_range[OF Cons.prems(1)]
      by (auto simp: reserve_step_def get_bit_set_bit split: if_splits)
  qed
  then show ?case using eq q by simp
qed

lemma BITMAP_consts: "BITMAP_SIZE = 2097152" "BITMAP_BASE = 5242880" "MAX_PHYS_MEMORY = 68719476736"
  by (simp_all add: BITMAP_SIZE_def MAX_PAGES_def MAX_PHYS_MEMORY_def BITMAP_BASE_def layout)

definition fresh_pmm :: "PhysAddr \<Rightarrow> usize \<Rightarrow> Pmm" where
  "fresh_pmm base memory_size =
     \<lparr>bitmap_ptr = BITMAP_BASE, bitmap_len = BITMAP_SIZE,
      total_pages = memory_size div PAGE_SIZE, free_page_count = memory_size div PAGE_SIZE,
      base_addr = base, end_addr = base + memory_size\<rparr>"

lemma fresh_bits:
  "get_bit (fresh_pmm base memory_size) (write_bytes m BITMAP_BASE 0 BITMAP_SIZE) i
     \<longleftrightarrow> BITMAP_SIZE \<le> i div 8"
  by (cases "i div 8 < BITMAP_SIZE") (auto simp: get_bit_iff fresh_pmm_def)


lemma bitmap_page_range:
  assumes "base mod PAGE_SIZE = 0" "base \<le> BITMAP_BASE"
  shows "holds_bitmap (fresh_pmm base memory_size) i \<longleftrightarrow>
    i \<in> {(BITMAP_BASE - base) div PAGE_SIZE..<(BITMAP_BASE - base) div PAGE_SIZE + 512}"
proof -
  have "4096 dvd (BITMAP_BASE - base)"
    using assms by (auto simp: BITMAP_consts layout mod_eq_0_iff_dvd intro!: dvd_diff_nat)
  then obtain k where k: "BITMAP_BASE - base = 4096 * k" by blast
  then have "BITMAP_BASE = base + 4096 * k" using assms(2) by linarith
  then show ?thesis
    using k by (auto simp: holds_bitmap_def page_overlaps_def page_addr_def fresh_pmm_def layout
        BITMAP_consts(1))
qed

lemma pmm_new_spec:
  assumes "base mod PAGE_SIZE = 0" "base \<le> BITMAP_BASE"
    and "memory_size mod PAGE_SIZE = 0" "memory_size \<le> MAX_PHYS_MEMORY"
    and "pmm_new base memory_size m = (p, m')"
  shows "same_frame (fresh_pmm base memory_size) p" "pmm_inv p m'"
    "free_frames p m' = {i. i < memory_size div PAGE_SIZE \<and> \<not> holds_bitmap p i}"
proof -
  let ?q = "fresh_pmm base memory_size"
  let ?m1 = "write_bytes m BITMAP_BASE 0 BITMAP_SIZE"
  let ?start = "(BITMAP_BASE - base) div PAGE_SIZE"
  have lt: "base + memory_size < USIZE" using assms(2,4) by (simp add: BITMAP_consts)
  have geom: "pmm_geom ?q"
    using assms(1,3,4) lt by (auto simp: pmm_geom_def fresh_pmm_def BITMAP_consts layout)
  have all: "free_frames ?q ?m1 = {..<total_pages ?q}"
    using geom_in_range[OF geom] fresh_bits[of base memory_size m]
    by (auto simp: free_frames_def fresh_pmm_def not_le)
  have "usize_sub BITMAP_BASE base = BITMAP_BASE - base"
    using assms(2) by (simp add: BITMAP_consts)
  then have "pmm_new base memory_size m = fold new_reserve_step [?start..<?start + 512] (?q, ?m1)"
    using lt by (simp add: pmm_new_def Let_def fresh_pmm_def BITMAP_consts(1) layout)
  also have "\<dots> = fold reserve_step [?start..<?start + 512] (?q, ?m1)"
    using all by (intro fold_new_reserve[OF geom]) (auto simp: free_frames_def)
  finally have "fold reserve_step [?start..<?start + 512] (?q, ?m1) = (p, m')" using assms(5) by simp
  from fold_reserve_spec[OF geom _ this] all
  have sf: "same_frame ?q p" and ff: "free_frames p m' = {..<total_pages ?q} - {?start..<?start + 512}"
    and cnt: "free_page_count p = card (free_frames p m')"
    by (auto simp: fresh_pmm_def)
  show "same_frame ?q p" by (rule sf)
  show ff': "free_frames p m' = {i. i < memory_size div PAGE_SIZE \<and> \<not> holds_bitmap p i}"
    using ff bitmap_page_range[OF assms(1,2)] same_frame_simps(2)[OF sf] by (auto simp: fresh_pmm_def)
  show "pmm_inv p m'"
    using cnt ff' geom same_frame_simps(1)[OF sf] by (auto simp: pmm_inv_alt)
qed

section \<open>The bitmap allocator is a source of fresh frames\<close>

definition pool :: "Pmm \<times> pmem \<Rightarrow> PhysAddr set" where
  "pool = (\<lambda>(p, m). page_addr p ` free_frames p m)"

lemma inj_page_addr: "inj (page_addr p)"
  by (auto simp: inj_def page_addr_def layout)

lemma alloc_page_pool:
  assumes "pmm_inv p m" "alloc_page (p, m) = (Inr a, p', m')"
  shows "a \<in> pool (p, m)" "pool (p', m') = pool (p, m) - {a}" "pmm_inv p' m'"
proof -
  have ne: "free_frames p m \<noteq> {}" using assms alloc_page_empty by fastforce
  note inv = alloc_page_keeps_inv[OF assms(1) ne]
  have a: "a = page_addr p (Min (free_frames p m))"
    and p': "p' = p\<lparr>free_page_count := free_page_count p - 1\<rparr>"
    and m': "m' = write_bytes (set_bit p m (Min (free_frames p m)))
              (page_addr p (Min (free_frames p m))) 0 PAGE_SIZE"
    using assms(2) alloc_page_nonempty[OF assms(1) ne] by auto
  have "Min (free_frames p m) \<in> free_frames p m" using ne by simp
  then show "a \<in> pool (p, m)" unfolding a pool_def by blast
  show "pmm_inv p' m'" using inv(2) unfolding p' m' .
  have "free_frames p' m' = free_frames p m - {Min (free_frames p m)}"
    using inv(1) unfolding p' m' .
  moreover have "page_addr p' = page_addr p" unfolding p' by (simp add: fun_eq_iff)
  ultimately show "pool (p', m') = pool (p, m) - {a}"
    unfolding a pool_def using image_set_diff[OF inj_page_addr] by simp
qed

interpretation pmm_frames: frame_source alloc_page pool "\<lambda>(p, m). pmm_inv p m"
proof (unfold_locales; clarify)
  fix p m a p' m'
  assume "pmm_inv p m" "alloc_page (p, m) = (Ok a, p', m')"
  then show "a \<in> pool (p, m) \<and> pool (p', m') = pool (p, m) - {a} \<and> pmm_inv p' m'"
    using alloc_page_pool by blast
next
  fix p m e p' m'
  assume "pmm_inv p m" "alloc_page (p, m) = (Err e, p', m')"
  then show "pool (p, m) = {} \<and> (p', m') = (p, m)"
    using alloc_page_nonempty alloc_page_empty by (cases "free_frames p m = {}") (auto simp: pool_def)
next
  fix p m
  show "finite (pool (p, m))" by (simp add: pool_def)
qed


section \<open>Freeing a run of pages\<close>

lemma same_frame_upd [simp]: "same_frame p (p\<lparr>free_page_count := c\<rparr>)"
  by (simp add: same_frame_def)

lemma free_page_frame:
  assumes "pmm_inv p m" "k < total_pages p" "k \<notin> free_frames p m" "\<not> holds_bitmap p k"
  obtains p' m' where "free_page (page_addr p k) (p, m) = (Ok (), p', m')" "same_frame p p'"
    "pmm_inv p' m'" "free_frames p' m' = insert k (free_frames p m)"
proof -
  have geom: "pmm_geom p" using assms(1) by (simp add: pmm_inv_def)
  have a: "base_addr p \<le> page_addr p k" "page_addr p k < end_addr p" "page_addr p k mod PAGE_SIZE = 0"
    using page_addr_bound[OF geom assms(2)] geom by (auto simp: page_addr_def pmm_geom_def layout)
  show ?thesis
    using free_page_ok[OF assms(1) a] free_page_keeps_inv[OF assms(1) a(1,2)] assms(3,4)
    by (intro that[OF _ same_frame_upd]) simp_all
qed

lemma free_pages_range_loop_spec:
  assumes "pmm_inv p m" "s + count \<le> total_pages p" "j \<le> count"
    and "\<forall>k \<in> {s + j..<s + count}. k \<notin> free_frames p m \<and> \<not> holds_bitmap p k"
  shows "\<exists>p' m'. free_pages_range_loop (page_addr p s) [j..<count] (p, m) = (Ok (), p', m') \<and>
    same_frame p p' \<and> pmm_inv p' m' \<and> free_frames p' m' = free_frames p m \<union> {s + j..<s + count}"
  using assms
proof (induction "count - j" arbitrary: j p m)
  case 0
  then show ?case by (auto simp: same_frame_def)
next
  case (Suc d)
  then have lt: "j < count" by simp
  have geom: "pmm_geom p" using Suc.prems(1) by (simp add: pmm_inv_def)
  have k: "s + j < total_pages p" using lt Suc.prems(2) by simp
  have addr: "usize_add (page_addr p s) (usize_mul j PAGE_SIZE) = page_addr p (s + j)"
  proof -
    have "page_addr p (s + j) < USIZE"
      using page_addr_bound[OF geom k] geom by (simp add: pmm_geom_def layout)
    then show ?thesis by (simp add: page_addr_def add_mult_distrib layout)
  qed
  have "s + j \<notin> free_frames p m \<and> \<not> holds_bitmap p (s + j)" using Suc.prems(4) lt by simp
  then obtain q n where q: "free_page (page_addr p (s + j)) (p, m) = (Ok (), q, n)" "same_frame p q"
      "pmm_inv q n" "free_frames q n = insert (s + j) (free_frames p m)"
    using free_page_frame[OF Suc.prems(1) k] by blast
  note sf = same_frame_simps[OF q(2)]
  have "\<exists>p' m'. free_pages_range_loop (page_addr q s) [Suc j..<count] (q, n) = (Ok (), p', m') \<and>
    same_frame q p' \<and> pmm_inv p' m' \<and> free_frames p' m' = free_frames q n \<union> {s + Suc j..<s + count}"
    using Suc.hyps(2) Suc.prems(2,4) lt q sf by (intro Suc.hyps(1)) auto
  then obtain p' m' where IH: "free_pages_range_loop (page_addr q s) [Suc j..<count] (q, n) = (Ok (), p', m')"
    "same_frame q p'" "pmm_inv p' m'" "free_frames p' m' = free_frames q n \<union> {s + Suc j..<s + count}"
    by blast
  have "{s + j..<s + count} = insert (s + j) {s + Suc j..<s + count}" using lt by auto
  then have "free_frames p' m' = free_frames p m \<union> {s + j..<s + count}" using IH(4) q(4) by simp
  moreover have "free_pages_range_loop (page_addr p s) [j..<count] (p, m) = (Ok (), p', m')"
    using upt_conv_Cons[OF lt] addr q(1) IH(1) sf(6) by simp
  ultimately show ?case using IH(3) same_frame_trans[OF q(2) IH(2)] by blast
qed

section \<open>Properties\<close>

text \<open>A small manager for the witnesses: page 0 holds the bitmap, pages 1 to 3 are free.\<close>

definition demo_pmm :: Pmm where
  "demo_pmm = \<lparr>bitmap_ptr = 0, bitmap_len = 1, total_pages = 4, free_page_count = 3,
               base_addr = 0, end_addr = 16384\<rparr>"

definition demo_mem :: pmem where
  "demo_mem = (\<lambda>_. 0)(0 := 1)"

lemma demo_free_frames: "free_frames demo_pmm demo_mem = {1, 2, 3}"
proof -
  have "get_bit demo_pmm demo_mem 0" "\<not> get_bit demo_pmm demo_mem 1"
    "\<not> get_bit demo_pmm demo_mem 2" "\<not> get_bit demo_pmm demo_mem 3"
    by (simp_all add: get_bit_def demo_pmm_def demo_mem_def)
  moreover have "i < 4 \<longleftrightarrow> i = 0 \<or> i = 1 \<or> i = 2 \<or> i = 3" for i :: nat by linarith
  ultimately show ?thesis by (auto simp: free_frames_def demo_pmm_def)
qed

lemma demo_pmm_inv: "pmm_inv demo_pmm demo_mem"
  unfolding pmm_inv_alt demo_free_frames
  by (simp add: demo_pmm_def pmm_geom_def holds_bitmap_def page_overlaps_def page_addr_def layout)

lemma demo_page_addr: "page_addr demo_pmm i = i * 4096"
  by (simp add: page_addr_def demo_pmm_def layout)

text \<open>
  C2. \<open>alloc_page\<close> refines the abstract allocator that takes the least free frame: it fails with
  \<open>OutOfMemory\<close> exactly when no frame is free and then changes nothing; otherwise it returns the
  address of the least free frame, which is the only frame removed from the free set. The
  returned page reads as zero, every byte outside that page and outside the bitmap keeps its
  value, and the invariant (exact free count, bitmap pages reserved) is kept.
\<close>

theorem alloc_page_refines:
  assumes "pmm_inv p m" "alloc_page (p, m) = (r, p', m')"
  shows "pmm_inv p' m' \<and>
    (case r of
       Inl e \<Rightarrow> e = OutOfMemory \<and> spec_alloc (free_frames p m) = (None, free_frames p' m') \<and>
               p' = p \<and> m' = m
     | Inr a \<Rightarrow> \<exists>i. a = page_addr p i \<and>
               spec_alloc (free_frames p m) = (Some i, free_frames p' m') \<and>
               (\<forall>b. a \<le> b \<and> b < a + PAGE_SIZE \<longrightarrow> m' b = 0) \<and>
               (\<forall>b. (b < a \<or> a + PAGE_SIZE \<le> b) \<and>
                    (b < bitmap_ptr p \<or> bitmap_ptr p + bitmap_len p \<le> b) \<longrightarrow> m' b = m b))"
proof (cases "free_frames p m = {}")
  case True
  then show ?thesis using alloc_page_empty[OF assms(1)] assms by (auto simp: spec_alloc_def)
next
  case False
  note eq = alloc_page_nonempty[OF assms(1) False] and inv = alloc_page_keeps_inv[OF assms(1) False]
  have "\<exists>i. page_addr p (Min (free_frames p m)) = page_addr p i \<and>
      spec_alloc (free_frames p m) = (Some i, free_frames p' m')"
    using False eq inv(1) assms(2) by (auto simp: spec_alloc_def)
  then show ?thesis
    using eq inv(2) assms(2) False
    by (auto simp: set_bit_def Let_def write_bytes_def spec_alloc_def)
qed

theorem alloc_page_refines_witness:
  "\<exists>p' m'. alloc_page (demo_pmm, demo_mem) = (Ok 4096, p', m') \<and> pmm_inv p' m' \<and>
     free_frames p' m' = {2, 3} \<and> m' 4096 = 0"
proof -
  obtain r p' m' where r: "alloc_page (demo_pmm, demo_mem) = (r, p', m')"
    by (cases "alloc_page (demo_pmm, demo_mem)") auto
  note t = alloc_page_refines[OF demo_pmm_inv r]
  have "spec_alloc {1, 2, 3 :: nat} = (Some 1, {2, 3})" by (auto simp: spec_alloc_def)
  then show ?thesis
    using t[unfolded demo_free_frames] r by (cases r) (auto simp: demo_page_addr layout)
qed

text \<open>
  C23. \<open>alloc_pages\<close> is first fit. For a positive count it fails exactly when the free pages contain
  no run of that length, and then changes nothing; otherwise it returns the start of the lowest
  such run, takes exactly the pages of the run out of the free set, clears them, and keeps the
  invariant.
\<close>

theorem alloc_pages_first_fit:
  assumes "pmm_inv p m" "0 < count" "alloc_pages count (p, m) = (r, p', m')"
  shows "pmm_inv p' m' \<and>
    (case r of
       Inl e \<Rightarrow> e = OutOfMemory \<and> (\<forall>s. \<not> run_at (free_frames p m) s count) \<and> p' = p \<and> m' = m
     | Inr a \<Rightarrow> \<exists>s. a = page_addr p s \<and> run_at (free_frames p m) s count \<and>
               (\<forall>t < s. \<not> run_at (free_frames p m) t count) \<and>
               free_frames p' m' = free_frames p m - {s..<s + count} \<and>
               (\<forall>b. a \<le> b \<and> b < a + count * PAGE_SIZE \<longrightarrow> m' b = 0))"
  using assms(1,2)
proof (cases rule: alloc_pages_cases)
  case (run s)
  show ?thesis
    using run assms(3) pages_taken_eq[OF assms(1) run(1) assms(2)]
      pages_taken_keeps_inv[OF assms(1) run(1) assms(2)]
    by auto
next
  case none
  then show ?thesis using assms by auto
qed

theorem alloc_pages_first_fit_witness:
  "\<exists>p' m'. alloc_pages 2 (demo_pmm, demo_mem) = (Ok 4096, p', m') \<and> pmm_inv p' m' \<and>
     free_frames p' m' = {3}"
proof -
  obtain r p' m' where r: "alloc_pages 2 (demo_pmm, demo_mem) = (r, p', m')"
    by (cases "alloc_pages 2 (demo_pmm, demo_mem)") auto
  have run1: "run_at {1, 2, 3 :: nat} 1 2" by (auto simp: run_at_def)
  have run0: "\<not> run_at {1, 2, 3 :: nat} 0 2" by (auto simp: run_at_def)
  note t = alloc_pages_first_fit[OF demo_pmm_inv _ r, unfolded demo_free_frames]
  obtain a where a: "r = Inr a" using t run1 by (cases r) auto
  then obtain s where s: "a = page_addr demo_pmm s" "run_at {1, 2, 3} s 2"
      "\<forall>t < s. \<not> run_at {1, 2, 3} t 2" "free_frames p' m' = {1, 2, 3} - {s..<s + 2}"
    using t by auto
  have "s = 1" using s(2,3) run0 run1 by (metis less_one linorder_neqE_nat)
  then show ?thesis using r a s t by (auto simp: demo_page_addr)
qed


text \<open>
  Any number of successive calls of \<open>alloc_page\<close> returns pairwise distinct pages, all free at
  the start and none overlapping the bitmap; the calls succeed until the free pages are used up,
  so a request for \<open>n\<close> pages yields exactly the minimum of \<open>n\<close> and the free count.
\<close>

theorem alloc_page_many_distinct:
  assumes "pmm_inv p m" "alloc_many alloc_page n (p, m) = (as, p', m')"
  shows "distinct as \<and> length as = min n (free_page_count p) \<and> pmm_inv p' m' \<and>
    (\<forall>a \<in> set as. \<exists>i \<in> free_frames p m. a = page_addr p i \<and> \<not> holds_bitmap p i)"
proof -
  have "distinct as \<and> set as \<subseteq> pool (p, m) \<and> pmm_inv p' m' \<and> length as = min n (card (pool (p, m)))"
    using pmm_frames.alloc_many_spec[of "(p, m)" n as "(p', m')"] assms by auto
  moreover have "card (pool (p, m)) = free_page_count p"
    using assms(1) inj_page_addr
    by (auto simp: pool_def pmm_inv_def intro!: card_image inj_on_subset[OF inj_page_addr])
  ultimately show ?thesis using assms(1) by (fastforce simp: pool_def pmm_inv_alt)
qed

theorem alloc_page_many_distinct_witness:
  "\<exists>as p' m'. alloc_many alloc_page 9 (demo_pmm, demo_mem) = (as, p', m') \<and> length as = 3 \<and>
     distinct as"
proof -
  obtain as p' m' where r: "alloc_many alloc_page 9 (demo_pmm, demo_mem) = (as, p', m')"
    by (cases "alloc_many alloc_page 9 (demo_pmm, demo_mem)") auto
  have "free_page_count demo_pmm = 3" by (simp add: demo_pmm_def)
  then show ?thesis using alloc_page_many_distinct[OF demo_pmm_inv r] r by auto
qed

text \<open>
  Allocation and release of a run are inverse: after \<open>alloc_pages\<close> returned a run,
  \<open>free_pages_range\<close> on the same address and count succeeds, restores the set of free pages and
  the free count, keeps the invariant, and releasing the first page once more is refused with
  \<open>PageNotMapped\<close> without any change.
\<close>

theorem alloc_pages_free_roundtrip:
  assumes "pmm_inv p m" "0 < count" "alloc_pages count (p, m) = (Ok a, p1, m1)"
  shows "\<exists>p2 m2. free_pages_range a count (p1, m1) = (Ok (), p2, m2) \<and> pmm_inv p2 m2 \<and>
    free_frames p2 m2 = free_frames p m \<and> free_page_count p2 = free_page_count p \<and>
    free_page a (p2, m2) = (Err PageNotMapped, p2, m2)"
  using assms(1,2)
proof (cases rule: alloc_pages_cases)
  case (run s)
  note keeps = pages_taken_keeps_inv[OF assms(1) run(1) assms(2)]
  have eqs: "a = page_addr p s" "p1 = p\<lparr>free_page_count := free_page_count p - count\<rparr>"
    using run(3) assms(3) pages_taken_eq[OF assms(1) run(1) assms(2)] by simp_all
  have inv1: "pmm_inv p1 m1" and ff1: "free_frames p1 m1 = free_frames p m - {s..<s + count}"
    using run(3) assms(3) pages_taken_eq[OF assms(1) run(1) assms(2)] keeps by simp_all
  have sub: "{s..<s + count} \<subseteq> free_frames p m" using run(1) by (simp add: run_at_def)
  have pre: "\<forall>k \<in> {s + 0..<s + count}. k \<notin> free_frames p1 m1 \<and> \<not> holds_bitmap p1 k"
    using ff1 sub assms(1) eqs(2) by (auto simp: pmm_inv_alt)
  have bound: "s + count \<le> total_pages p1" using run_at_bound[OF run(1) assms(2)] eqs(2) by simp
  obtain p2 m2 where res: "free_pages_range_loop (page_addr p1 s) [0..<count] (p1, m1) = (Ok (), p2, m2)"
      "same_frame p1 p2" "pmm_inv p2 m2" "free_frames p2 m2 = free_frames p1 m1 \<union> {s..<s + count}"
    using free_pages_range_loop_spec[OF inv1 bound _ pre] by auto
  have ff2: "free_frames p2 m2 = free_frames p m" using res(4) ff1 sub by auto
  have pa: "page_addr p2 s = a" using same_frame_simps(6)[OF res(2)] eqs by simp
  have "s \<in> free_frames p2 m2" using ff2 sub assms(2) by auto
  then have s: "s < total_pages p2" "\<not> get_bit p2 m2 s" by (simp_all add: free_frames_def)
  have geom2: "pmm_geom p2" using res(3) by (simp add: pmm_inv_def)
  have "free_page (page_addr p2 s) (p2, m2) = (Err PageNotMapped, p2, m2)"
  proof -
    have "page_addr p2 s < end_addr p2" "end_addr p2 < USIZE" "page_addr p2 s mod PAGE_SIZE = 0"
      using page_addr_bound[OF geom2 s(1)] geom2 by (auto simp: page_addr_def pmm_geom_def layout)
    then show ?thesis
      using s(2) by (simp add: free_page_def Let_def page_addr_def layout)
  qed
  then show ?thesis
    using res eqs ff2 pa assms(1) by (auto simp: free_pages_range_def pmm_inv_def)
next
  case none
  then show ?thesis using assms(3) by simp
qed

theorem alloc_pages_free_roundtrip_witness:
  "\<exists>a p1 m1 p2 m2. alloc_pages 2 (demo_pmm, demo_mem) = (Ok a, p1, m1) \<and>
     free_pages_range a 2 (p1, m1) = (Ok (), p2, m2) \<and> free_frames p2 m2 = {1, 2, 3}"
proof -
  have run1: "run_at (free_frames demo_pmm demo_mem) 1 2"
    unfolding demo_free_frames by (auto simp: run_at_def)
  have "(0::nat) < 2" by simp
  with demo_pmm_inv obtain a p1 m1 where r: "alloc_pages 2 (demo_pmm, demo_mem) = (Ok a, p1, m1)"
    using run1 by (cases rule: alloc_pages_cases) (auto simp: pages_taken_def Let_def)
  then show ?thesis
    using alloc_pages_free_roundtrip[OF demo_pmm_inv _ r] by (auto simp: demo_free_frames)
qed


text \<open>
  \<open>free_page\<close> on every branch. An error changes nothing and names its cause: an address
  outside the managed range, an unaligned address, or a page that is already free. A success
  frees exactly the addressed page and counts it. It keeps the invariant if and only if the page
  holds no part of the bitmap: nothing in the code stops a caller from releasing the manager's
  own bitmap pages.
\<close>

theorem free_page_outcome:
  assumes "pmm_inv p m" "free_page addr (p, m) = (r, p', m')"
  shows "case r of
      Inl e \<Rightarrow> p' = p \<and> m' = m \<and>
        (e = InvalidAddress \<and> (addr < base_addr p \<or> end_addr p \<le> addr) \<or>
         e = InvalidArgument \<and> addr mod PAGE_SIZE \<noteq> 0 \<or>
         e = PageNotMapped \<and> page_index p addr \<in> free_frames p m)
    | Inr _ \<Rightarrow> page_addr p (page_index p addr) = addr \<and>
        page_index p addr \<notin> free_frames p m \<and>
        free_frames p' m' = insert (page_index p addr) (free_frames p m) \<and>
        free_page_count p' = free_page_count p + 1 \<and>
        (pmm_inv p' m' \<longleftrightarrow> \<not> holds_bitmap p (page_index p addr))"
proof -
  have geom: "pmm_geom p" using assms(1) by (simp add: pmm_inv_def)
  consider "addr < base_addr p \<or> end_addr p \<le> addr"
    | "base_addr p \<le> addr" "addr < end_addr p" "addr mod PAGE_SIZE \<noteq> 0"
    | "base_addr p \<le> addr" "addr < end_addr p" "addr mod PAGE_SIZE = 0"
    by linarith
  then show ?thesis
  proof cases
    case 1
    then show ?thesis using assms(2) by (auto simp: free_page_def)
  next
    case 2
    then show ?thesis using assms(2) by (auto simp: free_page_def)
  next
    case 3
    have idx: "page_index p addr < total_pages p" using page_index_bound[OF geom 3(1,2)] .
    show ?thesis
    proof (cases "page_index p addr \<in> free_frames p m")
      case True
      have "addr < USIZE" using 3(2) geom by (simp add: pmm_geom_def)
      then have "free_page addr (p, m) = (Err PageNotMapped, p, m)"
        using True 3 by (simp add: free_page_def Let_def page_index_def free_frames_def)
      then show ?thesis using assms(2) True by auto
    next
      case False
      let ?i = "page_index p addr"
      have res: "r = Inr ()" "p' = p\<lparr>free_page_count := free_page_count p + 1\<rparr>" "m' = clear_bit p m ?i"
        using free_page_ok[OF assms(1) 3 False] assms(2) by simp_all
      have ff: "free_frames p' m' = insert ?i (free_frames p m)"
        using free_frames_clear_bit[OF geom idx] res by simp
      have "\<not> pmm_inv p' m'" if "holds_bitmap p ?i"
        using that ff res(2) by (auto simp: pmm_inv_alt)
      moreover have "pmm_inv p' m'" if "\<not> holds_bitmap p ?i"
        using free_page_keeps_inv(2)[OF assms(1) 3(1,2) False that] res by simp
      ultimately show ?thesis
        using res ff False page_addr_page_index[OF geom 3(1,3)] by auto
    qed
  qed
qed

theorem free_page_outcome_witness:
  "\<exists>p' m'. free_page 0 (demo_pmm, demo_mem) = (Ok (), p', m') \<and> \<not> pmm_inv p' m' \<and>
     free_frames p' m' = {0, 1, 2, 3}"
proof -
  obtain r p' m' where r: "free_page 0 (demo_pmm, demo_mem) = (r, p', m')"
    by (cases "free_page 0 (demo_pmm, demo_mem)") auto
  have "r = Inr ()"
    using r by (auto simp: free_page_def demo_pmm_def demo_mem_def get_bit_def usize_sub_def)
  moreover have "page_index demo_pmm 0 = 0" "holds_bitmap demo_pmm 0"
    by (simp_all add: page_index_def holds_bitmap_def page_overlaps_def page_addr_def demo_pmm_def layout)
  ultimately show ?thesis
    using free_page_outcome[OF demo_pmm_inv r] r by (auto simp: demo_free_frames)
qed

text \<open>
  \<open>Pmm::new\<close> establishes the invariant for every page-aligned base at or below the bitmap and
  every page-multiple size up to 64 GiB: the free pages are exactly the managed pages that hold
  no part of the bitmap, and the free count is exact.
\<close>

theorem pmm_new_establishes:
  assumes "base mod PAGE_SIZE = 0" "base \<le> BITMAP_BASE"
    and "memory_size mod PAGE_SIZE = 0" "memory_size \<le> MAX_PHYS_MEMORY"
  shows "\<exists>p m'. pmm_new base memory_size m = (p, m') \<and> pmm_inv p m' \<and>
    base_addr p = base \<and> end_addr p = base + memory_size \<and>
    total_pages p = memory_size div PAGE_SIZE \<and>
    free_frames p m' = {i. i < total_pages p \<and>
      \<not> page_overlaps p i BITMAP_BASE (BITMAP_BASE + BITMAP_SIZE)}"
proof -
  obtain p m' where r: "pmm_new base memory_size m = (p, m')" by (cases "pmm_new base memory_size m")
  note spec = pmm_new_spec[OF assms r]
  have sf: "p = (fresh_pmm base memory_size)\<lparr>free_page_count := free_page_count p\<rparr>"
    using spec(1) by (simp add: same_frame_def)
  have "bitmap_ptr p = BITMAP_BASE" "bitmap_len p = BITMAP_SIZE"
    by (subst sf, simp add: fresh_pmm_def)+
  moreover have "base_addr p = base" "end_addr p = base + memory_size"
    "total_pages p = memory_size div PAGE_SIZE"
    using same_frame_simps[OF spec(1)] by (simp_all add: fresh_pmm_def)
  ultimately show ?thesis using r spec(2,3) by (auto simp: holds_bitmap_def)
qed

theorem pmm_new_establishes_witness:
  "\<exists>p m'. pmm_new KERNEL_BASE MAX_PHYS_MEMORY (\<lambda>_. 0) = (p, m') \<and> pmm_inv p m' \<and>
     total_pages p = 16777216"
  using pmm_new_establishes[of KERNEL_BASE MAX_PHYS_MEMORY "\<lambda>_. 0"]
  by (auto simp: layout BITMAP_consts)

end
