(* ===== verification/Shell.thy ===== *)
theory Shell
  imports Interrupts Format Pmm "HOL-Library.Monad_Syntax"
begin

text \<open>
  The kernel's shell (the commands, the command interpreter and the line editor of \<open>src/src/lib.rs\<close>), with its texts, on the
  state of the interrupt handlers extended by what only the shell uses. The environment holds what the source reads
  from the machine: the devices, the control registers, memory, and the addresses the linker chose. A command that waits
  for ever has no result. Interrupts during a command are not modelled: they are steps between commands.
\<close>

section \<open>State\<close>

record environment =
  env_hw :: hardware
  env_mem :: pmem
  env_cr0 :: u64
  env_cr2 :: u64
  env_cr3 :: u64
  env_cr4 :: u64
  kernel_end :: usize
  demo_task_addr :: u64
  counter_task_addr :: u64
  idle_test_task_addr :: u64

record shell_kernel = kernel +
  ks_pmm :: "Pmm option"
  ks_vmm_ready :: bool
  DEV_MODE :: bool

definition kprint :: "environment \<Rightarrow> string \<Rightarrow> shell_kernel \<Rightarrow> shell_kernel option" where
  "kprint env s k = kernel_print (env_hw env) (ascii s) k"

definition kprintln :: "environment \<Rightarrow> string \<Rightarrow> shell_kernel \<Rightarrow> shell_kernel option" where
  "kprintln env s k = kprint env (s @ [CHR 0x0A]) k"

fun kprintlns :: "environment \<Rightarrow> string list \<Rightarrow> shell_kernel \<Rightarrow> shell_kernel option" where
  "kprintlns env [] k = Some k"
| "kprintlns env (l # ls) k = do { k1 \<leftarrow> kprintln env l k; kprintlns env ls k1 }"

fun kprints :: "environment \<Rightarrow> string list \<Rightarrow> shell_kernel \<Rightarrow> shell_kernel option" where
  "kprints env [] k = Some k"
| "kprints env (l # ls) k = do { k1 \<leftarrow> kprint env l k; kprints env ls k1 }"

definition set_color :: "u8 \<Rightarrow> u8 \<Rightarrow> shell_kernel \<Rightarrow> shell_kernel" where
  "set_color fg bg k = k\<lparr>console := vga_set_color fg bg (console k)\<rparr>"

definition on_off :: "bool \<Rightarrow> string" where
  "on_off b = (if b then ''ON'' else ''OFF'')"

section \<open>Clock\<close>

definition read_cmos :: "hardware \<Rightarrow> u8 \<Rightarrow> io \<Rightarrow> u8 \<times> io" where
  "read_cmos hw reg io = inb hw 0x71 (outb 0x70 reg io)"

definition bcd_to_binary :: "u8 \<Rightarrow> u8" where
  "bcd_to_binary val = (val AND 0x0F) + (drop_bit 4 val * 10)"

fun read_rtc_regs :: "hardware \<Rightarrow> u8 list \<Rightarrow> io \<Rightarrow> u8 list \<times> io" where
  "read_rtc_regs hw [] io = ([], io)"
| "read_rtc_regs hw (r # rs) io =
     (let (v, io1) = read_cmos hw r io; (vs, io2) = read_rtc_regs hw rs io1 in (bcd_to_binary v # vs, io2))"

text \<open>Seconds, minutes, hours, day, month and year.\<close>

definition read_rtc :: "hardware \<Rightarrow> io \<Rightarrow> u8 list \<times> io" where
  "read_rtc hw = read_rtc_regs hw [0x00, 0x02, 0x04, 0x07, 0x08, 0x09]"

section \<open>Commands\<close>

definition info_pmm :: "shell_kernel \<Rightarrow> string list" where
  "info_pmm k =
     (case ks_pmm k of
        None \<Rightarrow> []
      | Some p \<Rightarrow>
          [''  PMM free:       '' @ show_nat (free_page_count p) @ '' pages ('' @ show_nat (free_memory p div 1024) @ '' KB)'',
           ''  PMM total:      '' @ show_nat (total_pages p) @ '' pages ('' @
             show_nat (usize_mul (total_pages p) 4096 div 1024 div 1024) @ '' MB)''])"

definition info_sched :: "shell_kernel \<Rightarrow> string list" where
  "info_sched k =
     (case KERNEL_SCHEDULER k of
        None \<Rightarrow> []
      | Some s \<Rightarrow>
          let stats = scheduler_stats s in
          [''  Preemption:     '' @ on_off (st_preemption_enabled stats),
           ''  Tasks:          '' @ show_nat (unat (st_total_tasks stats)) @ '' total, '' @ show_nat (st_ready_tasks stats) @ '' ready'',
           ''  Context sw:     '' @ show_nat (unat (st_context_switches stats))])"

definition cmd_info :: "environment \<Rightarrow> shell_kernel \<Rightarrow> shell_kernel option" where
  "cmd_info env k =
     do { k1 \<leftarrow> kprintlns env
            ([''========================================'', ''  DeltaOS v0.2.0'', ''  64-bit Rust Operating System'',
              ''========================================'', ''  Architecture:   x86_64 (long mode)'',
              ''  Kernel:         Rust #![no_std]'', ''  Bootloader:     NASM (multiboot2)'',
              ''  Memory Manager: PMM (bitmap) + VMM (4-level paging)'', ''  Heap:           Slab allocator (10 classes)'',
              ''  Scheduler:      Round-Robin + priorities + preemptive'', ''  VFS:            Trait-oriented (NTFS + ramfs)'',
              ''  Drivers:        AHCI, NVMe, PS/2 Keyboard (C)'', ''  Shell:          Kernel-space CLI'',
              ''  Timer:          PIT + HPET + LAPIC Timer'', ''  Interrupts:     PIC/APIC with preemptive scheduling''] @
             info_pmm k @ [''  Dev mode:       '' @ on_off (DEV_MODE k)]) k;
          k2 \<leftarrow> (if lapic_is_available (apic_state k1)
                then let (i, io) = lapic_id (env_hw env) (apic_state k1) (accesses k1)
                     in kprintln env (''  APIC:           Local APIC active (ID: '' @ show_nat (unat i) @ '')'') (k1\<lparr>accesses := io\<rparr>)
                else kprintln env ''  APIC:           Legacy PIC mode'' k1);
          kprintlns env
            (info_sched k2 @ [''  Uptime:         '' @ show_nat (unat (uptime_sec (timer_state k2))) @ '' sec'',
              ''========================================'']) k2 }"

definition two_digits :: "u8 \<Rightarrow> string" where
  "two_digits v = align_right (CHR ''0'') 2 (show_nat (unat v))"

definition cmd_time :: "environment \<Rightarrow> shell_kernel \<Rightarrow> shell_kernel option" where
  "cmd_time env k =
     (let (t, io) = read_rtc (env_hw env) (accesses k) in
      do { k1 \<leftarrow> kprintln env
             (''RTC: 20'' @ two_digits (t ! 5) @ ''-'' @ two_digits (t ! 4) @ ''-'' @ two_digits (t ! 3) @ '' '' @
              two_digits (t ! 2) @ '':'' @ two_digits (t ! 1) @ '':'' @ two_digits (t ! 0)) (k\<lparr>accesses := io\<rparr>);
           kprintln env
             (''Uptime: '' @ show_nat (unat (uptime_ms (timer_state k1))) @ '' ms ('' @
              show_nat (unat (timer_ticks (timer_state k1))) @ '' ticks)'') k1 })"

definition cmd_dev :: "environment \<Rightarrow> shell_kernel \<Rightarrow> shell_kernel option" where
  "cmd_dev env k =
     (let k1 = k\<lparr>DEV_MODE := \<not> DEV_MODE k\<rparr> in
      if DEV_MODE k1
      then kprintlns env
             ([''[DEV] Developer mode ON'', ''[DEV] Access: root'', ''[DEV] Features: memory dump, register view, direct I/O''] @
              (case ks_pmm k1 of
                 None \<Rightarrow> []
               | Some p \<Rightarrow> [''[DEV] PMM: '' @ show_nat (free_page_count p) @ '' free / '' @ show_nat (total_pages p) @ '' total pages'',
                            ''[DEV] PMM bitmap at: '' @ show_hex PMM_BITMAP_BASE]) @
              (if ks_vmm_ready k1 then [''[DEV] VMM: PML4 at CR3''] else []) @
              [''[DEV] Heap: '' @ show_hex HEAP_BASE @ ''-'' @ show_hex (HEAP_BASE + HEAP_SIZE),
               ''[DEV] Kernel end: '' @ show_hex (kernel_end env)]) (set_color 0x0A 0x00 k1)
      else kprintln env ''[DEV] Developer mode OFF'' (set_color 0x0F 0x00 k1))"

definition dump_byte :: "environment \<Rightarrow> usize \<Rightarrow> nat \<Rightarrow> string list" where
  "dump_byte env addr i =
     (if i mod 16 = 0 then [CHR 0x0A # ''  '' @ show_hex (usize_add addr i) @ '': ''] else []) @
     [align_right (CHR ''0'') 2 (show_hex_digits (unat (env_mem env (usize_add addr i)))) @ '' '']"

definition cmd_dev_mem :: "environment \<Rightarrow> string list \<Rightarrow> shell_kernel \<Rightarrow> shell_kernel option" where
  "cmd_dev_mem env args k =
     (if length args < 2 then kprintln env ''Usage: mem <address>'' k
      else let addr = parse_hex (args ! 1) in
        if addr = 0 then kprintln env ''Invalid address'' k
        else do { k1 \<leftarrow> kprintln env (''Memory at '' @ show_hex addr @ '':'') k;
                  k2 \<leftarrow> kprints env (concat (map (dump_byte env addr) [0..<64])) k1;
                  kprintln env [] k2 })"

definition cmd_dev_regs :: "environment \<Rightarrow> shell_kernel \<Rightarrow> shell_kernel option" where
  "cmd_dev_regs env k =
     kprintlns env [''CR0: '' @ show_hex (unat (env_cr0 env)), ''CR2: '' @ show_hex (unat (env_cr2 env)),
       ''CR3: '' @ show_hex (unat (env_cr3 env)), ''CR4: '' @ show_hex (unat (env_cr4 env))] k"

definition cmd_dev_io :: "environment \<Rightarrow> string list \<Rightarrow> shell_kernel \<Rightarrow> shell_kernel option" where
  "cmd_dev_io env args k =
     (if length args < 3 then kprintln env ''Usage: io <in|out> <port> [value]'' k
      else let port = parse_hex (args ! 2) in
        if port = 0 \<and> args ! 2 \<noteq> ''0'' \<and> args ! 2 \<noteq> ''0x0'' then kprintln env ''Invalid port'' k
        else if args ! 1 = ''in''
        then let (val, io) = inb (env_hw env) (word_of_nat port) (accesses k)
             in kprintln env (''IN '' @ show_hex port @ '': '' @ show_hex (unat val)) (k\<lparr>accesses := io\<rparr>)
        else if args ! 1 = ''out''
        then (if length args < 4 then kprintln env ''Usage: io out <port> <value>'' k
              else let val = parse_hex (args ! 3)
                   in kprintln env (''OUT '' @ show_hex port @ '' <- '' @ show_hex val)
                        (k\<lparr>accesses := outb (word_of_nat port) (word_of_nat val) (accesses k)\<rparr>))
        else Some k)"

definition cmd_help :: "environment \<Rightarrow> shell_kernel \<Rightarrow> shell_kernel option" where
  "cmd_help env k =
     do { k1 \<leftarrow> kprintlns env
            [''DeltaOS Shell v0.2.0 - Available commands:'', ''  info          - Show system information'',
             ''  time          - Show RTC time and uptime'', ''  dev           - Toggle developer mode'',
             ''  clear         - Clear screen'', ''  help          - Show this help'', ''  reboot        - Reboot system'',
             '''', ''  Process Management:'', ''  ps            - List all processes'',
             ''  kill <id>     - Kill a process (SIGKILL)'', ''  run <name>    - Run a kernel task'',
             ''  bg <id>       - Resume stopped process in background'', ''  fg <id>       - Bring process to foreground'',
             ''  sched         - Show scheduler statistics''] k;
          if DEV_MODE k1
          then do { k2 \<leftarrow> kprintlns env
                      ['''', ''[DEV] Developer commands:'', ''  mem <addr>    - Dump memory at address'',
                       ''  regs          - Show CPU registers (CR0-CR4)'', ''  io <in|out> <port> [val] - I/O port access'',
                       ''  pmm           - PMM status'', ''  apic          - APIC status'',
                       ''  dev           - Turn off developer mode''] (set_color 0x0A 0x00 k1);
                    Some (set_color 0x0F 0x00 k2) }
          else Some k1 }"

definition cmd_clear :: "shell_kernel \<Rightarrow> shell_kernel option" where
  "cmd_clear k = Some (k\<lparr>console := vga_clear (console k)\<rparr>)"

definition cmd_reboot :: "shell_kernel \<Rightarrow> shell_kernel option" where
  "cmd_reboot k = Some (k\<lparr>accesses := outb 0x64 0xFE (accesses k)\<rparr>)"

definition cmd_dev_pmm :: "environment \<Rightarrow> shell_kernel \<Rightarrow> shell_kernel option" where
  "cmd_dev_pmm env k =
     (case ks_pmm k of
        Some p \<Rightarrow>
          kprintlns env [''PMM Status:'', ''  Total pages:   '' @ show_nat (total_pages p),
            ''  Free pages:    '' @ show_nat (free_page_count p), ''  Used pages:    '' @ show_nat (used_pages p),
            ''  Free memory:   '' @ show_nat (free_memory p div 1024) @ '' KB'',
            ''  Used memory:   '' @ show_nat (used_memory p div 1024) @ '' KB''] k
      | None \<Rightarrow> kprintln env ''PMM not initialized'' k)"

definition ps_line :: "TaskInfo \<Rightarrow> string" where
  "ps_line i =
     ''  '' @ align_right (CHR '' '') 3 (show_nat (unat (ti_id i))) @ ''  '' @ align_left 16 (ti_name i) @ '' '' @ align_left 6 (state_str i) @
     '' '' @ align_left 4 (priority_str i) @ '' '' @
     align_left 4 (case ti_task_type i of KernelTask \<Rightarrow> ''K'' | UserTask \<Rightarrow> ''U'') @ ''  '' @ align_left 3 (fg_str i) @ '' '' @
     show_nat (unat (ti_cpu_ticks i))"

definition cmd_ps :: "environment \<Rightarrow> shell_kernel \<Rightarrow> shell_kernel option" where
  "cmd_ps env k =
     (case KERNEL_SCHEDULER k of
        Some s \<Rightarrow>
          let tasks = list_tasks s in
          if tasks = [] then kprintln env ''No tasks'' k
          else kprintlns env
                 ([''  PID  NAME             STATE  PRI  TYPE  FG  CPU_T'', ''  ---  ----             -----  ---  ----  --  -----''] @
                  map ps_line tasks @ [''  Total: '' @ show_nat (length tasks) @ '' tasks'']) k
      | None \<Rightarrow> kprintln env ''Scheduler not initialized'' k)"

section \<open>Process commands\<close>

text \<open>\<open>-9\<close> is the exit code that \<open>kill\<close> sets.\<close>

definition cmd_kill :: "environment \<Rightarrow> string list \<Rightarrow> shell_kernel \<Rightarrow> shell_kernel option" where
  "cmd_kill env args k =
     (if args = [] then kprintln env ''Usage: kill <pid>'' k
      else let pid = parse_int (args ! 0) in
        if pid = 0 then kprintln env ''Invalid PID'' k
        else case KERNEL_SCHEDULER k of
               None \<Rightarrow> Some k
             | Some s \<Rightarrow>
                 let (r, s1) = terminate_task (word_of_nat pid) (- 9) s
                 in kprintln env
                      (case r of
                         Ok _ \<Rightarrow> ''Killed process '' @ show_nat pid
                       | Err e \<Rightarrow> if e = AccessDenied then ''Cannot kill system process '' @ show_nat pid
                                 else if e = InvalidArgument then ''Process '' @ show_nat pid @ '' not found''
                                 else ''Error: '' @ show_kernel_error e) (k\<lparr>KERNEL_SCHEDULER := Some s1\<rparr>))"

definition cmd_run :: "environment \<Rightarrow> string list \<Rightarrow> shell_kernel \<Rightarrow> shell_kernel option" where
  "cmd_run env args k =
     (if args = [] then kprintlns env [''Usage: run <name>'', ''Available: demo, counter, idle_test''] k
      else let nm = args ! 0;
               entry = (if nm = ''demo'' then Some (demo_task_addr env) else if nm = ''counter'' then Some (counter_task_addr env)
                        else if nm = ''idle_test'' then Some (idle_test_task_addr env) else None)
           in case entry of
                None \<Rightarrow> kprintlns env [''Unknown task: '' @ nm, ''Available: demo, counter, idle_test''] k
              | Some e \<Rightarrow>
                  (case KERNEL_SCHEDULER k of
                     Some s \<Rightarrow>
                       let (i, s1) = create_kernel_task e nm s
                       in kprintln env (''Started task '' @ [CHR 0x27] @ nm @ [CHR 0x27] @ '' with PID '' @ show_nat (unat i))
                            (k\<lparr>KERNEL_SCHEDULER := Some s1\<rparr>)
                   | None \<Rightarrow> kprintln env ''Scheduler not initialized'' k))"

definition resume_message :: "unit KernelResult \<Rightarrow> usize \<Rightarrow> string \<Rightarrow> string \<Rightarrow> string" where
  "resume_message r pid ok bad =
     (case r of
        Ok _ \<Rightarrow> ''Process '' @ show_nat pid @ ok
      | Err e \<Rightarrow> if e = InvalidArgument then ''Process '' @ show_nat pid @ bad else ''Error: '' @ show_kernel_error e)"

definition cmd_bg :: "environment \<Rightarrow> string list \<Rightarrow> shell_kernel \<Rightarrow> shell_kernel option" where
  "cmd_bg env args k =
     (if args = [] then kprintln env ''Usage: bg <pid>'' k
      else let pid = parse_int (args ! 0) in
        case KERNEL_SCHEDULER k of
          None \<Rightarrow> Some k
        | Some s \<Rightarrow>
            let (r, s1) = background_task (word_of_nat pid) s
            in kprintln env (resume_message r pid '' resumed in background'' '' not found or not stopped'')
                 (k\<lparr>KERNEL_SCHEDULER := Some s1\<rparr>))"

definition cmd_fg :: "environment \<Rightarrow> string list \<Rightarrow> shell_kernel \<Rightarrow> shell_kernel option" where
  "cmd_fg env args k =
     (if args = [] then kprintln env ''Usage: fg <pid>'' k
      else let pid = parse_int (args ! 0) in
        case KERNEL_SCHEDULER k of
          None \<Rightarrow> Some k
        | Some s \<Rightarrow>
            let (r, s1) = foreground_task (word_of_nat pid) s
            in kprintln env (resume_message r pid '' brought to foreground'' '' not found or already foreground'')
                 (k\<lparr>KERNEL_SCHEDULER := Some s1\<rparr>))"

definition cmd_sched :: "environment \<Rightarrow> shell_kernel \<Rightarrow> shell_kernel option" where
  "cmd_sched env k =
     (case KERNEL_SCHEDULER k of
        Some s \<Rightarrow>
          let stats = scheduler_stats s in
          kprintlns env
            [''Scheduler Statistics:'', ''  Total tasks:       '' @ show_nat (unat (st_total_tasks stats)),
             ''  Ready tasks:       '' @ show_nat (st_ready_tasks stats), ''  Tick count:        '' @ show_nat (unat (st_tick_count stats)),
             ''  Context switches:  '' @ show_nat (unat (st_context_switches stats)),
             ''  Preemption:        '' @ (if st_preemption_enabled stats then ''ENABLED'' else ''DISABLED''),
             ''  Current task:      '' @ st_current_task stats,
             ''  Timer frequency:   '' @ show_nat (unat (timer_hz (timer_state k))) @ '' Hz'',
             ''  Uptime:            '' @ show_nat (unat (uptime_sec (timer_state k))) @ '' sec ('' @
               show_nat (unat (timer_ticks (timer_state k))) @ '' ticks)''] k
      | None \<Rightarrow> kprintln env ''Scheduler not initialized'' k)"

definition cmd_dev_apic :: "environment \<Rightarrow> shell_kernel \<Rightarrow> shell_kernel option" where
  "cmd_dev_apic env k =
     (if lapic_is_available (apic_state k)
      then do { k1 \<leftarrow> kprintln env ''APIC Status:'' k;
                let (i, io) = lapic_id (env_hw env) (apic_state k1) (accesses k1)
                in kprintlns env
                     [''  Local APIC:   ACTIVE (ID: '' @ show_nat (unat i) @ '')'',
                      ''  Using APIC:   '' @ (if is_using_apic (apic_state k1) then ''true'' else ''false'')] (k1\<lparr>accesses := io\<rparr>) }
      else kprintlns env [''APIC Status:'', ''  Local APIC:   NOT AVAILABLE'', ''  Using:        Legacy PIC''] k)"

section \<open>Command interpreter\<close>

definition unknown_command :: "environment \<Rightarrow> string \<Rightarrow> shell_kernel \<Rightarrow> shell_kernel option" where
  "unknown_command env cmd k = kprintln env (''Unknown command: '' @ cmd) k"

definition run_command :: "environment \<Rightarrow> string \<Rightarrow> string list \<Rightarrow> shell_kernel \<Rightarrow> shell_kernel option" where
  "run_command env cmd args k =
     (if cmd = ''info'' then cmd_info env k
      else if cmd = ''time'' then cmd_time env k
      else if cmd = ''dev'' then cmd_dev env k
      else if cmd = ''help'' then cmd_help env k
      else if cmd = ''clear'' then cmd_clear k
      else if cmd = ''reboot'' then cmd_reboot k
      else if cmd = ''ps'' then cmd_ps env k
      else if cmd = ''kill'' then cmd_kill env args k
      else if cmd = ''run'' then cmd_run env args k
      else if cmd = ''bg'' then cmd_bg env args k
      else if cmd = ''fg'' then cmd_fg env args k
      else if cmd = ''sched'' then cmd_sched env k
      else if cmd = ''mem'' then (if DEV_MODE k then cmd_dev_mem env args k else unknown_command env cmd k)
      else if cmd = ''regs'' then (if DEV_MODE k then cmd_dev_regs env k else unknown_command env cmd k)
      else if cmd = ''io'' then (if DEV_MODE k then cmd_dev_io env args k else unknown_command env cmd k)
      else if cmd = ''pmm'' then (if DEV_MODE k then cmd_dev_pmm env k else unknown_command env cmd k)
      else if cmd = ''apic'' then (if DEV_MODE k then cmd_dev_apic env k else unknown_command env cmd k)
      else unknown_command env cmd k)"

definition execute_command :: "environment \<Rightarrow> string \<Rightarrow> shell_kernel \<Rightarrow> shell_kernel option" where
  "execute_command env input k =
     (let input1 = trim input in
      if input1 = [] then Some k
      else case split_words input1 of
             [] \<Rightarrow> Some k
           | cmd # args \<Rightarrow> run_command env cmd args k)"

section \<open>Line editor\<close>

text \<open>The buffer of 256 bytes and the position in it.\<close>

type_synonym line_buffer = "u8 list \<times> usize"

definition shell_prompt :: "environment \<Rightarrow> shell_kernel \<Rightarrow> shell_kernel option" where
  "shell_prompt env k =
     do { k1 \<leftarrow> kprint env ''deltaos> '' (if DEV_MODE k then set_color 0x0A 0x00 k else k);
          Some (set_color 0x0F 0x00 k1) }"

text \<open>A new line: the prompt, and an empty buffer; \<open>shell\<close> is the way to the first.\<close>

definition shell_start :: "environment \<Rightarrow> u8 list \<Rightarrow> shell_kernel \<Rightarrow> (line_buffer \<times> shell_kernel) option" where
  "shell_start env buf k = do { k1 \<leftarrow> shell_prompt env k; Some ((buf[0 := 0], 0), k1) }"

definition shell :: "environment \<Rightarrow> shell_kernel \<Rightarrow> (line_buffer \<times> shell_kernel) option" where
  "shell env k =
     do { k1 \<leftarrow> kprintlns env [[], ''DeltaOS Shell v0.2.0'', ''Type '' @ [CHR 0x27] @ ''help'' @ [CHR 0x27] @ '' for available commands.'', []] k;
          shell_start env (replicate 256 0) k1 }"

definition echo_byte :: "environment \<Rightarrow> u8 \<Rightarrow> shell_kernel \<Rightarrow> shell_kernel option" where
  "echo_byte env ch k = kernel_print (env_hw env) [ch] k"

definition shell_key :: "environment \<Rightarrow> u8 \<Rightarrow> line_buffer \<times> shell_kernel \<Rightarrow> (line_buffer \<times> shell_kernel) option" where
  "shell_key env ch = (\<lambda>((buf, pos), k).
     if ch = 10
     then do { k1 \<leftarrow> kprintln env [] k;
               k2 \<leftarrow> execute_command env (string_of_bytes (take pos (buf[pos := 0]))) k1;
               shell_start env (buf[pos := 0]) k2 }
     else if ch = 8
     then (if pos > 0
           then do { k1 \<leftarrow> echo_byte env 8 k; k2 \<leftarrow> echo_byte env 32 k1; k3 \<leftarrow> echo_byte env 8 k2;
                     Some ((buf[pos - 1 := 0], pos - 1), k3) }
           else Some ((buf, pos), k))
     else if ch \<ge> 32 \<and> pos < 255
     then do { k1 \<leftarrow> echo_byte env ch k; Some ((buf[pos := ch], pos + 1), k1) }
     else Some ((buf, pos), k))"

text \<open>One turn of the loop, after \<open>sti; hlt\<close>.\<close>

definition shell_poll :: "environment \<Rightarrow> line_buffer \<times> shell_kernel \<Rightarrow> (line_buffer \<times> shell_kernel) option" where
  "shell_poll env = (\<lambda>(b, k).
     if keyboard_has_data (kbd_state k)
     then let (ch, kb) = keyboard_read_char (kbd_state k) in shell_key env ch (b, k\<lparr>kbd_state := kb\<rparr>)
     else Some (b, k))"

primrec shell_polls :: "environment \<Rightarrow> nat \<Rightarrow> line_buffer \<times> shell_kernel \<Rightarrow> (line_buffer \<times> shell_kernel) option" where
  "shell_polls env 0 st = Some st"
| "shell_polls env (Suc n) st = do { st1 \<leftarrow> shell_poll env st; shell_polls env n st1 }"

section \<open>The tasks of the command run\<close>

text \<open>A turn of the loop of a task, on its counter.\<close>

definition demo_task_turn :: "environment \<Rightarrow> u64 \<times> shell_kernel \<Rightarrow> (u64 \<times> shell_kernel) option" where
  "demo_task_turn env = (\<lambda>(count, k).
     let count1 = count + 1 in
     if count1 mod 10000000 = 0
     then map_option (Pair count1) (kprintln env (''[demo] tick '' @ show_nat (unat (count1 div 10000000))) k)
     else Some (count1, k))"

definition counter_task_turn :: "environment \<Rightarrow> u64 \<times> shell_kernel \<Rightarrow> (u64 \<times> shell_kernel) option" where
  "counter_task_turn env = (\<lambda>(count, k).
     let count1 = count + 1 in
     if count1 mod 50000000 = 0
     then map_option (Pair count1) (kprintln env (''[counter] count = '' @ show_nat (unat count1)) k)
     else Some (count1, k))"

definition demo_task :: "environment \<Rightarrow> shell_kernel \<Rightarrow> (u64 \<times> shell_kernel) option" where
  "demo_task env k = map_option (Pair 0) (kprintln env ''[demo] Hello from demo task!'' k)"

definition counter_task :: "environment \<Rightarrow> shell_kernel \<Rightarrow> (u64 \<times> shell_kernel) option" where
  "counter_task env k = map_option (Pair 0) (kprintln env ''[counter] Counter task started'' k)"

definition idle_test_task :: "environment \<Rightarrow> shell_kernel \<Rightarrow> shell_kernel option" where
  "idle_test_task env k = kprintln env ''[idle_test] Idle test running'' k"

section \<open>What a command does to the machine\<close>

definition serial_ready :: "environment \<Rightarrow> bool" where
  "serial_ready env \<longleftrightarrow> (\<forall>io. device_answers (env_hw env) (COM1 + 5) 0x20 io)"

definition writes_within :: "u16 set \<Rightarrow> io \<Rightarrow> io \<Rightarrow> bool" where
  "writes_within P io io' \<longleftrightarrow> (\<exists>es. io' = io @ es \<and> (\<forall>p v. Out8 p v \<in> set es \<longrightarrow> p \<in> P))"

lemma writes_within_refl [simp]: "writes_within P io io"
  by (auto simp: writes_within_def)

lemma writes_within_trans: "writes_within P a b \<Longrightarrow> writes_within P b c \<Longrightarrow> writes_within P a c"
  unfolding writes_within_def by (elim exE conjE) (force simp: append_assoc)

lemma writes_within_outb: "p \<in> P \<Longrightarrow> writes_within P io (outb p v io)"
  by (auto simp: writes_within_def outb_def)

lemma writes_within_inb: "inb hw p io = (v, io') \<Longrightarrow> writes_within P io io'"
  by (auto simp: writes_within_def inb_def Let_def)

text \<open>
  \<open>runs P k m\<close>: started in \<open>k\<close>, the computation \<open>m\<close> returns a consistent kernel, and on the way writes to no port outside \<open>P\<close>.
\<close>

definition runs :: "u16 set \<Rightarrow> 'a kernel_scheme \<Rightarrow> 'a kernel_scheme option \<Rightarrow> bool" where
  "runs P k m \<longleftrightarrow> (\<exists>k'. m = Some k' \<and> kernel_inv k' \<and> writes_within P (accesses k) (accesses k'))"

named_theorems runs_intros \<open>rules for the commands\<close>

lemma runs_bind [runs_intros]:
  assumes "runs P k m" "\<And>k1. kernel_inv k1 \<Longrightarrow> runs P k1 (f k1)"
  shows "runs P k (m \<bind> f)"
proof -
  obtain k1 where k1: "m = Some k1" "kernel_inv k1" "writes_within P (accesses k) (accesses k1)" using assms(1) by (auto simp: runs_def)
  obtain k' where "f k1 = Some k'" "kernel_inv k'" "writes_within P (accesses k1) (accesses k')"
    using assms(2)[OF k1(2)] by (auto simp: runs_def)
  then show ?thesis using k1 writes_within_trans[OF k1(3)] by (simp add: runs_def)
qed

lemma runs_some [runs_intros]: "kernel_inv k' \<Longrightarrow> writes_within P (accesses k) (accesses k') \<Longrightarrow> runs P k (Some k')"
  by (simp add: runs_def)

lemma runs_if: "(c \<Longrightarrow> runs P k m) \<Longrightarrow> (\<not> c \<Longrightarrow> runs P k n) \<Longrightarrow> runs P k (if c then m else n)"
  by simp

lemma runs_option: "runs P k m \<Longrightarrow> (\<And>x. runs P k (f x)) \<Longrightarrow> runs P k (case v of None \<Rightarrow> m | Some x \<Rightarrow> f x)"
  by (cases v) simp_all

lemma runs_option_eq:
  "(v = None \<Longrightarrow> runs P k m) \<Longrightarrow> (\<And>x. v = Some x \<Longrightarrow> runs P k (f x)) \<Longrightarrow> runs P k (case v of None \<Rightarrow> m | Some x \<Rightarrow> f x)"
  by (cases v) simp_all

lemma runs_from: "runs P k1 m \<Longrightarrow> writes_within P (accesses k) (accesses k1) \<Longrightarrow> runs P k m"
  unfolding runs_def using writes_within_trans by blast

lemma serial_print_returns:
  assumes "\<And>io. device_answers hw (COM1 + 5) 0x20 io"
  shows "\<exists>io'. serial_print hw msg io = Some io' \<and> writes_within {COM1} io io'"
proof (induction msg arbitrary: io)
  case (Cons b msg)
  obtain io1 where w: "wait_port hw (COM1 + 5) 0x20 io = Some io1" using assms wait_port_iff by blast
  then have "writes_within {COM1} io io1" using wait_port_events[OF w] by (fastforce simp: writes_within_def)
  moreover have "writes_within {COM1} io1 (outb COM1 b io1)" by (simp add: writes_within_outb)
  ultimately have "writes_within {COM1} io (outb COM1 b io1)" by (rule writes_within_trans)
  moreover obtain io' where "serial_print hw msg (outb COM1 b io1) = Some io'" "writes_within {COM1} (outb COM1 b io1) io'"
    using Cons.IH by blast
  ultimately show ?case using w writes_within_trans by (metis option.simps(5) serial_print.simps(2))
qed simp

lemma runs_kernel_print:
  assumes "serial_ready env" "kernel_inv k" "COM1 \<in> P"
  shows "runs P k (kernel_print (env_hw env) msg k)"
proof -
  obtain io' where io': "serial_print (env_hw env) msg (accesses k) = Some io'" "writes_within {COM1} (accesses k) io'"
    using serial_print_returns assms(1) unfolding serial_ready_def by blast
  then obtain k' where k': "kernel_print (env_hw env) msg k = Some k'" "accesses k' = io'"
    by (simp add: kernel_print_def vga_print_def)
  moreover have "writes_within P (accesses k) io'" using io'(2) assms(3) by (auto simp: writes_within_def)
  ultimately show ?thesis using kernel_print_inv[OF k'(1) assms(2)] by (simp add: runs_def)
qed

lemma runs_kprint [runs_intros]: "serial_ready env \<Longrightarrow> kernel_inv k \<Longrightarrow> COM1 \<in> P \<Longrightarrow> runs P k (kprint env s k)"
  unfolding kprint_def by (rule runs_kernel_print)

lemma runs_kprintln [runs_intros]: "serial_ready env \<Longrightarrow> kernel_inv k \<Longrightarrow> COM1 \<in> P \<Longrightarrow> runs P k (kprintln env s k)"
  unfolding kprintln_def by (rule runs_kprint)

lemma runs_kprintlns [runs_intros]: "serial_ready env \<Longrightarrow> kernel_inv k \<Longrightarrow> COM1 \<in> P \<Longrightarrow> runs P k (kprintlns env ls k)"
  by (induction ls arbitrary: k) (auto intro: runs_intros)

lemma runs_kprints [runs_intros]: "serial_ready env \<Longrightarrow> kernel_inv k \<Longrightarrow> COM1 \<in> P \<Longrightarrow> runs P k (kprints env ls k)"
  by (induction ls arbitrary: k) (auto intro: runs_intros)

lemma kernel_inv_accesses [simp]: "kernel_inv (k\<lparr>accesses := io\<rparr>) = kernel_inv k"
  by (simp add: kernel_inv_def)

lemma kernel_inv_shell [simp]:
  "kernel_inv (k\<lparr>DEV_MODE := b\<rparr>) = kernel_inv k" "kernel_inv (set_color fg bg k) = kernel_inv k"
  by (simp_all add: kernel_inv_def set_color_def vga_set_color_def cursor_ok_def)

lemma accesses_shell [simp]: "accesses (set_color fg bg k) = accesses k"
  by (simp add: set_color_def)

lemma writes_within_lapic_id: "lapic_id hw a io = (v, io') \<Longrightarrow> writes_within P io io'"
  by (auto simp: lapic_id_def lapic_read_reg_def read_volatile32_def writes_within_def Let_def split: if_splits)

lemma writes_within_rtc: "0x70 \<in> P \<Longrightarrow> read_rtc_regs hw rs io = (vs, io') \<Longrightarrow> writes_within P io io'"
proof (induction rs arbitrary: io vs)
  case (Cons r rs)
  obtain v io1 where 1: "inb hw 0x71 (outb 0x70 r io) = (v, io1)" by fastforce
  obtain ws where 2: "read_rtc_regs hw rs io1 = (ws, io')" using Cons.prems(2) 1 by (auto simp: read_cmos_def Let_def split: prod.splits)
  have "writes_within P (outb 0x70 r io) io1" using 1 by (rule writes_within_inb)
  then show ?case using Cons.IH[OF Cons.prems(1) 2] writes_within_outb[OF Cons.prems(1), of io r] writes_within_trans by blast
qed simp

definition PLAIN_PORTS :: "u16 set" where
  "PLAIN_PORTS = {COM1, 0x70, 0x64}"

definition tasks_left :: "'a kernel_scheme \<Rightarrow> bool" where
  "tasks_left k \<longleftrightarrow> (\<forall>s. KERNEL_SCHEDULER k = Some s \<longrightarrow> NEXT_TASK_ID s < NEXT_TASK_ID s + 1)"

lemma runs_print_commands:
  assumes "serial_ready env" "kernel_inv k" "PLAIN_PORTS \<subseteq> P"
  shows "runs P k (cmd_info env k)" "runs P k (cmd_time env k)" "runs P k (cmd_dev env k)" "runs P k (cmd_help env k)"
    "runs P k (cmd_clear k)" "runs P k (cmd_reboot k)" "runs P k (cmd_ps env k)" "runs P k (cmd_sched env k)"
    "runs P k (cmd_dev_mem env args k)" "runs P k (cmd_dev_regs env k)" "runs P k (cmd_dev_pmm env k)" "runs P k (cmd_dev_apic env k)"
    "runs P k (unknown_command env cmd k)"
proof -
  have c: "COM1 \<in> P" "0x70 \<in> P" "0x64 \<in> P" using assms(3) by (auto simp: PLAIN_PORTS_def)
  note ready = assms(1,2) c
  have id: "runs P k1 (case lapic_id hw (apic_state k1) (accesses k1) of (i, io) \<Rightarrow> f i io)"
    if "kernel_inv k1" "\<And>i io. kernel_inv (k1\<lparr>accesses := io\<rparr>) \<Longrightarrow> runs P (k1\<lparr>accesses := io\<rparr>) (f i io)" for k1 f hw
  proof -
    obtain i io where i: "lapic_id hw (apic_state k1) (accesses k1) = (i, io)" by fastforce
    show ?thesis unfolding i prod.case
      by (rule runs_from[of P "k1\<lparr>accesses := io\<rparr>"]) (simp_all add: that writes_within_lapic_id[OF i])
  qed
  show "runs P k (cmd_info env k)" unfolding cmd_info_def
    by (intro runs_bind) (auto intro!: runs_intros id simp: ready)
  show "runs P k (cmd_time env k)"
  proof -
    obtain t io where t: "read_rtc (env_hw env) (accesses k) = (t, io)" by fastforce
    have w: "writes_within P (accesses k) io" by (rule writes_within_rtc[OF c(2) t[unfolded read_rtc_def]])
    show ?thesis unfolding cmd_time_def t Let_def prod.case
      by (rule runs_from[of P "k\<lparr>accesses := io\<rparr>"]) (auto intro!: runs_intros simp: ready w)
  qed
  have dev: "runs P k (kprintlns env ls (set_color fg bg (k\<lparr>DEV_MODE := d\<rparr>)))"
    "runs P k (kprintln env l (set_color fg bg (k\<lparr>DEV_MODE := d\<rparr>)))" for ls l fg bg d
    by (rule runs_from[of P "set_color fg bg (k\<lparr>DEV_MODE := d\<rparr>)"]; simp add: runs_kprintlns runs_kprintln ready)+
  show "runs P k (cmd_dev env k)" unfolding cmd_dev_def Let_def by (intro runs_if dev)
  have out: "runs P k1 (kprintlns env ls k1)" "runs P k1 (kprintln env l k1)" "runs P k1 (kprints env ls k1)"
    "runs P k1 (kprintlns env ls (set_color fg bg k1))" if "kernel_inv k1" for k1 ls l fg bg
    using that ready by (simp_all add: runs_intros runs_from[of P "set_color fg bg k1" _ k1])
  have col: "runs P k1 (Some (set_color fg bg k1))" "runs P k1 (Some k1)" if "kernel_inv k1" for k1 fg bg
    using that by (simp_all add: runs_some)
  show "runs P k (cmd_help env k)" unfolding cmd_help_def
    by (intro runs_bind runs_if out col ready(2))
  show "runs P k (cmd_clear k)"
    using assms(2) by (auto intro!: runs_intros simp: cmd_clear_def kernel_inv_def vga_clear_def cursor_ok_def)
  show "runs P k (cmd_reboot k)" unfolding cmd_reboot_def using c by (auto intro!: runs_intros writes_within_outb simp: ready)
  show "runs P k (cmd_ps env k)" "runs P k (cmd_sched env k)" "runs P k (cmd_dev_mem env args k)" "runs P k (cmd_dev_regs env k)"
    "runs P k (cmd_dev_pmm env k)" "runs P k (unknown_command env cmd k)"
    unfolding cmd_ps_def cmd_sched_def cmd_dev_mem_def cmd_dev_regs_def cmd_dev_pmm_def unknown_command_def Let_def
    by (intro runs_if runs_option runs_bind out ready(2); assumption?)+
  show "runs P k (cmd_dev_apic env k)" unfolding cmd_dev_apic_def by (auto intro!: runs_intros id simp: ready)
qed

lemma kernel_inv_new_sched:
  assumes "kernel_inv k" "KERNEL_SCHEDULER k = Some s" "sched_step s s'" "timer_tick_count s' = timer_tick_count s"
  shows "kernel_inv (k\<lparr>KERNEL_SCHEDULER := Some s'\<rparr>)"
  using assms kernel_inv_sched[OF assms(1,2)] sched_step_inv by (auto simp: kernel_inv_def)

lemma control_frame:
  "timer_tick_count (snd (terminate_task i c s)) = timer_tick_count s" "timer_tick_count (snd (background_task i s)) = timer_tick_count s"
  "timer_tick_count (snd (foreground_task i s)) = timer_tick_count s" "timer_tick_count (snd (create_kernel_task e nm s)) = timer_tick_count s"
  by (simp_all add: terminate_task_def background_task_def foreground_task_def create_kernel_task_def new_kernel_def enqueue_new_task_def
      setup_initial_stack_def arc_new_def alloc_stack_def fetch_task_id_def upd_task_def Let_def split: option.splits prod.splits)

lemma runs_task_commands:
  assumes "serial_ready env" "kernel_inv k" "PLAIN_PORTS \<subseteq> P"
  shows "runs P k (cmd_kill env args k)" "runs P k (cmd_bg env args k)" "runs P k (cmd_fg env args k)"
    "tasks_left k \<Longrightarrow> runs P k (cmd_run env args k)"
proof -
  have c: "COM1 \<in> P" using assms(3) by (auto simp: PLAIN_PORTS_def)
  have out: "runs P k (kprintln env l k)" "runs P k (kprintlns env ls k)" "runs P k (Some k)" for l ls
    using assms c by (simp_all add: runs_intros)
  have upd: "runs P k (kprintln env l (k\<lparr>KERNEL_SCHEDULER := Some s1\<rparr>))"
    if "KERNEL_SCHEDULER k = Some s" "sched_step s s1" "timer_tick_count s1 = timer_tick_count s" for s s1 l
    by (rule runs_from[of P "k\<lparr>KERNEL_SCHEDULER := Some s1\<rparr>"])
      (simp_all add: runs_kprintln kernel_inv_new_sched[OF assms(2) that] assms(1) c)
  note upds = upd[OF _ sched_step.intros(13) control_frame(1)] upd[OF _ sched_step.intros(15) control_frame(2)]
    upd[OF _ sched_step.intros(16) control_frame(3)] upd[OF _ sched_step.intros(1) control_frame(4)]
  show "runs P k (cmd_kill env args k)" "runs P k (cmd_bg env args k)" "runs P k (cmd_fg env args k)"
    unfolding cmd_kill_def cmd_bg_def cmd_fg_def Let_def split_beta by (intro runs_if runs_option_eq upds out; assumption)+
  assume "tasks_left k"
  then have left: "NEXT_TASK_ID s < NEXT_TASK_ID s + 1" if "KERNEL_SCHEDULER k = Some s" for s using that by (simp add: tasks_left_def)
  show "runs P k (cmd_run env args k)"
    unfolding cmd_run_def Let_def split_beta by (intro runs_if runs_option_eq upds out left; assumption)
qed

lemma runs_dev_io:
  assumes "serial_ready env" "kernel_inv k"
  shows "runs UNIV k (cmd_dev_io env args k)"
proof -
  have p: "runs UNIV k (kprintln env l (k\<lparr>accesses := io\<rparr>))" if "writes_within UNIV (accesses k) io" for l io
    by (rule runs_from[of UNIV "k\<lparr>accesses := io\<rparr>"]) (simp_all add: runs_kprintln assms that)
  have out: "runs UNIV k (kprintln env l k)" "runs UNIV k (Some k)" for l using assms by (simp_all add: runs_intros)
  have i: "writes_within UNIV (accesses k) (snd (inb (env_hw env) pt (accesses k)))" for pt
    using writes_within_inb[of _ _ _ "fst _" "snd _"] by (metis prod.collapse)
  show ?thesis unfolding cmd_dev_io_def Let_def split_beta by (intro runs_if out p i writes_within_outb UNIV_I)
qed

text \<open>The tasks only print.\<close>

lemma runs_tasks:
  assumes "serial_ready env" "kernel_inv k"
  shows "runs {COM1} k (map_option snd (demo_task env k))" "runs {COM1} k (map_option snd (demo_task_turn env (n, k)))"
    "runs {COM1} k (map_option snd (counter_task env k))" "runs {COM1} k (map_option snd (counter_task_turn env (n, k)))"
    "runs {COM1} k (idle_test_task env k)"
proof -
  have p: "runs {COM1} k (map_option snd (map_option (Pair (c :: u64)) (kprintln env l k)))" "runs {COM1} k (kprintln env l k)" for c l
    using assms by (simp_all add: runs_kprintln option.map_comp comp_def option.map_ident)
  have s: "runs {COM1} k (Some k)" using assms by (simp add: runs_some)
  show "runs {COM1} k (map_option snd (demo_task env k))" "runs {COM1} k (map_option snd (counter_task env k))" "runs {COM1} k (idle_test_task env k)"
    unfolding demo_task_def counter_task_def idle_test_task_def by (rule p)+
  show "runs {COM1} k (map_option snd (demo_task_turn env (n, k)))" "runs {COM1} k (map_option snd (counter_task_turn env (n, k)))"
    unfolding demo_task_turn_def counter_task_turn_def Let_def prod.case
    by (simp_all only: if_distrib[of "map_option snd"] option.map snd_conv) (intro runs_if p s)+
qed

lemma runs_run_command:
  assumes "serial_ready env" "kernel_inv k" "tasks_left k" "PLAIN_PORTS \<subseteq> P" "DEV_MODE k \<Longrightarrow> P = UNIV"
  shows "runs P k (run_command env cmd args k)"
proof -
  have "runs P k (cmd_dev_io env args k)" if "DEV_MODE k" using runs_dev_io[OF assms(1,2)] assms(5)[OF that] by simp
  then show ?thesis unfolding run_command_def
    by (intro runs_if runs_print_commands[OF assms(1,2,4)] runs_task_commands[OF assms(1,2,4)] assms(3)) simp_all
qed

lemma runs_execute_command:
  assumes "serial_ready env" "kernel_inv k" "tasks_left k"
  shows "runs (if DEV_MODE k then UNIV else PLAIN_PORTS) k (execute_command env input k)"
proof -
  have "runs (if DEV_MODE k then UNIV else PLAIN_PORTS) k (run_command env cmd args k)" for cmd args
    using assms by (intro runs_run_command) simp_all
  then show ?thesis using assms(2) by (auto simp: execute_command_def Let_def runs_some split: list.splits)
qed

section \<open>What the line editor does\<close>

text \<open>The line that the keys leave in the buffer: 8 takes the last character away, the others are appended as long as there is room.\<close>

definition edit :: "u8 list \<Rightarrow> u8 \<Rightarrow> u8 list" where
  "edit l ch = (if ch = 8 then butlast l else if 32 \<le> ch \<and> length l < 255 then l @ [ch] else l)"

definition holds :: "line_buffer \<Rightarrow> u8 list \<Rightarrow> bool" where
  "holds b l \<longleftrightarrow> length (fst b) = 256 \<and> snd b = length l \<and> length l \<le> 255 \<and> take (length l) (fst b) = l"

definition same_but_io :: "shell_kernel \<Rightarrow> shell_kernel \<Rightarrow> bool" where
  "same_but_io k k' \<longleftrightarrow> k' = k\<lparr>kbd_state := kbd_state k', console := console k', accesses := accesses k'\<rparr>"

lemma same_but_io_trans: "same_but_io a b \<Longrightarrow> same_but_io b c \<Longrightarrow> same_but_io a c"
  by (cases a; cases b; cases c) (simp add: same_but_io_def)

lemma same_but_io_intros [simp]: "same_but_io k k" "same_but_io k (k\<lparr>kbd_state := kb\<rparr>)" "same_but_io k (k\<lparr>console := c, accesses := io\<rparr>)"
  by (simp_all add: same_but_io_def)

lemma same_but_io_tasks_left: "same_but_io k k' \<Longrightarrow> tasks_left k' = tasks_left k"
  by (cases k; cases k') (simp add: same_but_io_def tasks_left_def)

lemma holds_snoc: "holds (buf, length l) l \<Longrightarrow> length l < 255 \<Longrightarrow> holds (buf[length l := ch], length l + 1) (l @ [ch])"
  by (auto simp: holds_def take_Suc_conv_app_nth)

lemma holds_butlast:
  assumes "holds (buf, length l) l" "l \<noteq> []"
  shows "holds (buf[length l - 1 := 0], length l - 1) (butlast l)"
proof -
  have "take (length l - 1) buf = butlast l" using assms(1) butlast_take[of "length l" buf] by (simp add: holds_def)
  then show ?thesis using assms by (auto simp: holds_def)
qed

lemma kernel_print_returns:
  assumes "serial_ready env" "kernel_inv k"
  shows "\<exists>k'. kernel_print (env_hw env) msg k = Some k' \<and> kernel_inv k' \<and> same_but_io k k' \<and> kbd_state k' = kbd_state k"
proof -
  obtain k' where k': "kernel_print (env_hw env) msg k = Some k'" "kernel_inv k'"
    using runs_kernel_print[OF assms, of "{COM1}"] by (auto simp: runs_def)
  moreover have "same_but_io k k'" "kbd_state k' = kbd_state k" using k'(1)
    by (auto simp: kernel_print_def)
  ultimately show ?thesis by blast
qed

lemma shell_prompt_returns:
  assumes "serial_ready env" "kernel_inv k"
  shows "\<exists>k'. shell_prompt env k = Some k'"
  using kernel_print_returns[OF assms, of "ascii ''deltaos> ''"] kernel_print_returns[OF assms(1), of "set_color 0x0A 0x00 k" "ascii ''deltaos> ''"] assms(2)
  by (auto simp: shell_prompt_def kprint_def)

lemma shell_poll_edits:
  assumes "serial_ready env" "kernel_inv k" "keyboard_queue (kbd_state k) = ch # q" "ch \<noteq> 10" "holds b l"
  shows "\<exists>b' k'. shell_poll env (b, k) = Some (b', k') \<and> holds b' (edit l ch) \<and> kernel_inv k' \<and> same_but_io k k' \<and>
    keyboard_queue (kbd_state k') = q"
proof -
  obtain buf where b: "b = (buf, length l)" using assms(5) by (cases b) (simp add: holds_def)
  obtain kb where kb: "keyboard_read_char (kbd_state k) = (ch, kb)" "keyboard_queue kb = q" "keyboard_inv kb" "keyboard_has_data (kbd_state k)"
    using kbd.get_first[OF _ assms(3)] kbd.get_inv[of "kbd_state k"] kbd.has_data_iff[of "kbd_state k"] assms(2,3)
    by (cases "keyboard_read_char (kbd_state k)") (auto simp: kernel_inv_def)
  let ?k = "k\<lparr>kbd_state := kb\<rparr>"
  have k: "kernel_inv ?k" "same_but_io k ?k" "kbd_state ?k = kb"
    using assms(2) kb(3) by (auto simp: kernel_inv_def)
  have poll: "shell_poll env (b, k) = shell_key env ch ((buf, length l), ?k)" using kb b by (simp add: shell_poll_def)
  have other: "edit l ch = l \<and> shell_poll env (b, k) = Some (b, ?k)"
    if "\<not> (ch = 8 \<and> l \<noteq> [])" "\<not> (ch \<noteq> 8 \<and> 32 \<le> ch \<and> length l < 255)"
    unfolding poll using that assms(4) b by (auto simp: edit_def shell_key_def)
  consider "ch = 8 \<and> l \<noteq> []" | "ch \<noteq> 8 \<and> 32 \<le> ch \<and> length l < 255" | "edit l ch = l" "shell_poll env (b, k) = Some (b, ?k)"
    using other by blast
  then show ?thesis
  proof cases
    case 1
    obtain k1 where 1: "echo_byte env 8 ?k = Some k1" "kernel_inv k1" "same_but_io ?k k1" "kbd_state k1 = kb"
      unfolding echo_byte_def using kernel_print_returns[OF assms(1) k(1)] k(3) by metis
    obtain k2 where 2: "echo_byte env 32 k1 = Some k2" "kernel_inv k2" "same_but_io k1 k2" "kbd_state k2 = kb"
      unfolding echo_byte_def using kernel_print_returns[OF assms(1) 1(2)] 1(4) by metis
    obtain k3 where 3: "echo_byte env 8 k2 = Some k3" "kernel_inv k3" "same_but_io k2 k3" "kbd_state k3 = kb"
      unfolding echo_byte_def using kernel_print_returns[OF assms(1) 2(2)] 2(4) by metis
    have "same_but_io k k3" using k(2) 1(3) 2(3) 3(3) same_but_io_trans by blast
    then show ?thesis unfolding poll using \<open>ch = 8 \<and> l \<noteq> []\<close> 1 2 3 kb(2) holds_butlast[OF assms(5)[unfolded b]]
      by (simp add: shell_key_def edit_def)
  next
    case 2
    obtain k1 where 1: "echo_byte env ch ?k = Some k1" "kernel_inv k1" "same_but_io ?k k1" "kbd_state k1 = kb"
      unfolding echo_byte_def using kernel_print_returns[OF assms(1) k(1)] k(3) by metis
    then show ?thesis unfolding poll using 2 assms(4) kb(2) holds_snoc[OF assms(5)[unfolded b]] same_but_io_trans[OF k(2) 1(3)]
      by (simp add: shell_key_def edit_def)
  qed (use k kb assms(5) in auto)
qed

lemma shell_polls_edit:
  assumes "serial_ready env" "kernel_inv k" "keyboard_queue (kbd_state k) = cs @ q" "10 \<notin> set cs" "holds b l"
  shows "\<exists>b' k'. shell_polls env (length cs) (b, k) = Some (b', k') \<and> holds b' (foldl edit l cs) \<and> kernel_inv k' \<and> same_but_io k k' \<and>
    keyboard_queue (kbd_state k') = q"
  using assms(2-)
proof (induction cs arbitrary: k b l)
  case Nil
  then show ?case by auto
next
  case (Cons ch cs)
  obtain b1 k1 where 1: "shell_poll env (b, k) = Some (b1, k1)" "holds b1 (edit l ch)" "kernel_inv k1" "same_but_io k k1"
    "keyboard_queue (kbd_state k1) = cs @ q" using shell_poll_edits[OF assms(1) Cons.prems(1), of ch "cs @ q" b l] Cons.prems by auto
  show ?case using Cons.IH[OF 1(3,5) _ 1(2)] Cons.prems(3) 1(1,4) same_but_io_trans by fastforce
qed

lemma shell_polls_add: "shell_polls env (m + n) st = shell_polls env m st \<bind> shell_polls env n"
  by (induction m arbitrary: st) (auto simp: bind_assoc)

section \<open>Properties\<close>


definition demo_env :: environment where
  "demo_env = \<lparr>env_hw = ready_hardware, env_mem = (\<lambda>_. 0), env_cr0 = 0x80000011, env_cr2 = 0, env_cr3 = 0x200000, env_cr4 = 0x20,
     kernel_end = 0x180000, demo_task_addr = 0x101000, counter_task_addr = 0x102000, idle_test_task_addr = 0x103000\<rparr>"

definition demo_shell :: shell_kernel where
  "demo_shell = kernel.extend demo_kernel \<lparr>ks_pmm = None, ks_vmm_ready = True, DEV_MODE = False\<rparr>
     \<lparr>kbd_state := fold keyboard_put [0x70, 0x74, 8, 0x73, 10] keyboard_statics\<rparr>"

lemma demo_shell_ok:
  "serial_ready demo_env" "kernel_inv demo_shell" "tasks_left demo_shell" "\<not> DEV_MODE demo_shell" "accesses demo_shell = []"
  "keyboard_queue (kbd_state demo_shell) = [0x70, 0x74, 8, 0x73, 10]"
proof -
  note put = kbd.put_inv kbd.content_put keyboard_statics_inv
  have "\<exists>io'. wait_port ready_hardware (COM1 + 5) 0x20 io = Some io'" for io by (simp add: ready_wait)
  then show "serial_ready demo_env" by (simp add: serial_ready_def demo_env_def wait_port_iff)
  show "kernel_inv demo_shell" using demo_kernel_inv(1) by (simp add: kernel_inv_def demo_shell_def demo_kernel_def kernel.defs put)
  show "tasks_left demo_shell" 
    by (simp add: tasks_left_def demo_shell_def demo_kernel_def kernel.defs demo_scheduler_def enable_preemption_def create_kernel_task_def
        new_kernel_def enqueue_new_task_def setup_initial_stack_def arc_new_def demo_sched_def scheduler_new_def demo_statics_def Let_def
        alloc_stack_def fetch_task_id_def split: prod.splits)
  show "\<not> DEV_MODE demo_shell" "accesses demo_shell = []" by (simp_all add: demo_shell_def demo_kernel_def kernel.defs)
  show "keyboard_queue (kbd_state demo_shell) = [0x70, 0x74, 8, 0x73, 10]" by (simp add: demo_shell_def kernel.defs put)
qed


text \<open>
  C10. The line editor. When the keyboard's queue holds a line and its newline, the shell, polling once per key, executes the line the keys
  describe (backspaces applied, control characters and everything beyond 255 characters dropped) exactly once, on a kernel in which only the queue, the screen
  and the serial output have changed, and then prompts for the next line with an empty buffer; what was typed after the newline is still queued.
\<close>
theorem shell_runs_typed_line:
  assumes "serial_ready env" "kernel_inv k" "tasks_left k" "length buf = 256"
    "keyboard_queue (kbd_state k) = cs @ 10 # rest" "10 \<notin> set cs"
  shows "\<exists>k1 k2 k3 buf'. same_but_io k k1 \<and> keyboard_queue (kbd_state k1) = rest \<and>
    execute_command env (string_of_bytes (foldl edit [] cs)) k1 = Some k2 \<and> kernel_inv k2 \<and> shell_prompt env k2 = Some k3 \<and>
    shell_polls env (length cs + 1) ((buf, 0), k) = Some ((buf', 0), k3) \<and> length buf' = 256"
proof -
  have "holds (buf, 0) []" using assms(4) by (simp add: holds_def)
  from shell_polls_edit[OF assms(1,2,5,6) this] obtain b k1 where 1: "shell_polls env (length cs) ((buf, 0), k) = Some (b, k1)"
    "holds b (foldl edit [] cs)" "kernel_inv k1" "same_but_io k k1" "keyboard_queue (kbd_state k1) = 10 # rest" by blast
  define l where "l = foldl edit [] cs"
  obtain buf1 where b: "b = (buf1, length l)" "length buf1 = 256" "take (length l) buf1 = l" using 1(2) by (cases b) (auto simp: holds_def l_def)
  obtain kb where kb: "keyboard_read_char (kbd_state k1) = (10, kb)" "keyboard_queue kb = rest" "keyboard_inv kb" "keyboard_has_data (kbd_state k1)"
    using kbd.get_first[OF _ 1(5)] kbd.get_inv[of "kbd_state k1"] kbd.has_data_iff[of "kbd_state k1"] 1(3,5)
    by (cases "keyboard_read_char (kbd_state k1)") (auto simp: kernel_inv_def)
  let ?k = "k1\<lparr>kbd_state := kb\<rparr>"
  have k: "kernel_inv ?k" "same_but_io k1 ?k" using 1(3) kb(3) by (auto simp: kernel_inv_def)
  obtain k2 where 2: "kprintln env [] ?k = Some k2" "kernel_inv k2" "same_but_io ?k k2" "kbd_state k2 = kb"
    unfolding kprintln_def kprint_def using kernel_print_returns[OF assms(1) k(1)] by force
  have same: "same_but_io k k2" using 1(4) k(2) 2(3) same_but_io_trans by blast
  obtain k3 where 3: "execute_command env (string_of_bytes l) k2 = Some k3" "kernel_inv k3"
    using runs_execute_command[OF assms(1) 2(2)] same_but_io_tasks_left[OF same] assms(3) by (auto simp: runs_def)
  obtain k4 where 4: "shell_prompt env k3 = Some k4"
    using shell_prompt_returns[OF assms(1) 3(2)] by blast
  have "shell_poll env (b, k1) = Some ((buf1[length l := 0, 0 := 0], 0), k4)"
    using kb 2(1) 3(1) 4 b by (simp add: shell_poll_def shell_key_def shell_start_def)
  then have "shell_polls env (length cs + 1) ((buf, 0), k) = Some ((buf1[length l := 0, 0 := 0], 0), k4)"
    unfolding shell_polls_add using 1(1) by simp
  then show ?thesis using same 2(4) kb(2) 3 4 b(2) unfolding l_def by fastforce
qed

lemma shell_returns:
  assumes "serial_ready env" "kernel_inv k"
  shows "\<exists>k'. shell env k = Some ((replicate 256 0, 0), k')"
proof -
  have "runs {COM1} k (kprintlns env [[], ''DeltaOS Shell v0.2.0'', ''Type '' @ [CHR 0x27] @ ''help'' @ [CHR 0x27] @ '' for available commands.'', []] k)"
    using assms by (intro runs_kprintlns) simp_all
  then obtain k1 where k1: "kprintlns env [[], ''DeltaOS Shell v0.2.0'', ''Type '' @ [CHR 0x27] @ ''help'' @ [CHR 0x27] @ '' for available commands.'', []] k = Some k1"
    "kernel_inv k1" unfolding runs_def by blast
  obtain k2 where "shell_prompt env k1 = Some k2" using shell_prompt_returns[OF assms(1) k1(2)] by blast
  moreover have "(replicate 256 0)[0 := 0 :: u8] = replicate 256 0" by (rule list_eq_iff_nth_eq[THEN iffD2]) (auto simp: nth_list_update)
  ultimately show ?thesis unfolding shell_def shell_start_def k1(1) by simp
qed

theorem shell_runs_typed_line_witness:
  "\<exists>k1 k2 k3 buf'. same_but_io demo_shell k1 \<and> execute_command demo_env ''ps'' k1 = Some k2 \<and>
     shell_polls demo_env 5 ((replicate 256 0, 0), demo_shell) = Some ((buf', 0), k3)"
proof -
  have "keyboard_queue (kbd_state demo_shell) = [0x70, 0x74, 8, 0x73] @ 10 # []" using demo_shell_ok(6) by simp
  from shell_runs_typed_line[OF demo_shell_ok(1-3) length_replicate this]
  have "\<exists>k1 k2 k3 buf'. same_but_io demo_shell k1 \<and> execute_command demo_env (string_of_bytes [0x70, 0x73]) k1 = Some k2 \<and>
     shell_polls demo_env (length [0x70, 0x74, 8, 0x73 :: u8] + 1) ((replicate 256 0, 0), demo_shell) = Some ((buf', 0), k3)"
    by (fastforce simp del: shell_polls.simps simp: edit_def)
  moreover have "string_of_bytes [0x70, 0x73] = ''ps''" by (simp add: string_of_bytes_def char_of_def bit_iff_odd)
  ultimately show ?thesis by (simp add: numeral_eq_Suc del: shell_polls.simps)
qed

end
