(* ===== verification/Heap.thy ===== *)
theory Heap
  imports Prelude "HOL-Library.Multiset"
begin

text \<open>
  The kernel heap (\<open>src/src/memory/heap.rs\<close>): ten slab classes of block sizes 8 to 4096 bytes,
  each with a stack of free blocks, over a bump pointer that supplies new pages and serves the
  larger requests.

  An access of an array outside its bounds panics in Rust; the operations return an \<open>option\<close>
  whose value \<open>None\<close> is that panic. The null pointer is \<open>0\<close>. The memory is threaded through
  because new pages are cleared.
\<close>

section \<open>State\<close>

definition SLAB_MIN_SIZE :: usize where "SLAB_MIN_SIZE = 8"
definition SLAB_MAX_SIZE :: usize where "SLAB_MAX_SIZE = 4096"
definition SLAB_CLASSES :: usize where "SLAB_CLASSES = 10"
definition MAX_BLOCKS_PER_CLASS :: usize where "MAX_BLOCKS_PER_CLASS = 1024"

record SlabClass =
  block_size :: usize
  free_list :: "usize list"
  free_count :: usize
  total_count :: usize
  next_page :: usize

record SlabAllocator =
  heap_start :: usize
  heap_size :: usize
  bump_offset :: usize
  slabs :: "SlabClass list"

definition slab_class_new :: "usize \<Rightarrow> SlabClass" where
  "slab_class_new bs =
     \<lparr>block_size = bs, free_list = replicate MAX_BLOCKS_PER_CLASS 0, free_count = 0,
      total_count = 0, next_page = 0\<rparr>"

definition make_slab :: "usize \<Rightarrow> SlabClass" where
  "make_slab idx = slab_class_new (SLAB_MIN_SIZE * 2 ^ idx)"

definition slab_allocator_new :: SlabAllocator where
  "slab_allocator_new =
     \<lparr>heap_start = 0, heap_size = 0, bump_offset = 0,
      slabs = [make_slab 0, make_slab 1, make_slab 2, make_slab 3, make_slab 4,
               make_slab 5, make_slab 6, make_slab 7, make_slab 8, make_slab 9]\<rparr>"

section \<open>Initialisation\<close>

fun init_blocks :: "usize \<Rightarrow> usize list \<Rightarrow> SlabClass \<Rightarrow> SlabClass option" where
  "init_blocks page_addr [] s = Some s"
| "init_blocks page_addr (j # js) s =
     (if j < length (free_list s)
      then init_blocks page_addr js
             (s\<lparr>free_list := (free_list s)[j := usize_add page_addr (usize_mul j (block_size s))],
                free_count := usize_add (free_count s) 1,
                total_count := usize_add (total_count s) 1\<rparr>)
      else None)"

fun init_classes ::
  "usize list \<Rightarrow> usize \<Rightarrow> SlabAllocator \<times> pmem \<Rightarrow> (usize \<times> SlabAllocator \<times> pmem) option" where
  "init_classes [] offset (h, m) = Some (offset, h, m)"
| "init_classes (i # is) offset (h, m) =
     (if i < length (slabs h) then
        let page_addr = usize_add (heap_start h) offset;
            slab = (slabs h ! i)\<lparr>next_page := page_addr, free_count := 0, total_count := 0\<rparr>;
            m1 = write_bytes m page_addr 0 4096
        in if block_size slab = 0 then None
           else let blocks_per_page = 4096 div block_size slab
                in case init_blocks page_addr [0..<min blocks_per_page MAX_BLOCKS_PER_CLASS] slab of
                     None \<Rightarrow> None
                   | Some slab1 \<Rightarrow> init_classes is (usize_add offset 4096)
                                   (h\<lparr>slabs := (slabs h)[i := slab1]\<rparr>, m1)
      else None)"

text \<open>\<open>init\<close> works on the two statics \<open>HEAP_INITIALIZED\<close> and \<open>KERNEL_HEAP\<close>.\<close>

definition heap_init ::
  "usize \<Rightarrow> usize \<Rightarrow> bool \<times> SlabAllocator \<times> pmem \<Rightarrow> (bool \<times> SlabAllocator \<times> pmem) option" where
  "heap_init start sz = (\<lambda>(initialized, h, m).
     if initialized then Some (initialized, h, m)
     else case init_classes [0..<SLAB_CLASSES] 0
                 (h\<lparr>heap_start := start, heap_size := sz, bump_offset := 0\<rparr>, m) of
            None \<Rightarrow> None
          | Some (offset, h1, m1) \<Rightarrow> Some (True, h1\<lparr>bump_offset := offset\<rparr>, m1))"

section \<open>Allocation and release\<close>

definition find_slab_class :: "usize \<Rightarrow> usize option" where
  "find_slab_class sz =
     (if sz > SLAB_MAX_SIZE \<or> sz = 0 then None
      else find (\<lambda>i. sz \<le> SLAB_MIN_SIZE * 2 ^ i) [0..<SLAB_CLASSES])"

fun fill_blocks :: "usize \<Rightarrow> usize list \<Rightarrow> SlabClass \<Rightarrow> usize \<Rightarrow> (SlabClass \<times> usize) option" where
  "fill_blocks new_page [] s added = Some (s, added)"
| "fill_blocks new_page (j # js) s added =
     (let k = usize_add (free_count s) added in
      if k < length (free_list s)
      then fill_blocks new_page js
             (s\<lparr>free_list := (free_list s)[k := usize_add new_page (usize_mul j (block_size s))],
                total_count := usize_add (total_count s) 1\<rparr>)
             (usize_add added 1)
      else None)"

definition pop_free :: "SlabClass \<Rightarrow> (usize \<times> SlabClass) option" where
  "pop_free s =
     (let fc = usize_sub (free_count s) 1 in
      if fc < length (free_list s) then Some (free_list s ! fc, s\<lparr>free_count := fc\<rparr>) else None)"

definition alloc_from_slab ::
  "usize \<Rightarrow> SlabAllocator \<times> pmem \<Rightarrow> (usize \<times> SlabAllocator \<times> pmem) option" where
  "alloc_from_slab class_idx = (\<lambda>(h, m).
     if class_idx \<ge> length (slabs h) then None
     else let slab = slabs h ! class_idx in
       if free_count slab > 0
       then map_option (\<lambda>(ptr, slab1). (ptr, h\<lparr>slabs := (slabs h)[class_idx := slab1]\<rparr>, m))
              (pop_free slab)
       else if usize_add (bump_offset h) 4096 > heap_size h then Some (0, h, m)
       else let new_page = usize_add (heap_start h) (bump_offset h);
                h1 = h\<lparr>bump_offset := usize_add (bump_offset h) 4096\<rparr>;
                m1 = write_bytes m new_page 0 4096
            in if block_size slab = 0 then None
               else let blocks_per_page = 4096 div block_size slab;
                        n = min blocks_per_page (usize_sub MAX_BLOCKS_PER_CLASS (total_count slab))
                    in case fill_blocks new_page [0..<n] slab 0 of
                         None \<Rightarrow> None
                       | Some (slab1, added) \<Rightarrow>
                           let slab2 = slab1\<lparr>free_count := usize_add (free_count slab1) added\<rparr> in
                           if free_count slab2 > 0
                           then map_option
                                  (\<lambda>(ptr, slab3). (ptr, h1\<lparr>slabs := (slabs h1)[class_idx := slab3]\<rparr>, m1))
                                  (pop_free slab2)
                           else Some (0, h1\<lparr>slabs := (slabs h1)[class_idx := slab2]\<rparr>, m1))"

text \<open>Rounding up with the mask \<open>!(align - 1)\<close>, on 64-bit words.\<close>

definition usize_and_not :: "usize \<Rightarrow> usize \<Rightarrow> usize" where
  "usize_and_not a b = unat ((word_of_nat a :: u64) AND NOT (word_of_nat b))"

definition alloc_bump :: "usize \<Rightarrow> usize \<Rightarrow> SlabAllocator \<Rightarrow> usize \<times> SlabAllocator" where
  "alloc_bump sz align h =
     (let aligned_offset = usize_and_not (usize_sub (usize_add (bump_offset h) align) 1)
                                         (usize_sub align 1);
          new_offset = usize_add aligned_offset sz
      in if new_offset > heap_size h then (0, h)
         else (usize_add (heap_start h) aligned_offset, h\<lparr>bump_offset := new_offset\<rparr>))"

definition free_to_slab :: "usize \<Rightarrow> usize \<Rightarrow> SlabAllocator \<Rightarrow> SlabAllocator option" where
  "free_to_slab ptr class_idx h =
     (if class_idx \<ge> length (slabs h) then None
      else let slab = slabs h ! class_idx in
        if free_count slab < MAX_BLOCKS_PER_CLASS
        then if free_count slab < length (free_list slab)
             then Some (h\<lparr>slabs := (slabs h)[class_idx :=
                    slab\<lparr>free_list := (free_list slab)[free_count slab := ptr],
                         free_count := usize_add (free_count slab) 1\<rparr>]\<rparr>)
             else None
        else Some h)"

definition aligned_size :: "usize \<Rightarrow> usize \<Rightarrow> usize" where
  "aligned_size sz align = (if sz < align then align else sz)"

definition heap_alloc ::
  "usize \<Rightarrow> usize \<Rightarrow> SlabAllocator \<times> pmem \<Rightarrow> (usize \<times> SlabAllocator \<times> pmem) option" where
  "heap_alloc sz align = (\<lambda>(h, m).
     let bump = (let (ptr, h1) = alloc_bump (aligned_size sz align) align h in Some (ptr, h1, m))
     in case find_slab_class (aligned_size sz align) of
          Some class_idx \<Rightarrow>
            if class_idx \<ge> length (slabs h) then None
            else if block_size (slabs h ! class_idx) \<ge> align then alloc_from_slab class_idx (h, m)
            else bump
        | None \<Rightarrow> bump)"

definition heap_dealloc :: "usize \<Rightarrow> usize \<Rightarrow> usize \<Rightarrow> SlabAllocator \<Rightarrow> SlabAllocator option" where
  "heap_dealloc ptr sz align h =
     (case find_slab_class (aligned_size sz align) of
        Some class_idx \<Rightarrow> free_to_slab ptr class_idx h
      | None \<Rightarrow> Some h)"

record HeapStats =
  stats_heap_start :: usize
  stats_heap_size :: usize
  stats_bump_used :: usize
  slab_used :: "usize list"
  slab_free :: "usize list"
  slab_block_size :: "usize list"

definition heap_stats :: "SlabAllocator \<Rightarrow> HeapStats" where
  "heap_stats h =
     \<lparr>stats_heap_start = heap_start h, stats_heap_size = heap_size h,
      stats_bump_used = bump_offset h,
      slab_used = map (\<lambda>i. usize_sub (total_count (slabs h ! i)) (free_count (slabs h ! i)))
                    [0..<SLAB_CLASSES],
      slab_free = map (\<lambda>i. free_count (slabs h ! i)) [0..<SLAB_CLASSES],
      slab_block_size = map (\<lambda>i. block_size (slabs h ! i)) [0..<SLAB_CLASSES]\<rparr>"


section \<open>Specification vocabulary\<close>

text \<open>
  A block is a start address with a length. The free blocks of the allocator and the blocks in
  use are collected in one multiset; that no two of them overlap means that every address is
  covered at most once.
\<close>

type_synonym block = "usize \<times> usize"
type_synonym layout = "usize \<times> usize"
type_synonym allocation = "usize \<times> layout"

definition covers :: "usize \<Rightarrow> block \<Rightarrow> bool" where
  "covers x b \<longleftrightarrow> fst b \<le> x \<and> x < fst b + snd b"

definition cover :: "block multiset \<Rightarrow> usize \<Rightarrow> nat" where
  "cover B x = size (filter_mset (covers x) B)"

definition within :: "usize \<Rightarrow> usize \<Rightarrow> block multiset \<Rightarrow> bool" where
  "within lo hi B \<longleftrightarrow> (\<forall>b \<in># B. lo \<le> fst b \<and> fst b + snd b \<le> hi \<and> 0 < snd b)"

definition class_blocks :: "SlabClass \<Rightarrow> block multiset" where
  "class_blocks s = image_mset (\<lambda>a. (a, block_size s)) (mset (take (free_count s) (free_list s)))"

definition free_blocks :: "SlabAllocator \<Rightarrow> block multiset" where
  "free_blocks h = sum_list (map class_blocks (slabs h))"

definition layout_class :: "layout \<Rightarrow> usize option" where
  "layout_class l = find_slab_class (aligned_size (fst l) (snd l))"

definition layout_extent :: "layout \<Rightarrow> usize" where
  "layout_extent l =
     (case layout_class l of Some i \<Rightarrow> 8 * 2 ^ i | None \<Rightarrow> aligned_size (fst l) (snd l))"

definition live_block :: "allocation \<Rightarrow> block" where
  "live_block l = (fst l, layout_extent (snd l))"

definition all_blocks :: "SlabAllocator \<Rightarrow> allocation multiset \<Rightarrow> block multiset" where
  "all_blocks h L = free_blocks h + image_mset live_block L"

definition live_in_class :: "allocation multiset \<Rightarrow> usize \<Rightarrow> nat" where
  "live_in_class L i = size (filter_mset (\<lambda>l. layout_class (snd l) = Some i) L)"

definition slab_wf :: "usize \<Rightarrow> SlabClass \<Rightarrow> bool" where
  "slab_wf i s \<longleftrightarrow> block_size s = 8 * 2 ^ i \<and> length (free_list s) = 1024 \<and>
     free_count s \<le> total_count s \<and> total_count s \<le> 1024"

definition heap_wf :: "SlabAllocator \<Rightarrow> bool" where
  "heap_wf h \<longleftrightarrow> length (slabs h) = 10 \<and> (\<forall>i < 10. slab_wf i (slabs h ! i)) \<and>
     0 < heap_start h \<and> heap_start h + heap_size h + 4096 < 2 ^ 62 \<and> bump_offset h \<le> heap_size h"

definition heap_inv :: "SlabAllocator \<Rightarrow> allocation multiset \<Rightarrow> bool" where
  "heap_inv h L \<longleftrightarrow> heap_wf h \<and>
     within (heap_start h) (heap_start h + bump_offset h) (all_blocks h L) \<and>
     (\<forall>x. cover (all_blocks h L) x \<le> 1) \<and>
     (\<forall>i < 10. free_count (slabs h ! i) + live_in_class L i = total_count (slabs h ! i))"

section \<open>Coverage\<close>

named_theorems heap_simps \<open>evaluation of the heap vocabulary\<close>

lemma cover_simps [heap_simps]:
  "cover {#} x = 0"
  "cover (add_mset b B) x = (if covers x b then 1 else 0) + cover B x"
  "cover (A + B) x = cover A x + cover B x"
  by (simp_all add: cover_def)

lemma within_simps [heap_simps]:
  "within lo hi {#}"
  "within lo hi (add_mset b B) \<longleftrightarrow>
     lo \<le> fst b \<and> fst b + snd b \<le> hi \<and> 0 < snd b \<and> within lo hi B"
  "within lo hi (A + B) \<longleftrightarrow> within lo hi A \<and> within lo hi B"
  by (auto simp: within_def)

lemma within_mono: "within lo hi B \<Longrightarrow> lo' \<le> lo \<Longrightarrow> hi \<le> hi' \<Longrightarrow> within lo' hi' B"
  by (fastforce simp: within_def)

lemma cover_outside:
  assumes "within lo hi B" "x < lo \<or> hi \<le> x"
  shows "cover B x = 0"
proof -
  have "filter_mset (covers x) B = {#}"
    using assms by (fastforce simp: within_def covers_def filter_mset_eq_conv)
  then show ?thesis by (simp add: cover_def)
qed

text \<open>Blocks in a new region do not disturb the old ones.\<close>

lemma cover_extend:
  assumes "within lo mid B" "\<forall>x. cover B x \<le> 1" "within mid hi N" "\<forall>x. cover N x \<le> 1"
  shows "\<forall>x. cover (B + N) x \<le> 1"
proof
  fix x
  show "cover (B + N) x \<le> 1"
    using assms cover_outside[OF assms(1), of x] cover_outside[OF assms(3), of x]
    by (cases "mid \<le> x") (auto simp: cover_simps)
qed

definition page_blocks :: "usize \<Rightarrow> usize \<Rightarrow> usize \<Rightarrow> block multiset" where
  "page_blocks page bs n = image_mset (\<lambda>j. (page + j * bs, bs)) (mset [0..<n])"

lemma page_blocks_ok:
  assumes "0 < bs"
  shows "within page (page + n * bs) (page_blocks page bs n) \<and> (\<forall>x. cover (page_blocks page bs n) x \<le> 1)"
proof (induction n)
  case 0
  then show ?case by (simp add: page_blocks_def cover_simps within_simps)
next
  case (Suc n)
  have eq: "page_blocks page bs (Suc n) = page_blocks page bs n + {#(page + n * bs, bs)#}"
    by (simp add: page_blocks_def)
  have new: "within (page + n * bs) (page + Suc n * bs) {#(page + n * bs, bs)#}"
    using assms by (simp add: within_simps)
  have "\<forall>x. cover {#(page + n * bs, bs)#} x \<le> 1" by (simp add: cover_simps)
  then show ?case
    unfolding eq using Suc cover_extend[OF _ _ new, of page "page_blocks page bs n"] new
    by (auto simp: within_simps elim: within_mono)
qed

section \<open>Updating one class\<close>

lemma sum_list_upd_mset:
  fixes ns :: "'a multiset list"
  assumes "k < length ns"
  shows "sum_list (ns[k := x]) + ns ! k = sum_list ns + x"
  using assms by (induction ns arbitrary: k) (auto split: nat.splits simp: ac_simps)

lemma free_blocks_upd:
  assumes "i < length (slabs h)"
  shows "free_blocks (h\<lparr>slabs := (slabs h)[i := s]\<rparr>) + class_blocks (slabs h ! i)
       = free_blocks h + class_blocks s"
  using sum_list_upd_mset[of i "map class_blocks (slabs h)" "class_blocks s"] assms
  by (simp add: free_blocks_def map_update)

lemma class_blocks_pop:
  assumes "0 < free_count s" "free_count s \<le> length (free_list s)"
  shows "class_blocks s = add_mset (free_list s ! (free_count s - 1), block_size s)
           (class_blocks (s\<lparr>free_count := free_count s - 1\<rparr>))"
proof -
  have "take (free_count s) (free_list s) =
      take (free_count s - 1) (free_list s) @ [free_list s ! (free_count s - 1)]"
    using assms by (metis Suc_pred' less_le_trans diff_less less_numeral_extra(1) take_Suc_conv_app_nth)
  then show ?thesis by (simp add: class_blocks_def)
qed

lemma class_blocks_push:
  assumes "free_count s < length (free_list s)"
  shows "class_blocks (s\<lparr>free_list := (free_list s)[free_count s := ptr],
           free_count := free_count s + 1\<rparr>) = add_mset (ptr, block_size s) (class_blocks s)"
  using assms by (simp add: class_blocks_def take_Suc_conv_app_nth)


section \<open>Filling a page with blocks\<close>

lemma fill_blocks_spec:
  assumes "free_count s = 0" "a \<le> n" "n \<le> length (free_list s)" "n * block_size s \<le> 4096"
    and "new_page + 4096 < USIZE" "total_count s + (n - a) < USIZE" "length (free_list s) \<le> 1024"
  shows "\<exists>fl. fill_blocks new_page [a..<n] s a =
      Some (s\<lparr>free_list := fl, total_count := total_count s + (n - a)\<rparr>, n) \<and>
    length fl = length (free_list s) \<and>
    take n fl = take a (free_list s) @ map (\<lambda>j. new_page + j * block_size s) [a..<n]"
  using assms
proof (induction "n - a" arbitrary: a s)
  case 0
  then show ?case by (auto intro!: exI[of _ "free_list s"])
next
  case (Suc d)
  then have lt: "a < n" by simp
  have "a * block_size s \<le> n * block_size s" using lt by (intro mult_le_mono1) simp
  then have "a * block_size s \<le> 4096" using Suc.prems(4) by linarith
  then have addr: "usize_add new_page (usize_mul a (block_size s)) = new_page + a * block_size s"
    using Suc.prems(5) by simp
  let ?s1 = "s\<lparr>free_list := (free_list s)[a := new_page + a * block_size s],
               total_count := total_count s + 1\<rparr>"
  have "usize_add (total_count s) 1 = total_count s + 1" "usize_add a 1 = Suc a"
    "usize_add 0 a = a" "a < length (free_list s)"
    using Suc.prems(3,6,7) lt by simp_all
  then have step: "fill_blocks new_page [a..<n] s a = fill_blocks new_page [Suc a..<n] ?s1 (Suc a)"
    using Suc.prems(1) upt_conv_Cons[OF lt] addr by (simp add: Let_def)
  have "\<exists>fl. fill_blocks new_page [Suc a..<n] ?s1 (Suc a) =
      Some (?s1\<lparr>free_list := fl, total_count := total_count ?s1 + (n - Suc a)\<rparr>, n) \<and>
    length fl = length (free_list ?s1) \<and>
    take n fl = take (Suc a) (free_list ?s1) @ map (\<lambda>j. new_page + j * block_size ?s1) [Suc a..<n]"
    using Suc.hyps(2) Suc.prems lt by (intro Suc.hyps(1)) simp_all
  then obtain fl where fl: "fill_blocks new_page [Suc a..<n] ?s1 (Suc a) =
      Some (?s1\<lparr>free_list := fl, total_count := total_count ?s1 + (n - Suc a)\<rparr>, n)"
    "length fl = length (free_list ?s1)"
    "take n fl = take (Suc a) (free_list ?s1) @ map (\<lambda>j. new_page + j * block_size ?s1) [Suc a..<n]"
    by blast
  have "take (Suc a) ((free_list s)[a := new_page + a * block_size s]) =
      take a (free_list s) @ [new_page + a * block_size s]"
    using Suc.prems(3) lt by (simp add: take_Suc_conv_app_nth)
  then show ?case
    using fl step lt upt_conv_Cons[OF lt] by (intro exI[of _ fl]) (auto simp: Suc_diff_Suc)
qed

lemma class_blocks_filled:
  assumes "take n fl = map (\<lambda>j. page + j * bs) [0..<n]"
  shows "class_blocks (s\<lparr>free_list := fl, total_count := t, free_count := n, block_size := bs\<rparr>)
       = page_blocks page bs n"
  using assms by (simp add: class_blocks_def page_blocks_def image_mset.compositionality o_def)

section \<open>Slab classes of sizes\<close>

lemma find_slab_class_Some:
  assumes "find_slab_class sz = Some i"
  shows "i < 10" "sz \<le> 8 * 2 ^ i" "\<forall>j < i. 8 * 2 ^ j < sz" "0 < sz" "sz \<le> 4096"
  using assms
  by (auto simp: find_slab_class_def find_Some_iff SLAB_CLASSES_def SLAB_MIN_SIZE_def SLAB_MAX_SIZE_def
      not_le split: if_splits)

lemma find_slab_class_None:
  "find_slab_class sz = None \<longleftrightarrow> sz = 0 \<or> 4096 < sz"
proof -
  have "\<exists>i \<in> set [0..<10]. sz \<le> 8 * 2 ^ i" if "sz \<le> 4096"
    using that by (intro bexI[of _ 9]) simp_all
  then show ?thesis
    by (auto simp: find_slab_class_def find_None_iff SLAB_CLASSES_def SLAB_MIN_SIZE_def SLAB_MAX_SIZE_def)
      blast
qed

lemma class_size_pos: "0 < (8::nat) * 2 ^ i" by simp

lemma class_size_le_page: "i < 10 \<Longrightarrow> (8::nat) * 2 ^ i \<le> 4096"
proof -
  assume "i < 10"
  then have "(2::nat) ^ i \<le> 2 ^ 9" by (intro power_increasing) simp_all
  then show ?thesis by simp
qed

lemma aligned_size_ge: "sz \<le> aligned_size sz align" "align \<le> aligned_size sz align"
  by (simp_all add: aligned_size_def)

lemma layout_extent_ge: "fst l \<le> layout_extent l" "snd l \<le> layout_extent l"
proof -
  have "aligned_size (fst l) (snd l) \<le> layout_extent l"
    using find_slab_class_Some(2)
    by (auto simp: layout_extent_def layout_class_def split: option.splits)
  then show "fst l \<le> layout_extent l" "snd l \<le> layout_extent l"
    using aligned_size_ge[of "fst l" "snd l"] aligned_size_ge[where align = "snd l" and sz = "fst l"]
    by linarith+
qed

section \<open>Allocation from a slab\<close>

lemma heap_wf_class:
  assumes "heap_wf h" "i < 10"
  shows "block_size (slabs h ! i) = 8 * 2 ^ i" "length (free_list (slabs h ! i)) = 1024"
    "free_count (slabs h ! i) \<le> total_count (slabs h ! i)" "total_count (slabs h ! i) \<le> 1024"
    "i < length (slabs h)"
  using assms by (auto simp: heap_wf_def slab_wf_def)

lemma pop_free_Some:
  assumes "slab_wf i s" "0 < free_count s"
  shows "pop_free s = Some (free_list s ! (free_count s - 1), s\<lparr>free_count := free_count s - 1\<rparr>)"
  using assms by (auto simp: pop_free_def slab_wf_def Let_def)

definition new_page_state :: "usize \<Rightarrow> SlabAllocator \<Rightarrow> SlabAllocator \<Rightarrow> bool" where
  "new_page_state i h h1 \<longleftrightarrow>
     (\<exists>s n. h1 = h\<lparr>bump_offset := bump_offset h + 4096, slabs := (slabs h)[i := s]\<rparr> \<and> slab_wf i s \<and>
        class_blocks s = page_blocks (heap_start h + bump_offset h) (8 * 2 ^ i) n \<and>
        n = min (4096 div (8 * 2 ^ i)) (1024 - total_count (slabs h ! i)) \<and>
        free_count s = n \<and> n * (8 * 2 ^ i) \<le> 4096 \<and>
        total_count s = total_count (slabs h ! i) + n)"


lemma alloc_from_slab_cases:
  assumes wf: "heap_wf h" and i: "i < 10"
  obtains (pop) "0 < free_count (slabs h ! i)"
      "alloc_from_slab i (h, m) =
         Some (free_list (slabs h ! i) ! (free_count (slabs h ! i) - 1),
           h\<lparr>slabs := (slabs h)[i := (slabs h ! i)\<lparr>free_count := free_count (slabs h ! i) - 1\<rparr>]\<rparr>, m)"
    | (full) "free_count (slabs h ! i) = 0" "heap_size h < bump_offset h + 4096"
      "alloc_from_slab i (h, m) = Some (0, h, m)"
    | (page) h1 m1 where "free_count (slabs h ! i) = 0" "bump_offset h + 4096 \<le> heap_size h"
      "new_page_state i h h1"
      "alloc_from_slab i (h, m) =
         (if 0 < free_count (slabs h1 ! i)
          then Some (free_list (slabs h1 ! i) ! (free_count (slabs h1 ! i) - 1),
                 h1\<lparr>slabs := (slabs h1)[i := (slabs h1 ! i)\<lparr>free_count := free_count (slabs h1 ! i) - 1\<rparr>]\<rparr>, m1)
          else Some (0, h1, m1))"
proof -
  let ?s = "slabs h ! i"
  note c = heap_wf_class[OF wf i]
  have swf: "slab_wf i ?s" using wf i by (simp add: heap_wf_def)
  have bump: "usize_add (bump_offset h) 4096 = bump_offset h + 4096"
    "usize_add (heap_start h) (bump_offset h) = heap_start h + bump_offset h"
    using wf by (simp_all add: heap_wf_def)
  consider "0 < free_count ?s" | "free_count ?s = 0" "heap_size h < bump_offset h + 4096"
    | "free_count ?s = 0" "bump_offset h + 4096 \<le> heap_size h"
    by linarith
  then show ?thesis
  proof cases
    case 1
    then show ?thesis using c pop_free_Some[OF swf] by (intro pop) (simp_all add: alloc_from_slab_def Let_def)
  next
    case 2
    then show ?thesis using c bump by (intro full) (simp_all add: alloc_from_slab_def Let_def)
  next
    case 3
    let ?np = "heap_start h + bump_offset h"
    define n where "n = min (4096 div (8 * 2 ^ i)) (1024 - total_count ?s)"
    let ?m1 = "write_bytes m ?np 0 4096"
    have "4096 div (8 * 2 ^ i) * (8 * 2 ^ i) \<le> (4096::nat)" by (rule div_times_less_eq_dividend)
    moreover have "n * (8 * 2 ^ i) \<le> 4096 div (8 * 2 ^ i) * (8 * 2 ^ i)"
      by (intro mult_le_mono1) (simp add: n_def)
    ultimately have n4096: "n * (8 * 2 ^ i) \<le> 4096" by linarith
    have n: "min (4096 div block_size ?s) (usize_sub MAX_BLOCKS_PER_CLASS (total_count ?s)) = n"
      using c(1,4) by (simp add: MAX_BLOCKS_PER_CLASS_def n_def)
    have "n \<le> 1024 - total_count ?s" by (simp add: n_def)
    then have n1024: "n \<le> 1024" "total_count ?s + n \<le> 1024" using c(4) by linarith+
    obtain fl where fl: "fill_blocks ?np [0..<n] ?s 0 =
        Some (?s\<lparr>free_list := fl, total_count := total_count ?s + n\<rparr>, n)"
      "length fl = 1024" "take n fl = map (\<lambda>j. ?np + j * (8 * 2 ^ i)) [0..<n]"
      using fill_blocks_spec[of ?s 0 n ?np] 3 c wf n4096 n1024 by (auto simp: heap_wf_def)
    have n0: "usize_add 0 n = n" using n1024 by simp
    let ?s2 = "?s\<lparr>free_list := fl, total_count := total_count ?s + n, free_count := n\<rparr>"
    let ?h1 = "h\<lparr>bump_offset := bump_offset h + 4096, slabs := (slabs h)[i := ?s2]\<rparr>"
    have s2: "slab_wf i ?s2" using c fl(2) n1024 by (simp add: slab_wf_def)
    have "?s2 = ?s\<lparr>free_list := fl, total_count := total_count ?s + n, free_count := n, block_size := 8 * 2 ^ i\<rparr>"
      using c(1) by simp
    then have "class_blocks ?s2 = page_blocks ?np (8 * 2 ^ i) n"
      using class_blocks_filled[OF fl(3)] by metis
    then have "new_page_state i h ?h1"
      unfolding new_page_state_def using s2 n4096 n_def by (intro exI[of _ ?s2] exI[of _ n]) simp
    moreover have "alloc_from_slab i (h, m) =
         (if 0 < free_count (slabs ?h1 ! i)
          then Some (free_list (slabs ?h1 ! i) ! (free_count (slabs ?h1 ! i) - 1),
                 ?h1\<lparr>slabs := (slabs ?h1)[i := (slabs ?h1 ! i)\<lparr>free_count := free_count (slabs ?h1 ! i) - 1\<rparr>]\<rparr>, ?m1)
          else Some (0, ?h1, ?m1))"
      using 3 c bump n n0 fl(1) pop_free_Some[OF s2] by (simp add: alloc_from_slab_def Let_def)
    ultimately show ?thesis using 3 page by blast
  qed
qed


section \<open>The slab path keeps the invariant\<close>

lemma live_in_class_add:
  "live_in_class (add_mset (a, l) L) i = (if layout_class l = Some i then 1 else 0) + live_in_class L i"
  by (simp add: live_in_class_def)

lemma heap_wf_upd:
  assumes "heap_wf h" "i < 10" "slab_wf i s"
  shows "heap_wf (h\<lparr>slabs := (slabs h)[i := s]\<rparr>)"
  using assms by (auto simp: heap_wf_def nth_list_update)

lemma pop_keeps_inv:
  assumes inv: "heap_inv h L" and i: "i < 10" and l: "layout_class l = Some i"
    and pos: "0 < free_count (slabs h ! i)"
  defines "s \<equiv> slabs h ! i"
  defines "a \<equiv> free_list s ! (free_count s - 1)"
  defines "h' \<equiv> h\<lparr>slabs := (slabs h)[i := s\<lparr>free_count := free_count s - 1\<rparr>]\<rparr>"
  shows "heap_inv h' (add_mset (a, l) L)" "a \<noteq> 0"
proof -
  have wf: "heap_wf h" using inv by (simp add: heap_inv_def)
  note c = heap_wf_class[OF wf i, folded s_def]
  have fb: "free_blocks h' + class_blocks s = free_blocks h + class_blocks (s\<lparr>free_count := free_count s - 1\<rparr>)"
    unfolding h'_def s_def using c(5) by (intro free_blocks_upd)
  have "class_blocks s = add_mset (a, 8 * 2 ^ i) (class_blocks (s\<lparr>free_count := free_count s - 1\<rparr>))"
    using class_blocks_pop[of s] pos c by (simp add: a_def s_def)
  then have "free_blocks h = add_mset (a, 8 * 2 ^ i) (free_blocks h')" using fb by simp
  then have blocks: "all_blocks h' (add_mset (a, l) L) = all_blocks h L"
    using l by (simp add: all_blocks_def live_block_def layout_extent_def)
  have "within (heap_start h) (heap_start h + bump_offset h) (all_blocks h' (add_mset (a, l) L))"
    using inv blocks by (simp add: heap_inv_def)
  then show "a \<noteq> 0"
    using wf by (auto simp: all_blocks_def live_block_def within_simps heap_wf_def)
  have "heap_wf h'"
    unfolding h'_def using wf i c pos by (intro heap_wf_upd) (auto simp: slab_wf_def s_def)
  moreover have "\<forall>k < 10. free_count (slabs h' ! k) + live_in_class (add_mset (a, l) L) k
      = total_count (slabs h' ! k)"
    using inv i pos c(5) l by (auto simp: heap_inv_def h'_def s_def nth_list_update live_in_class_add)
  ultimately show "heap_inv h' (add_mset (a, l) L)"
    using inv blocks by (simp add: heap_inv_def h'_def)
qed

lemma new_page_keeps_inv:
  assumes inv: "heap_inv h L" and i: "i < 10" and page: "new_page_state i h h1"
    and empty: "free_count (slabs h ! i) = 0" and room: "bump_offset h + 4096 \<le> heap_size h"
  shows "heap_inv h1 L"
proof -
  have wf: "heap_wf h" using inv by (simp add: heap_inv_def)
  note c = heap_wf_class[OF wf i]
  obtain s n where h1: "h1 = h\<lparr>bump_offset := bump_offset h + 4096, slabs := (slabs h)[i := s]\<rparr>"
    and s: "slab_wf i s" "class_blocks s = page_blocks (heap_start h + bump_offset h) (8 * 2 ^ i) n"
    "free_count s = n" "n * (8 * 2 ^ i) \<le> 4096" "total_count s = total_count (slabs h ! i) + n"
    using page by (auto simp: new_page_state_def)
  let ?N = "page_blocks (heap_start h + bump_offset h) (8 * 2 ^ i) n"
  have "class_blocks (slabs h ! i) = {#}" using empty by (simp add: class_blocks_def)
  then have "free_blocks (h\<lparr>slabs := (slabs h)[i := s]\<rparr>) = free_blocks h + ?N"
    using free_blocks_upd[OF c(5), of s] s(2) by simp
  then have blocks: "all_blocks h1 L = all_blocks h L + ?N"
    by (simp add: all_blocks_def h1 free_blocks_def)
  have "within (heap_start h + bump_offset h) (heap_start h + bump_offset h + n * (8 * 2 ^ i)) ?N"
    "\<forall>x. cover ?N x \<le> 1"
    using page_blocks_ok[OF class_size_pos] by blast+
  then have N: "within (heap_start h + bump_offset h) (heap_start h + bump_offset h + 4096) ?N"
    "\<forall>x. cover ?N x \<le> 1"
    using s(4) within_mono by fastforce+
  have old: "within (heap_start h) (heap_start h + bump_offset h) (all_blocks h L)"
    "\<forall>x. cover (all_blocks h L) x \<le> 1"
    using inv by (auto simp: heap_inv_def)
  have "\<forall>x. cover (all_blocks h1 L) x \<le> 1"
    unfolding blocks using cover_extend[OF old N] .
  moreover have "within (heap_start h) (heap_start h + bump_offset h + 4096) (all_blocks h1 L)"
    unfolding blocks within_simps using within_mono[OF old(1)] within_mono[OF N(1)] by auto
  moreover have "heap_wf h1"
    unfolding h1 using wf i s(1) room by (auto simp: heap_wf_def nth_list_update)
  moreover have "\<forall>k < 10. free_count (slabs h1 ! k) + live_in_class L k = total_count (slabs h1 ! k)"
    using inv i s c(5) empty by (auto simp: heap_inv_def h1 nth_list_update)
  ultimately show ?thesis by (simp add: heap_inv_def h1 add.assoc)
qed

lemma alloc_from_slab_inv:
  assumes inv: "heap_inv h L" and i: "i < 10" and l: "layout_class l = Some i"
  obtains ptr h' m' where "alloc_from_slab i (h, m) = Some (ptr, h', m')"
    "heap_inv h' (if ptr = 0 then L else add_mset (ptr, l) L)"
proof -
  have wf: "heap_wf h" using inv by (simp add: heap_inv_def)
  from wf i show ?thesis
  proof (cases rule: alloc_from_slab_cases[where m = m])
    case pop
    then show ?thesis using pop_keeps_inv[OF inv i l] by (intro that) auto
  next
    case full
    then show ?thesis using inv by (intro that) auto
  next
    case (page h1 m1)
    have inv1: "heap_inv h1 L" using new_page_keeps_inv[OF inv i page(3) page(1,2)] .
    show ?thesis
      using page(4) inv1 pop_keeps_inv[OF inv1 i l]
      by (cases "0 < free_count (slabs h1 ! i)") (auto intro!: that)
  qed
qed

section \<open>The bump path keeps the invariant\<close>

text \<open>The layouts that \<open>core::alloc::Layout\<close> admits, for a non-zero size.\<close>

definition valid_layout :: "layout \<Rightarrow> bool" where
  "valid_layout l \<longleftrightarrow> (\<exists>k. snd l = 2 ^ k) \<and> 0 < fst l \<and> fst l + snd l \<le> 2 ^ 63"

lemma and_not_mask: "(w :: u64) AND NOT (mask k) = w - take_bit k w"
proof -
  have "w AND NOT (mask k) = push_bit k (drop_bit k w)"
    by (rule bit_word_eqI) (auto simp: bit_and_iff bit_not_iff bit_mask_iff bit_push_bit_iff bit_drop_bit_eq)
  then show ?thesis using bits_ident[of k w] by (metis add_diff_cancel_right')
qed

lemma usize_and_not_pow2:
  assumes "x < USIZE" "k < 64"
  shows "usize_and_not x (2 ^ k - 1) = x - x mod 2 ^ k"
proof -
  have mask: "word_of_nat (2 ^ k - 1) = (mask k :: u64)"
    by (simp add: mask_eq_exp_minus_1 of_nat_diff)
  have x: "unat (word_of_nat x :: u64) = x"
    using assms(1) by (simp add: unat_of_nat take_bit_nat_eq_self)
  have t: "unat (take_bit k (word_of_nat x :: u64)) = x mod 2 ^ k"
    unfolding unsigned_take_bit_eq x by (simp add: take_bit_eq_mod)
  moreover have "take_bit k (word_of_nat x :: u64) \<le> word_of_nat x"
    unfolding word_le_nat_alt t x by simp
  ultimately show ?thesis
    unfolding usize_and_not_def mask and_not_mask using x by (simp add: unat_sub)
qed

lemma valid_layout_bounds:
  assumes "valid_layout (sz, al)"
  obtains k where "al = 2 ^ k" "k < 63" "al \<le> 2 ^ 62" "aligned_size sz al < 2 ^ 63" "0 < aligned_size sz al"
proof -
  obtain k where k: "al = 2 ^ k" "0 < sz" "sz + 2 ^ k \<le> (2::nat) ^ 63"
    using assms by (auto simp: valid_layout_def)
  then have "(2::nat) ^ k < 2 ^ 63" by linarith
  then have "k < 63" by (rule power_less_imp_less_exp[rotated]) simp
  then have "(2::nat) ^ k \<le> 2 ^ 62" by (intro power_increasing) auto
  moreover have "aligned_size sz al < 2 ^ 63" "0 < aligned_size sz al"
  proof -
    have "sz < 2 ^ 63" using k(3) zero_less_power[of "2::nat" k] by linarith
    then show "aligned_size sz al < 2 ^ 63" "0 < aligned_size sz al"
      using k(1,2) \<open>2 ^ k < 2 ^ 63\<close> by (simp_all add: aligned_size_def)
  qed
  ultimately show ?thesis using k(1) \<open>k < 63\<close> by (intro that) auto
qed

lemma round_up_bounds:
  assumes "0 < (a :: nat)"
  shows "b \<le> (b + a - 1) - (b + a - 1) mod a" "(b + a - 1) - (b + a - 1) mod a < b + a"
    "a dvd (b + a - 1) - (b + a - 1) mod a"
proof -
  have "(b + a - 1) mod a < a" "(b + a - 1) mod a \<le> b + a - 1"
    using assms by simp_all
  then show "b \<le> (b + a - 1) - (b + a - 1) mod a" "(b + a - 1) - (b + a - 1) mod a < b + a"
    using assms by linarith+
  show "a dvd (b + a - 1) - (b + a - 1) mod a" by (rule dvd_minus_mod)
qed

lemma alloc_bump_eq:
  assumes wf: "heap_wf h" and v: "valid_layout (sz, al)"
  defines "ao \<equiv> (bump_offset h + al - 1) - (bump_offset h + al - 1) mod al"
  defines "n \<equiv> aligned_size sz al"
  shows "alloc_bump n al h =
     (if heap_size h < ao + n then (0, h) else (heap_start h + ao, h\<lparr>bump_offset := ao + n\<rparr>))"
    "bump_offset h \<le> ao" "al dvd ao"
proof -
  from v obtain k where k: "al = 2 ^ k" "k < 63" "al \<le> 2 ^ 62" "n < 2 ^ 63"
    unfolding n_def by (rule valid_layout_bounds)
  have al: "0 < al" using k(1) by simp
  have b: "bump_offset h < 2 ^ 62" "heap_start h + heap_size h + 4096 < 2 ^ 62"
    using wf by (auto simp: heap_wf_def)
  note ao = round_up_bounds[OF al, of "bump_offset h", folded ao_def]
  show "bump_offset h \<le> ao" "al dvd ao" using ao by simp_all
  have lt: "bump_offset h + al < USIZE" using b k(3) by simp
  have "usize_sub (usize_add (bump_offset h) al) 1 = bump_offset h + al - 1" "usize_sub al 1 = al - 1"
    using lt al by simp_all
  moreover have "usize_and_not (bump_offset h + al - 1) (al - 1) = ao"
    using usize_and_not_pow2[of "bump_offset h + al - 1" k] lt k by (simp add: ao_def)
  moreover have "usize_add ao n = ao + n" using ao b k by simp
  moreover have "\<not> heap_size h < ao + n \<Longrightarrow> usize_add (heap_start h) ao = heap_start h + ao"
    using b by simp
  ultimately show "alloc_bump n al h =
     (if heap_size h < ao + n then (0, h) else (heap_start h + ao, h\<lparr>bump_offset := ao + n\<rparr>))"
    by (simp add: alloc_bump_def Let_def)
qed

lemma alloc_bump_inv:
  assumes inv: "heap_inv h L" and v: "valid_layout (sz, al)" and l: "layout_class (sz, al) = None"
    and run: "alloc_bump (aligned_size sz al) al h = (ptr, h')"
  shows "heap_inv h' (if ptr = 0 then L else add_mset (ptr, (sz, al)) L)"
proof (cases "ptr = 0")
  case True
  have "heap_wf h" using inv by (simp add: heap_inv_def)
  then have "h' = h"
    using run True alloc_bump_eq(1)[OF _ v] by (auto simp: heap_wf_def split: if_splits)
  then show ?thesis using inv True by simp
next
  case False
  have wf: "heap_wf h" using inv by (simp add: heap_inv_def)
  define n where "n = aligned_size sz al"
  have n: "0 < n" using v unfolding n_def by (auto elim: valid_layout_bounds)
  obtain ao where ao: "bump_offset h \<le> ao" "ao + n \<le> heap_size h" "ptr = heap_start h + ao"
    "h' = h\<lparr>bump_offset := ao + n\<rparr>"
    using run False alloc_bump_eq[OF wf v] by (auto simp: n_def split: if_splits)
  have blocks: "all_blocks h' (add_mset (ptr, (sz, al)) L) = all_blocks h L + {#(ptr, n)#}"
    using l by (simp add: all_blocks_def live_block_def layout_extent_def ao(4) free_blocks_def n_def)
  have old: "within (heap_start h) ptr (all_blocks h L)" "\<forall>x. cover (all_blocks h L) x \<le> 1"
    using inv ao by (auto simp: heap_inv_def elim!: within_mono)
  have new: "within ptr (ptr + n) {#(ptr, n)#}" "\<forall>x. cover {#(ptr, n)#} x \<le> 1"
    using n by (auto simp: heap_simps)
  have "within (heap_start h') (heap_start h' + bump_offset h') (all_blocks h' (add_mset (ptr, (sz, al)) L))"
    unfolding blocks within_simps(3)
    using within_mono[OF old(1)] within_mono[OF new(1)] ao by (simp add: add.assoc)
  moreover have "heap_wf h'" using wf ao by (simp add: heap_wf_def)
  moreover have "\<forall>i < 10. free_count (slabs h' ! i) + live_in_class (add_mset (ptr, (sz, al)) L) i
      = total_count (slabs h' ! i)"
    using inv l ao(4) by (simp add: heap_inv_def live_in_class_add)
  ultimately show ?thesis
    using cover_extend[OF old new] False blocks by (simp add: heap_inv_def)
qed

section \<open>The allocator interface keeps the invariant\<close>

lemma heap_alloc_inv:
  assumes inv: "heap_inv h L" and v: "valid_layout (sz, al)"
  obtains ptr h' m' where "heap_alloc sz al (h, m) = Some (ptr, h', m')"
    "heap_inv h' (if ptr = 0 then L else add_mset (ptr, (sz, al)) L)"
proof (cases "find_slab_class (aligned_size sz al)")
  case None
  obtain ptr h' where run: "alloc_bump (aligned_size sz al) al h = (ptr, h')" by fastforce
  then show ?thesis
    using alloc_bump_inv[OF inv v _ run] None
    by (intro that[of ptr h' m]) (auto simp: heap_alloc_def layout_class_def)
next
  case (Some i)
  have wf: "heap_wf h" using inv by (simp add: heap_inv_def)
  note f = find_slab_class_Some[OF Some]
  note c = heap_wf_class[OF wf f(1)]
  have "al \<le> block_size (slabs h ! i)"
    using f c aligned_size_ge[of al sz] by simp
  then have "heap_alloc sz al (h, m) = alloc_from_slab i (h, m)"
    using Some c by (simp add: heap_alloc_def)
  then show ?thesis
    using alloc_from_slab_inv[OF inv f(1), of "(sz, al)" m] Some that by (auto simp: layout_class_def)
qed

lemma heap_dealloc_inv:
  assumes inv: "heap_inv h L" and live: "(ptr, (sz, al)) \<in># L"
  obtains h' where "heap_dealloc ptr sz al h = Some h'" "heap_inv h' (L - {#(ptr, (sz, al))#})"
    "free_blocks h' = (if layout_class (sz, al) = None then free_blocks h
       else add_mset (live_block (ptr, (sz, al))) (free_blocks h))"
proof (cases "find_slab_class (aligned_size sz al)")
  case None
  obtain L' where L: "L = add_mset (ptr, (sz, al)) L'" using live by (metis multi_member_split)
  have "all_blocks h L = add_mset (live_block (ptr, sz, al)) (all_blocks h L')"
    by (simp add: L all_blocks_def)
  then have "heap_inv h L'"
    using inv None by (auto simp: heap_inv_def L heap_simps live_in_class_add layout_class_def dest: add_leD2)
  then show ?thesis using None L by (intro that[of h]) (auto simp: heap_dealloc_def layout_class_def)
next
  case (Some i)
  have wf: "heap_wf h" using inv by (simp add: heap_inv_def)
  note i = find_slab_class_Some(1)[OF Some]
  note c = heap_wf_class[OF wf i]
  obtain L' where L: "L = add_mset (ptr, (sz, al)) L'" using live by (metis multi_member_split)
  define s where "s = slabs h ! i"
  have cls: "layout_class (sz, al) = Some i" using Some by (simp add: layout_class_def)
  have "Suc (free_count s + live_in_class L' i) = total_count s"
    using inv i by (auto simp: heap_inv_def L live_in_class_add cls s_def)
  then have lt: "free_count s < total_count s" by linarith
  define s' where "s' = s\<lparr>free_list := (free_list s)[free_count s := ptr], free_count := Suc (free_count s)\<rparr>"
  define h' where "h' = h\<lparr>slabs := (slabs h)[i := s']\<rparr>"
  have run: "heap_dealloc ptr sz al h = Some h'"
    using Some c lt by (simp add: heap_dealloc_def free_to_slab_def s_def s'_def h'_def Let_def MAX_BLOCKS_PER_CLASS_def)
  have "class_blocks s' = add_mset (ptr, 8 * 2 ^ i) (class_blocks s)"
    using class_blocks_push[of s ptr] lt c by (simp add: s'_def s_def)
  then have fb: "free_blocks h' = add_mset (ptr, 8 * 2 ^ i) (free_blocks h)"
    using free_blocks_upd[OF c(5), of s'] by (simp add: h'_def s_def)
  then have blocks: "all_blocks h' L' = all_blocks h L"
    by (simp add: all_blocks_def L live_block_def layout_extent_def cls)
  have "heap_wf h'"
    unfolding h'_def using wf i c lt by (intro heap_wf_upd) (auto simp: slab_wf_def s'_def s_def)
  moreover have "\<forall>k < 10. free_count (slabs h' ! k) + live_in_class L' k = total_count (slabs h' ! k)"
    using inv i c(5) by (auto simp: heap_inv_def h'_def s'_def s_def nth_list_update L live_in_class_add cls)
  ultimately have "heap_inv h' L'" using inv blocks by (simp add: heap_inv_def h'_def)
  then show ?thesis
    using run L fb by (intro that) (auto simp: cls live_block_def layout_extent_def)
qed

lemma heap_dealloc_top:
  assumes inv: "heap_inv h L" and live: "(ptr, (sz, al)) \<in># L" and cls: "layout_class (sz, al) = Some i"
    and run: "heap_dealloc ptr sz al h = Some h1"
  shows "0 < free_count (slabs h1 ! i) \<and>
    free_list (slabs h1 ! i) ! (free_count (slabs h1 ! i) - 1) = ptr \<and> bump_offset h1 = bump_offset h"
proof -
  have f: "find_slab_class (aligned_size sz al) = Some i" using cls by (simp add: layout_class_def)
  have wf: "heap_wf h" using inv by (simp add: heap_inv_def)
  note i = find_slab_class_Some(1)[OF f]
  note c = heap_wf_class[OF wf i]
  have "0 < live_in_class L i"
    using live cls by (force simp: live_in_class_def nonempty_has_size[symmetric] filter_mset_eq_conv)
  moreover have "free_count (slabs h ! i) + live_in_class L i = total_count (slabs h ! i)"
    using inv i by (auto simp: heap_inv_def)
  ultimately have "free_count (slabs h ! i) < 1024" using c(4) by linarith
  then show ?thesis
    using run f c by (auto simp: heap_dealloc_def free_to_slab_def Let_def MAX_BLOCKS_PER_CLASS_def)
qed

section \<open>Initialisation establishes the invariant\<close>

lemma init_blocks_spec:
  assumes "free_count s = a" "total_count s = a" "a \<le> n" "n \<le> length (free_list s)"
    and "n * block_size s \<le> 4096" "page_addr + 4096 < USIZE" "length (free_list s) \<le> 1024"
  shows "\<exists>fl. init_blocks page_addr [a..<n] s =
      Some (s\<lparr>free_list := fl, free_count := n, total_count := n\<rparr>) \<and>
    length fl = length (free_list s) \<and>
    take n fl = take a (free_list s) @ map (\<lambda>j. page_addr + j * block_size s) [a..<n]"
  using assms
proof (induction "n - a" arbitrary: a s)
  case 0
  then show ?case by (auto intro!: exI[of _ "free_list s"])
next
  case (Suc d)
  then have lt: "a < n" by simp
  have "a * block_size s \<le> n * block_size s" using lt by (intro mult_le_mono1) simp
  then have "a * block_size s \<le> 4096" using Suc.prems(5) by linarith
  then have addr: "usize_add page_addr (usize_mul a (block_size s)) = page_addr + a * block_size s"
    using Suc.prems(6) by simp
  let ?s1 = "s\<lparr>free_list := (free_list s)[a := page_addr + a * block_size s],
               free_count := Suc a, total_count := Suc a\<rparr>"
  have "usize_add a 1 = Suc a" "a < length (free_list s)"
    using Suc.prems(4,7) lt by simp_all
  then have step: "init_blocks page_addr [a..<n] s = init_blocks page_addr [Suc a..<n] ?s1"
    using Suc.prems(1,2) upt_conv_Cons[OF lt] addr by simp
  have "\<exists>fl. init_blocks page_addr [Suc a..<n] ?s1 =
      Some (?s1\<lparr>free_list := fl, free_count := n, total_count := n\<rparr>) \<and>
    length fl = length (free_list ?s1) \<and>
    take n fl = take (Suc a) (free_list ?s1) @ map (\<lambda>j. page_addr + j * block_size ?s1) [Suc a..<n]"
    using Suc.hyps(2) Suc.prems lt by (intro Suc.hyps(1)) simp_all
  then obtain fl where fl: "init_blocks page_addr [Suc a..<n] ?s1 =
      Some (?s1\<lparr>free_list := fl, free_count := n, total_count := n\<rparr>)"
    "length fl = length (free_list ?s1)"
    "take n fl = take (Suc a) (free_list ?s1) @ map (\<lambda>j. page_addr + j * block_size ?s1) [Suc a..<n]"
    by blast
  have "take (Suc a) ((free_list s)[a := page_addr + a * block_size s]) =
      take a (free_list s) @ [page_addr + a * block_size s]"
    using Suc.prems(4) lt by (simp add: take_Suc_conv_app_nth)
  then show ?case
    using fl step lt upt_conv_Cons[OF lt] by (intro exI[of _ fl]) auto
qed

text \<open>One round of the class loop carves one page, as \<open>alloc_from_slab\<close> does later.\<close>

lemma init_classes_step:
  assumes wf: "heap_wf (h\<lparr>bump_offset := off\<rparr>)" and i: "i < 10" and fresh: "total_count (slabs h ! i) = 0"
    and room: "off + 4096 \<le> heap_size h"
  shows "\<exists>s m'. init_classes (i # is) off (h, m) =
      init_classes is (off + 4096) (h\<lparr>slabs := (slabs h)[i := s]\<rparr>, m') \<and>
    new_page_state i (h\<lparr>bump_offset := off\<rparr>) (h\<lparr>bump_offset := off + 4096, slabs := (slabs h)[i := s]\<rparr>)"
proof -
  note c = heap_wf_class[OF wf i, simplified]
  define page where "page = heap_start h + off"
  define bs :: nat where "bs = 8 * 2 ^ i"
  define n where "n = min (4096 div bs) 1024"
  have bs: "0 < bs" "block_size (slabs h ! i) = bs" "n * bs \<le> 4096"
  proof -
    have "n \<le> 4096 div bs" by (simp add: n_def)
    then have "n * bs \<le> 4096 div bs * bs" by (rule mult_le_mono1)
    then show "n * bs \<le> 4096" using div_times_less_eq_dividend[of 4096 bs] by linarith
  qed (use c in \<open>simp_all add: bs_def\<close>)
  have arith: "usize_add (heap_start h) off = page" "usize_add off 4096 = off + 4096" "page + 4096 < USIZE"
    using wf room by (simp_all add: heap_wf_def page_def)
  let ?s0 = "(slabs h ! i)\<lparr>next_page := page, free_count := 0, total_count := 0\<rparr>"
  obtain fl where fl: "init_blocks page [0..<n] ?s0 =
      Some (?s0\<lparr>free_list := fl, free_count := n, total_count := n\<rparr>)"
    "length fl = 1024" "take n fl = map (\<lambda>j. page + j * bs) [0..<n]"
    using init_blocks_spec[of ?s0 0 n page] c bs arith by (auto simp: n_def)
  define s where "s = ?s0\<lparr>free_list := fl, free_count := n, total_count := n\<rparr>"
  have run: "init_classes (i # is) off (h, m) =
      init_classes is (off + 4096) (h\<lparr>slabs := (slabs h)[i := s]\<rparr>, write_bytes m page 0 4096)"
    using c bs arith fl(1) by (simp add: Let_def s_def n_def MAX_BLOCKS_PER_CLASS_def)
  have "slab_wf i s" using c fl(2) bs by (simp add: slab_wf_def s_def n_def bs_def)
  moreover have "class_blocks s = page_blocks page bs n"
    using fl(3) bs by (simp add: s_def class_blocks_def page_blocks_def image_mset.compositionality o_def)
  ultimately have "new_page_state i (h\<lparr>bump_offset := off\<rparr>)
      (h\<lparr>bump_offset := off + 4096, slabs := (slabs h)[i := s]\<rparr>)"
    unfolding new_page_state_def using fresh bs(3)
    by (intro exI[of _ s] exI[of _ n]) (simp add: s_def page_def bs_def n_def)
  with run show ?thesis by blast
qed

lemma slabs_bump_swap: "h\<lparr>slabs := ss, bump_offset := b\<rparr> = h\<lparr>bump_offset := b, slabs := ss\<rparr>"
  by (cases h) simp

lemma init_classes_inv:
  assumes "heap_inv (h\<lparr>bump_offset := off\<rparr>) {#}" "i \<le> 10"
    and "\<forall>k. i \<le> k \<and> k < 10 \<longrightarrow> total_count (slabs h ! k) = 0" "off + (10 - i) * 4096 \<le> heap_size h"
  shows "\<exists>h' m'. init_classes [i..<10] off (h, m) = Some (off + (10 - i) * 4096, h', m') \<and>
    heap_inv (h'\<lparr>bump_offset := off + (10 - i) * 4096\<rparr>) {#} \<and>
    heap_start h' = heap_start h \<and> heap_size h' = heap_size h"
  using assms
proof (induction "10 - i" arbitrary: i off h m)
  case 0
  then show ?case by (cases "i = 10") auto
next
  case (Suc d)
  then have i: "i < 10" by simp
  have wf: "heap_wf (h\<lparr>bump_offset := off\<rparr>)" using Suc.prems(1) by (simp add: heap_inv_def)
  have fresh: "total_count (slabs h ! i) = 0" and room: "off + 4096 \<le> heap_size h"
    using Suc.prems(3,4) i by auto
  obtain s m1 where s: "init_classes (i # [Suc i..<10]) off (h, m) =
      init_classes [Suc i..<10] (off + 4096) (h\<lparr>slabs := (slabs h)[i := s]\<rparr>, m1)"
    "new_page_state i (h\<lparr>bump_offset := off\<rparr>) (h\<lparr>bump_offset := off + 4096, slabs := (slabs h)[i := s]\<rparr>)"
    using init_classes_step[OF wf i fresh room] by blast
  let ?h1 = "h\<lparr>slabs := (slabs h)[i := s]\<rparr>"
  have "free_count (slabs h ! i) = 0" using heap_wf_class(3)[OF wf i] fresh by simp
  then have inv1: "heap_inv (?h1\<lparr>bump_offset := off + 4096\<rparr>) {#}"
    using new_page_keeps_inv[OF Suc.prems(1) i s(2)] room by (simp add: slabs_bump_swap)
  have later: "\<forall>k. Suc i \<le> k \<and> k < 10 \<longrightarrow> total_count (slabs ?h1 ! k) = 0"
    "off + 4096 + (10 - Suc i) * 4096 \<le> heap_size ?h1"
    using Suc.prems(3,4) i by auto
  have "10 - Suc i = d" using Suc.hyps(2) by simp
  from Suc.hyps(1)[OF this[symmetric] inv1 _ later, of m1] i
  obtain h' m' where h': "init_classes [Suc i..<10] (off + 4096) (?h1, m1) =
      Some (off + 4096 + (10 - Suc i) * 4096, h', m')"
    "heap_inv (h'\<lparr>bump_offset := off + 4096 + (10 - Suc i) * 4096\<rparr>) {#}"
    "heap_start h' = heap_start h" "heap_size h' = heap_size h" by auto
  have eq: "off + 4096 + (10 - Suc i) * 4096 = off + (10 - i) * 4096" using i by simp
  show ?case
    using h'[unfolded eq] s(1) unfolding upt_conv_Cons[OF i] by (intro exI[of _ h'] exI[of _ m']) simp
qed

text \<open>A region that \<open>init\<close> accepts: not at address 0, in the lower half of the address space, with
  room for one page per class.\<close>

definition heap_region :: "usize \<Rightarrow> usize \<Rightarrow> bool" where
  "heap_region start sz \<longleftrightarrow> 0 < start \<and> start + sz + 4096 < 2 ^ 62 \<and> 40960 \<le> sz"

lemma heap_init_spec:
  assumes region: "heap_region start sz"
  obtains h m' where "heap_init start sz (False, slab_allocator_new, m) = Some (True, h, m')"
    "heap_inv h {#}" "heap_start h = start" "heap_size h = sz" "bump_offset h = 40960"
proof -
  note assms = region[unfolded heap_region_def]
  let ?h0 = "slab_allocator_new\<lparr>heap_start := start, heap_size := sz, bump_offset := 0\<rparr>"
  have ten: "(i < 10) = (i = 0 \<or> i = 1 \<or> i = 2 \<or> i = 3 \<or> i = 4 \<or> i = 5 \<or> i = 6 \<or> i = 7 \<or> i = 8 \<or> i = 9)"
    for i :: nat by auto
  have cls: "slabs ?h0 ! i = slab_class_new (8 * 2 ^ i)" if "i < 10" for i
    using that unfolding ten by (auto simp: slab_allocator_new_def make_slab_def SLAB_MIN_SIZE_def)
  have "length (slabs ?h0) = 10" by (simp add: slab_allocator_new_def)
  then have "heap_wf ?h0"
    using assms cls by (auto simp: heap_wf_def slab_wf_def slab_class_new_def MAX_BLOCKS_PER_CLASS_def)
  moreover have "free_blocks ?h0 = {#}"
    by (simp add: free_blocks_def slab_allocator_new_def make_slab_def slab_class_new_def class_blocks_def)
  ultimately have "heap_inv (?h0\<lparr>bump_offset := 0\<rparr>) {#}"
    using cls by (auto simp: heap_inv_def all_blocks_def heap_simps slab_class_new_def live_in_class_def)
  moreover have "\<forall>k. 0 \<le> k \<and> k < 10 \<longrightarrow> total_count (slabs ?h0 ! k) = 0"
    using cls by (auto simp: slab_class_new_def)
  ultimately obtain h m' where "init_classes [0..<10] 0 (?h0, m) = Some (40960, h, m')"
    "heap_inv (h\<lparr>bump_offset := 40960\<rparr>) {#}" "heap_start h = start" "heap_size h = sz"
    using init_classes_inv[where h = ?h0 and off = 0 and i = 0 and m = m] assms by auto
  then show ?thesis
    by (intro that[of "h\<lparr>bump_offset := 40960\<rparr>" m']) (simp_all add: heap_init_def SLAB_CLASSES_def)
qed

section \<open>Programs that use the heap\<close>

text \<open>
  The steps of a program: it asks for memory with a layout that \<open>Layout\<close> admits, gives back an
  allocation it holds with the layout it asked for, or writes to memory.
\<close>

inductive heap_step ::
  "SlabAllocator \<times> pmem \<times> allocation multiset \<Rightarrow> SlabAllocator \<times> pmem \<times> allocation multiset \<Rightarrow> bool" where
  alloc_ok: "valid_layout (sz, al) \<Longrightarrow> heap_alloc sz al (h, m) = Some (ptr, h', m') \<Longrightarrow> ptr \<noteq> 0 \<Longrightarrow>
    heap_step (h, m, L) (h', m', add_mset (ptr, (sz, al)) L)"
| alloc_null: "valid_layout (sz, al) \<Longrightarrow> heap_alloc sz al (h, m) = Some (0, h', m') \<Longrightarrow>
    heap_step (h, m, L) (h', m', L)"
| dealloc: "(ptr, (sz, al)) \<in># L \<Longrightarrow> heap_dealloc ptr sz al h = Some h' \<Longrightarrow>
    heap_step (h, m, L) (h', m, L - {#(ptr, (sz, al))#})"
| store: "heap_step (h, m, L) (h, m', L)"

inductive_cases heap_stepE: "heap_step (h, m, L) (h', m', L')"

text \<open>The states a program reaches after the heap has been initialised on a region.\<close>

inductive heap_reach :: "usize \<Rightarrow> usize \<Rightarrow> SlabAllocator \<times> pmem \<times> allocation multiset \<Rightarrow> bool"
  for start sz where
  boot: "heap_init start sz (False, slab_allocator_new, m) = Some (True, h, m') \<Longrightarrow>
    heap_reach start sz (h, m', {#})"
| run: "heap_reach start sz s \<Longrightarrow> heap_step s s' \<Longrightarrow> heap_reach start sz s'"

lemma heap_alloc_keeps:
  assumes "heap_inv h L" "valid_layout (sz, al)" "heap_alloc sz al (h, m) = Some (ptr, h', m')"
  shows "heap_inv h' (if ptr = 0 then L else add_mset (ptr, (sz, al)) L)"
  by (rule heap_alloc_inv[OF assms(1,2), of m]) (use assms(3) in simp)

lemma heap_dealloc_keeps:
  assumes "heap_inv h L" "(ptr, (sz, al)) \<in># L" "heap_dealloc ptr sz al h = Some h'"
  shows "heap_inv h' (L - {#(ptr, (sz, al))#})"
  by (rule heap_dealloc_inv[OF assms(1,2)]) (use assms(3) in simp)

lemma heap_step_inv:
  assumes "heap_step (h, m, L) (h', m', L')" "heap_inv h L"
  shows "heap_inv h' L'"
  using assms by (elim heap_stepE) (auto dest: heap_alloc_keeps heap_dealloc_keeps)

lemma heap_alloc_region:
  "heap_alloc sz al (h, m) = Some (ptr, h', m') \<Longrightarrow> heap_start h' = heap_start h \<and> heap_size h' = heap_size h"
  by (auto simp: heap_alloc_def alloc_from_slab_def alloc_bump_def Let_def
      split: option.splits if_splits prod.splits)

lemma heap_dealloc_region:
  "heap_dealloc ptr sz al h = Some h' \<Longrightarrow> heap_start h' = heap_start h \<and> heap_size h' = heap_size h"
  by (auto simp: heap_dealloc_def free_to_slab_def Let_def split: option.splits if_splits)

lemma heap_step_region:
  assumes "heap_step (h, m, L) (h', m', L')"
  shows "heap_start h' = heap_start h \<and> heap_size h' = heap_size h"
  using assms by (elim heap_stepE) (auto dest: heap_alloc_region heap_dealloc_region)

lemma heap_reach_inv:
  assumes "heap_reach start sz (h, m, L)" "heap_region start sz"
  shows "heap_inv h L" "heap_start h = start" "heap_size h = sz"
proof -
  have "heap_inv (fst s) (snd (snd s)) \<and> heap_start (fst s) = start \<and> heap_size (fst s) = sz"
    if "heap_reach start sz s" for s
    using that
  proof (induction rule: heap_reach.induct)
    case (boot m h m')
    obtain h0 m0 where "heap_init start sz (False, slab_allocator_new, m) = Some (True, h0, m0)"
      "heap_inv h0 {#}" "heap_start h0 = start" "heap_size h0 = sz"
      using assms(2) by (rule heap_init_spec)
    with boot show ?case by simp
  next
    case (run s s')
    obtain h m L h' m' L' where "s = (h, m, L)" "s' = (h', m', L')" by (metis prod_cases3)
    with run heap_step_inv[of h m L h' m' L'] heap_step_region[of h m L h' m' L']
    show ?case by (auto simp: heap_inv_def)
  qed
  from this[OF assms(1)] show "heap_inv h L" "heap_start h = start" "heap_size h = sz" by auto
qed

lemma heap_reach_start:
  assumes "heap_region start sz"
  obtains h m' where "heap_reach start sz (h, m', {#})" "heap_inv h {#}"
  using assms heap_init_spec[of start sz "\<lambda>_. 0"] heap_reach.boot by metis

section \<open>When an allocation fails\<close>

text \<open>The offset at which the bump path places a block.\<close>

definition bump_place :: "SlabAllocator \<Rightarrow> layout \<Rightarrow> usize" where
  "bump_place h l = (bump_offset h + snd l - 1) - (bump_offset h + snd l - 1) mod snd l"

definition heap_exhausted :: "SlabAllocator \<Rightarrow> layout \<Rightarrow> bool" where
  "heap_exhausted h l =
     (case layout_class l of
        Some i \<Rightarrow> free_count (slabs h ! i) = 0 \<and>
          (heap_size h < bump_offset h + 4096 \<or> total_count (slabs h ! i) = 1024)
      | None \<Rightarrow> heap_size h < bump_place h l + aligned_size (fst l) (snd l))"

lemma heap_alloc_slab_path:
  assumes "heap_inv h L" "layout_class (sz, al) = Some i"
  shows "i < 10" "heap_alloc sz al (h, m) = alloc_from_slab i (h, m)"
proof -
  have wf: "heap_wf h" using assms(1) by (simp add: heap_inv_def)
  have Some: "find_slab_class (aligned_size sz al) = Some i" using assms(2) by (simp add: layout_class_def)
  note f = find_slab_class_Some[OF Some]
  note c = heap_wf_class[OF wf f(1)]
  show "i < 10" by (rule f)
  have "al \<le> block_size (slabs h ! i)" using f c aligned_size_ge(2)[of al sz] by simp
  then show "heap_alloc sz al (h, m) = alloc_from_slab i (h, m)"
    using Some c by (simp add: heap_alloc_def)
qed

lemma new_page_free_count:
  assumes "new_page_state i h h1" "heap_wf h" "i < 10"
  shows "free_count (slabs h1 ! i) = 0 \<longleftrightarrow> total_count (slabs h ! i) = 1024"
proof -
  note c = heap_wf_class[OF assms(2,3)]
  have "0 < 4096 div (8 * 2 ^ i :: nat)"
    using class_size_le_page[OF assms(3)] by (simp add: div_greater_zero_iff)
  then show ?thesis using assms(1) c by (auto simp: new_page_state_def)
qed

lemma alloc_from_slab_null:
  assumes inv: "heap_inv h L" and l: "layout_class l = Some i" and i: "i < 10"
    and run: "alloc_from_slab i (h, m) = Some (ptr, h', m')"
  shows "ptr = 0 \<longleftrightarrow> heap_exhausted h l"
proof -
  have wf: "heap_wf h" using inv by (simp add: heap_inv_def)
  from wf i show ?thesis
  proof (cases rule: alloc_from_slab_cases[where m = m])
    case pop
    then show ?thesis using run pop_keeps_inv(2)[OF inv i l] by (auto simp: heap_exhausted_def l)
  next
    case full
    then show ?thesis using run by (auto simp: heap_exhausted_def l)
  next
    case (page h1 m1)
    have inv1: "heap_inv h1 L" using new_page_keeps_inv[OF inv i page(3) page(1,2)] .
    show ?thesis
      using run page pop_keeps_inv(2)[OF inv1 i l] new_page_free_count[OF page(3) wf i]
      by (auto simp: heap_exhausted_def l split: if_splits)
  qed
qed

lemma heap_alloc_null:
  assumes inv: "heap_inv h L" and v: "valid_layout (sz, al)"
    and run: "heap_alloc sz al (h, m) = Some (ptr, h', m')"
  shows "ptr = 0 \<longleftrightarrow> heap_exhausted h (sz, al)"
proof (cases "layout_class (sz, al)")
  case None
  have wf: "heap_wf h" using inv by (simp add: heap_inv_def)
  then have "0 < heap_start h" by (simp add: heap_wf_def)
  then show ?thesis
    using run None alloc_bump_eq(1)[OF wf v]
    by (auto simp: heap_alloc_def layout_class_def heap_exhausted_def bump_place_def split: if_splits)
next
  case (Some i)
  then show ?thesis
    using heap_alloc_slab_path[OF inv Some] alloc_from_slab_null[OF inv Some] run by simp
qed

section \<open>Properties\<close>

text \<open>A run of the boot heap that serves two requests of 5000 bytes.\<close>

lemma boot_heap_region: "heap_region HEAP_BASE HEAP_SIZE"
  by (simp add: heap_region_def layout)

lemma valid_5000: "valid_layout (5000, 8)" "layout_class (5000, 8) = None"
proof -
  have "\<exists>k. (8::nat) = 2 ^ k" by (rule exI[of _ 3]) simp
  then show "valid_layout (5000, 8)" by (simp add: valid_layout_def)
  show "layout_class (5000, 8) = None"
    by (simp add: layout_class_def find_slab_class_None aligned_size_def)
qed

lemma round_up_aligned:
  assumes "0 < (a :: nat)" "a dvd b"
  shows "(b + a - 1) - (b + a - 1) mod a = b"
proof -
  obtain q where "b = a * q" using assms(2) by blast
  then have "(b + a - 1) mod a = a - 1"
    using assms(1) by (metis Nat.add_diff_assoc One_nat_def Suc_leI diff_less mod_less mod_mult_self4 mult.commute zero_less_one)
  then show ?thesis using assms(1) by simp
qed

lemma heap_alloc_5000:
  assumes "heap_inv h L" "8 dvd bump_offset h" "bump_offset h + 5000 \<le> heap_size h"
  shows "heap_alloc 5000 8 (h, m) =
    Some (heap_start h + bump_offset h, h\<lparr>bump_offset := bump_offset h + 5000\<rparr>, m)"
proof -
  have wf: "heap_wf h" using assms(1) by (simp add: heap_inv_def)
  have sz: "aligned_size 5000 8 = 5000" by (simp add: aligned_size_def)
  have none: "find_slab_class 5000 = None" by (simp add: find_slab_class_None)
  have "alloc_bump 5000 8 h = (heap_start h + bump_offset h, h\<lparr>bump_offset := bump_offset h + 5000\<rparr>)"
    using alloc_bump_eq(1)[OF wf valid_5000(1)] assms(3)
    unfolding sz round_up_aligned[OF zero_less_numeral assms(2)] by (simp only: not_less[symmetric] if_False)
  then show ?thesis unfolding heap_alloc_def sz none by simp
qed

lemma heap_reach_two:
  obtains h m where "heap_reach HEAP_BASE HEAP_SIZE
    (h, m, {#(HEAP_BASE + 45960, (5000, 8)), (HEAP_BASE + 40960, (5000, 8))#})"
proof -
  obtain h m where h: "heap_init HEAP_BASE HEAP_SIZE (False, slab_allocator_new, \<lambda>_. 0) = Some (True, h, m)"
    "heap_inv h {#}" "heap_start h = HEAP_BASE" "heap_size h = HEAP_SIZE" "bump_offset h = 40960"
    using boot_heap_region by (rule heap_init_spec)
  let ?h1 = "h\<lparr>bump_offset := 45960\<rparr>" and ?L1 = "{#(HEAP_BASE + 40960, (5000, 8))#}"
  have "heap_alloc 5000 8 (h, m) = Some (HEAP_BASE + 40960, ?h1, m)"
    using heap_alloc_5000[OF h(2)] h by (simp add: layout)
  then have s1: "heap_step (h, m, {#}) (?h1, m, ?L1)"
    by (rule alloc_ok[OF valid_5000(1)]) (simp add: layout)
  then have inv1: "heap_inv ?h1 ?L1" using h(2) by (rule heap_step_inv)
  have "heap_alloc 5000 8 (?h1, m) = Some (HEAP_BASE + 45960, ?h1\<lparr>bump_offset := 50960\<rparr>, m)"
    using heap_alloc_5000[OF inv1] h by (simp add: layout)
  then have s2: "heap_step (?h1, m, ?L1) (?h1\<lparr>bump_offset := 50960\<rparr>, m, add_mset (HEAP_BASE + 45960, (5000, 8)) ?L1)"
    by (rule alloc_ok[OF valid_5000(1)]) (simp add: layout)
  show ?thesis by (rule that) (rule heap_reach.run[OF heap_reach.run[OF heap_reach.boot[OF h(1)] s1] s2])
qed

lemma valid_8: "valid_layout (8, 8)" "layout_class (8, 8) = Some 0"
proof -
  have "\<exists>k. (8::nat) = 2 ^ k" by (rule exI[of _ 3]) simp
  then show "valid_layout (8, 8)" by (simp add: valid_layout_def)
  show "layout_class (8, 8) = Some 0"
    by (simp add: layout_class_def aligned_size_def find_slab_class_def SLAB_MAX_SIZE_def SLAB_CLASSES_def
        SLAB_MIN_SIZE_def upt_rec)
qed

lemma heap_reach_slab:
  obtains h m ptr where "heap_reach HEAP_BASE HEAP_SIZE (h, m, {#(ptr, (8, 8))#})"
proof -
  obtain h m where h: "heap_init HEAP_BASE HEAP_SIZE (False, slab_allocator_new, \<lambda>_. 0) = Some (True, h, m)"
    "heap_inv h {#}" "heap_start h = HEAP_BASE" "heap_size h = HEAP_SIZE" "bump_offset h = 40960"
    using boot_heap_region by (rule heap_init_spec)
  obtain ptr h' m' where run: "heap_alloc 8 8 (h, m) = Some (ptr, h', m')"
    using heap_alloc_inv[OF h(2) valid_8(1), of m] by blast
  have "free_count (slabs h ! 0) = total_count (slabs h ! 0)"
    using h(2) by (auto simp: heap_inv_def live_in_class_def)
  then have "\<not> heap_exhausted h (8, 8)"
    using h(4,5) by (auto simp: heap_exhausted_def valid_8 layout)
  then have "ptr \<noteq> 0" using heap_alloc_null[OF h(2) valid_8(1) run] by simp
  then have "heap_step (h, m, {#}) (h', m', {#(ptr, (8, 8))#})"
    using run valid_8(1) by (intro alloc_ok) auto
  then show ?thesis using that heap_reach.run[OF heap_reach.boot[OF h(1)]] by blast
qed

text \<open>Two allocations in a state that satisfies the invariant.\<close>

lemma live_disjoint:
  assumes inv: "heap_inv h (add_mset (p, (sz, al)) (add_mset (q, (sz', al')) L))" and pos: "0 < sz" "0 < sz'"
  shows "p + sz \<le> q \<or> q + sz' \<le> p"
proof (rule ccontr)
  assume "\<not> ?thesis"
  then have lt: "q < p + sz" "p < q + sz'" by auto
  let ?x = "max p q"
  have ext: "sz \<le> layout_extent (sz, al)" "sz' \<le> layout_extent (sz', al')"
    using layout_extent_ge(1)[of "(sz, al)"] layout_extent_ge(1)[of "(sz', al')"] by simp_all
  have "covers ?x (live_block (p, (sz, al)))" "covers ?x (live_block (q, (sz', al')))"
    using lt ext pos by (auto simp: covers_def live_block_def)
  then have "2 \<le> cover (all_blocks h (add_mset (p, (sz, al)) (add_mset (q, (sz', al')) L))) ?x"
    by (simp add: all_blocks_def cover_simps)
  moreover have "cover (all_blocks h (add_mset (p, (sz, al)) (add_mset (q, (sz', al')) L))) ?x \<le> 1"
    using inv by (auto simp: heap_inv_def)
  ultimately show False by linarith
qed

lemma live_within:
  assumes inv: "heap_inv h L" and live: "(p, (sz, al)) \<in># L"
  shows "heap_start h \<le> p \<and> p + sz \<le> heap_start h + bump_offset h"
proof -
  have "live_block (p, (sz, al)) \<in># all_blocks h L" using live by (simp add: all_blocks_def)
  then have "heap_start h \<le> p \<and> p + layout_extent (sz, al) \<le> heap_start h + bump_offset h"
    using inv by (fastforce simp: heap_inv_def within_def live_block_def)
  then show ?thesis using layout_extent_ge(1)[of "(sz, al)"] by simp
qed

text \<open>
  C9. Memory safety of the heap: in every state a program reaches by allocating, releasing and
  writing, two allocations it holds never overlap, and both lie in the part of the heap region that has been handed
  out.
\<close>
theorem heap_live_disjoint:
  assumes "heap_region start n"
    and "heap_reach start n (h, m, add_mset (p, (sz, al)) (add_mset (q, (sz', al')) L))"
    and "0 < sz" "0 < sz'"
  shows "(p + sz \<le> q \<or> q + sz' \<le> p) \<and>
    start \<le> p \<and> p + sz \<le> start + bump_offset h \<and>
    start \<le> q \<and> q + sz' \<le> start + bump_offset h \<and> bump_offset h \<le> n"
proof -
  note inv = heap_reach_inv[OF assms(2,1)]
  show ?thesis
    using live_disjoint[OF inv(1) assms(3,4)] live_within[OF inv(1), of p sz al]
      live_within[OF inv(1), of q sz' al'] inv by (auto simp: heap_inv_def heap_wf_def)
qed

theorem heap_live_disjoint_witness:
  "\<exists>h m. heap_reach HEAP_BASE HEAP_SIZE
      (h, m, {#(HEAP_BASE + 45960, (5000, 8)), (HEAP_BASE + 40960, (5000, 8))#}) \<and>
    HEAP_BASE + 45960 + 5000 \<le> HEAP_BASE + bump_offset h"
proof (rule heap_reach_two)
  fix h m
  let ?L = "{#(HEAP_BASE + 45960, (5000, 8)), (HEAP_BASE + 40960, (5000, 8))#}"
  assume r: "heap_reach HEAP_BASE HEAP_SIZE (h, m, ?L)"
  then show ?thesis using heap_live_disjoint[OF boot_heap_region r] by auto
qed

lemma heap_inv_stats:
  assumes "heap_inv h L" "i < SLAB_CLASSES"
  shows "slab_used (heap_stats h) ! i = live_in_class L i"
    "slab_free (heap_stats h) ! i + live_in_class L i = total_count (slabs h ! i)"
proof -
  have i: "i < 10" using assms(2) by (simp add: SLAB_CLASSES_def)
  have wf: "heap_wf h" using assms(1) by (simp add: heap_inv_def)
  note c = heap_wf_class[OF wf i]
  have eq: "free_count (slabs h ! i) + live_in_class L i = total_count (slabs h ! i)"
    using assms(1) i by (auto simp: heap_inv_def)
  then have "usize_sub (total_count (slabs h ! i)) (free_count (slabs h ! i)) = live_in_class L i"
    using c by simp
  then show "slab_used (heap_stats h) ! i = live_in_class L i"
    using assms(2) by (simp add: heap_stats_def)
  show "slab_free (heap_stats h) ! i + live_in_class L i = total_count (slabs h ! i)"
    using assms(2) eq by (simp add: heap_stats_def)
qed

text \<open>
  Progress and accounting: in every reachable state a request with an admitted layout
  returns and the release of a held allocation returns (no index panics), and
  \<open>heap_stats\<close> counts for each class exactly the blocks the program holds and the free blocks; so
  \<open>free_to_slab\<close> never finds its stack full and drops a block.
\<close>
theorem heap_accounting:
  assumes "heap_region start n" "heap_reach start n (h, m, L)" "valid_layout (sz, al)"
  shows "(\<exists>r. heap_alloc sz al (h, m) = Some r) \<and>
    (\<forall>(p, (sz', al')) \<in> set_mset L. \<exists>h'. heap_dealloc p sz' al' h = Some h' \<and>
       free_blocks h' = (if layout_class (sz', al') = None then free_blocks h
         else add_mset (live_block (p, (sz', al'))) (free_blocks h))) \<and>
    (\<forall>i < SLAB_CLASSES. slab_used (heap_stats h) ! i = live_in_class L i \<and>
       slab_free (heap_stats h) ! i + live_in_class L i = total_count (slabs h ! i))"
proof (intro conjI)
  note inv = heap_reach_inv(1)[OF assms(2,1)]
  show "\<exists>r. heap_alloc sz al (h, m) = Some r" using heap_alloc_inv[OF inv assms(3)] by blast
  show "\<forall>(p, (sz', al')) \<in> set_mset L. \<exists>h'. heap_dealloc p sz' al' h = Some h' \<and>
       free_blocks h' = (if layout_class (sz', al') = None then free_blocks h
         else add_mset (live_block (p, (sz', al'))) (free_blocks h))"
  proof (safe)
    fix p sz' al' assume "(p, sz', al') \<in># L"
    from inv this obtain h' where "heap_dealloc p sz' al' h = Some h'"
      "free_blocks h' = (if layout_class (sz', al') = None then free_blocks h
         else add_mset (live_block (p, (sz', al'))) (free_blocks h))"
      by (rule heap_dealloc_inv)
    then show "\<exists>h'. heap_dealloc p sz' al' h = Some h' \<and>
       free_blocks h' = (if layout_class (sz', al') = None then free_blocks h
         else add_mset (live_block (p, (sz', al'))) (free_blocks h))" by blast
  qed
  show "\<forall>i < SLAB_CLASSES. slab_used (heap_stats h) ! i = live_in_class L i \<and>
       slab_free (heap_stats h) ! i + live_in_class L i = total_count (slabs h ! i)"
    using heap_inv_stats[OF inv] by blast
qed

theorem heap_accounting_witness:
  "\<exists>h m. heap_reach HEAP_BASE HEAP_SIZE
      (h, m, {#(HEAP_BASE + 45960, (5000, 8)), (HEAP_BASE + 40960, (5000, 8))#}) \<and>
    (\<exists>r. heap_alloc 5000 8 (h, m) = Some r)"
proof (rule heap_reach_two)
  fix h m
  let ?L = "{#(HEAP_BASE + 45960, (5000, 8)), (HEAP_BASE + 40960, (5000, 8))#}"
  assume r: "heap_reach HEAP_BASE HEAP_SIZE (h, m, ?L)"
  then show ?thesis using heap_accounting[OF boot_heap_region r valid_5000(1)] by blast
qed

text \<open>
  A request returns the null pointer exactly when the heap is exhausted for its layout: for a
  slab layout, when its class has no free block and either no page is left or the class has
  reached its 1024 blocks; for a larger layout, when the rounded bump offset leaves no room.
  Otherwise the block it returns is a new allocation of the invariant.
\<close>
theorem heap_alloc_outcome:
  assumes "heap_inv h L" "valid_layout (sz, al)"
  shows "\<exists>ptr h' m'. heap_alloc sz al (h, m) = Some (ptr, h', m') \<and>
    (ptr = 0 \<longleftrightarrow> heap_exhausted h (sz, al)) \<and>
    heap_inv h' (if heap_exhausted h (sz, al) then L else add_mset (ptr, (sz, al)) L)"
proof -
  obtain ptr h' m' where run: "heap_alloc sz al (h, m) = Some (ptr, h', m')"
    "heap_inv h' (if ptr = 0 then L else add_mset (ptr, (sz, al)) L)"
    using assms by (rule heap_alloc_inv)
  then show ?thesis using heap_alloc_null[OF assms run(1)] by auto
qed

theorem heap_alloc_outcome_witness:
  "\<exists>h m ptr h' m'. heap_reach HEAP_BASE HEAP_SIZE (h, m, {#}) \<and>
     heap_alloc 5000 8 (h, m) = Some (ptr, h', m') \<and> (ptr = 0 \<longleftrightarrow> heap_exhausted h (5000, 8))"
proof (rule heap_reach_start[OF boot_heap_region])
  fix h m' assume "heap_reach HEAP_BASE HEAP_SIZE (h, m', {#})" "heap_inv h {#}"
  then show ?thesis using heap_alloc_outcome[OF _ valid_5000(1), of h "{#}" m'] by blast
qed

text \<open>
  Release and request are inverse on a class: the next request for a layout of the same
  class returns the block just released, takes no new page and leaves the set of free blocks as
  it was before the release.
\<close>
theorem heap_dealloc_alloc_roundtrip:
  assumes inv: "heap_inv h L" and live: "(ptr, (sz, al)) \<in># L"
    and cls: "layout_class (sz, al) = Some i" "layout_class (sz', al') = Some i"
    and run: "heap_dealloc ptr sz al h = Some h1"
  shows "\<exists>h2. heap_alloc sz' al' (h1, m) = Some (ptr, h2, m) \<and> free_blocks h2 = free_blocks h \<and>
    bump_offset h2 = bump_offset h"
proof -
  have i: "i < 10" using heap_alloc_slab_path[OF inv cls(1)] by simp
  have wf: "heap_wf h" using inv by (simp add: heap_inv_def)
  note c = heap_wf_class[OF wf i]
  have inv1: "heap_inv h1 (L - {#(ptr, (sz, al))#})" using heap_dealloc_keeps[OF inv live run] .
  have fb: "free_blocks h1 = add_mset (live_block (ptr, (sz, al))) (free_blocks h)"
    by (rule heap_dealloc_inv[OF inv live]) (use run cls in simp)
  have top: "0 < free_count (slabs h1 ! i)" "free_list (slabs h1 ! i) ! (free_count (slabs h1 ! i) - 1) = ptr"
    "bump_offset h1 = bump_offset h"
    using heap_dealloc_top[OF inv live cls(1) run] by auto
  let ?h2 = "h1\<lparr>slabs := (slabs h1)[i := (slabs h1 ! i)\<lparr>free_count := free_count (slabs h1 ! i) - 1\<rparr>]\<rparr>"
  have wf1: "heap_wf h1" using inv1 by (simp add: heap_inv_def)
  note c1 = heap_wf_class[OF wf1 i]
  have "heap_alloc sz' al' (h1, m) = Some (ptr, ?h2, m)"
    using heap_alloc_slab_path[OF inv1 cls(2)] top
    by (cases rule: alloc_from_slab_cases[OF wf1 i, of m]) auto
  moreover have "class_blocks (slabs h1 ! i) = add_mset (ptr, 8 * 2 ^ i)
      (class_blocks ((slabs h1 ! i)\<lparr>free_count := free_count (slabs h1 ! i) - 1\<rparr>))"
    using class_blocks_pop[OF top(1)] c1 top(2) by simp
  then have "free_blocks h1 = add_mset (ptr, 8 * 2 ^ i) (free_blocks ?h2)"
    using free_blocks_upd[OF c1(5), of "(slabs h1 ! i)\<lparr>free_count := free_count (slabs h1 ! i) - 1\<rparr>"] by simp
  then have "free_blocks ?h2 = free_blocks h"
    using fb cls(1) by (simp add: live_block_def layout_extent_def)
  ultimately show ?thesis using top(3) by auto
qed

theorem heap_dealloc_alloc_roundtrip_witness:
  "\<exists>h L ptr h1 h2. heap_inv h L \<and> (ptr, (8, 8)) \<in># L \<and> heap_dealloc ptr 8 8 h = Some h1 \<and>
     heap_alloc 8 8 (h1, \<lambda>_. 0) = Some (ptr, h2, \<lambda>_. 0)"
proof (rule heap_reach_slab)
  fix h m ptr assume "heap_reach HEAP_BASE HEAP_SIZE (h, m, {#(ptr, (8, 8))#})"
  then have inv: "heap_inv h {#(ptr, (8, 8))#}" by (rule heap_reach_inv(1)[OF _ boot_heap_region])
  then obtain h1 where "heap_dealloc ptr 8 8 h = Some h1"
    using heap_dealloc_inv[OF inv, of ptr 8 8] by auto
  then show ?thesis
    using heap_dealloc_alloc_roundtrip[OF inv _ valid_8(2) valid_8(2), of ptr h1 "\<lambda>_. 0"] inv by fastforce
qed

section \<open>Limits of the allocator\<close>

text \<open>
  The bump path leaves \<open>bump_offset\<close> unaligned, and the slab path takes its next page there: the
  block for a request of 4096 bytes aligned to 4096 is then not aligned.
\<close>

lemma heap_alloc_misaligned:
  assumes inv: "heap_inv h L" and empty: "free_count (slabs h ! 9) = 0" "total_count (slabs h ! 9) < 1024"
    and room: "bump_offset h + 4096 \<le> heap_size h"
    and align: "4096 dvd heap_start h" "\<not> 4096 dvd bump_offset h"
  shows "\<exists>ptr h' m'. heap_alloc 4096 4096 (h, m) = Some (ptr, h', m') \<and> ptr \<noteq> 0 \<and> \<not> 4096 dvd ptr"
proof -
  have wf: "heap_wf h" using inv by (simp add: heap_inv_def)
  have cls: "layout_class (4096, 4096) = Some 9"
    by (simp add: layout_class_def aligned_size_def find_slab_class_def SLAB_MAX_SIZE_def SLAB_CLASSES_def
        SLAB_MIN_SIZE_def upt_rec)
  note path = heap_alloc_slab_path[OF inv cls]
  from wf path(1) show ?thesis
  proof (cases rule: alloc_from_slab_cases[where m = m])
    case (page h1 m1)
    let ?s = "slabs h1 ! 9"
    have "free_count ?s = 1" "class_blocks ?s = {#(heap_start h + bump_offset h, 4096)#}"
      using page(3) empty heap_wf_class(5)[OF wf path(1)]
      by (auto simp: new_page_state_def page_blocks_def min_def)
    then have "free_list ?s ! 0 = heap_start h + bump_offset h" "0 < free_count ?s"
      by (cases "free_list ?s"; auto simp: class_blocks_def)+
    moreover have "\<not> 4096 dvd heap_start h + bump_offset h" "0 < heap_start h"
      using align wf dvd_add_right_iff by (auto simp: heap_wf_def)
    ultimately show ?thesis using page(4) path(2) \<open>free_count ?s = 1\<close> by auto
  qed (use empty room in auto)
qed

text \<open>
  When a class has its 1024 blocks and none is free, a request takes a page from the bump pointer,
  puts no block in it and returns the null pointer: the page is lost.
\<close>

lemma alloc_from_slab_page_lost:
  assumes wf: "heap_wf h" "i < 10" and full: "free_count (slabs h ! i) = 0" "total_count (slabs h ! i) = 1024"
    and room: "bump_offset h + 4096 \<le> heap_size h"
  shows "\<exists>h' m'. alloc_from_slab i (h, m) = Some (0, h', m') \<and> bump_offset h' = bump_offset h + 4096 \<and>
    free_blocks h' = free_blocks h"
  using wf
proof (cases rule: alloc_from_slab_cases[where m = m])
  case (page h1 m1)
  have "class_blocks (slabs h ! i) = {#}" using full by (simp add: class_blocks_def)
  then have "free_blocks h1 = free_blocks h" "bump_offset h1 = bump_offset h + 4096"
    using page(3) full free_blocks_upd[OF heap_wf_class(5)[OF wf]]
    by (auto simp: new_page_state_def page_blocks_def free_blocks_def)
  then show ?thesis using page(4) new_page_free_count[OF page(3) wf] full by auto
qed (use full room in auto)

end
