(* ===== verification/Vmm.thy ===== *)
theory Vmm
  imports Prelude
begin

text \<open>
  The virtual memory manager (\<open>src/src/memory/vmm.rs\<close>): four levels of page tables in physical
  memory, walked, extended and changed by \<open>map_page\<close>, \<open>unmap_page\<close>, \<open>update_flags\<close>,
  \<open>identity_map\<close> and \<open>translate\<close>.

  Addresses and entries are 64-bit words. Page-table entries are read and written as aligned
  64-bit words, so memory is a function from the address of such a word to its value. A call
  of \<open>unwrap\<close> on \<open>None\<close> panics; operations that contain one return an \<open>option\<close> whose value
  \<open>None\<close> is the panic.
\<close>

section \<open>Page flags and page tables\<close>

type_synonym PageFlags = u64
type_synonym PageTableEntry = u64
type_synonym VirtAddr = u64

definition PRESENT :: PageFlags where "PRESENT = push_bit 0 1"
definition WRITABLE :: PageFlags where "WRITABLE = push_bit 1 1"
definition USER_ACCESSIBLE :: PageFlags where "USER_ACCESSIBLE = push_bit 2 1"
definition WRITE_THROUGH :: PageFlags where "WRITE_THROUGH = push_bit 3 1"
definition NO_CACHE :: PageFlags where "NO_CACHE = push_bit 4 1"
definition ACCESSED :: PageFlags where "ACCESSED = push_bit 5 1"
definition DIRTY :: PageFlags where "DIRTY = push_bit 6 1"
definition HUGE_PAGE :: PageFlags where "HUGE_PAGE = push_bit 7 1"
definition GLOBAL :: PageFlags where "GLOBAL = push_bit 8 1"
definition NO_EXECUTE :: PageFlags where "NO_EXECUTE = push_bit 63 1"

definition page_flags_default :: PageFlags where
  "page_flags_default = PRESENT OR WRITABLE"

definition ADDR_MASK :: u64 where "ADDR_MASK = 0x000FFFFFFFFFF000"

definition PAGE :: u64 where "PAGE = 4096"

text \<open>
  The state that the operations share: the memory, the static \<open>NEXT_PAGE_ADDR\<close>, the register
  \<open>CR3\<close>, and the sequence of addresses passed to \<open>invlpg\<close>, latest first.
\<close>

record vm_state =
  vmem :: "u64 \<Rightarrow> u64"
  NEXT_PAGE_ADDR :: u64
  cr3 :: u64
  flushed :: "u64 list"

definition VMM_PAGES_END :: u64 where "VMM_PAGES_END = 0x800000"

record Vmm =
  pml4_addr :: u64

text \<open>A \<open>PageTable\<close> is the address of its 512 entries of 8 bytes.\<close>

type_synonym PageTable = u64

definition get_entry :: "PageTable \<Rightarrow> u64 \<Rightarrow> vm_state \<Rightarrow> PageTableEntry" where
  "get_entry t index s = vmem s (t + 8 * index)"

definition set_entry :: "PageTable \<Rightarrow> u64 \<Rightarrow> PageTableEntry \<Rightarrow> vm_state \<Rightarrow> vm_state" where
  "set_entry t index v s = s\<lparr>vmem := (vmem s)(t + 8 * index := v)\<rparr>"

definition is_present :: "PageTable \<Rightarrow> u64 \<Rightarrow> vm_state \<Rightarrow> bool" where
  "is_present t index s \<longleftrightarrow> get_entry t index s AND PRESENT \<noteq> 0"

definition get_next_table_addr :: "PageTable \<Rightarrow> u64 \<Rightarrow> vm_state \<Rightarrow> u64 option" where
  "get_next_table_addr t index s =
     (let entry = get_entry t index s in
      if entry AND PRESENT = 0 then None else Some (entry AND ADDR_MASK))"

section \<open>The manager\<close>

definition read_cr3 :: "vm_state \<Rightarrow> u64" where
  "read_cr3 s = cr3 s AND ADDR_MASK"

definition write_cr3 :: "u64 \<Rightarrow> vm_state \<Rightarrow> vm_state" where
  "write_cr3 addr s = s\<lparr>cr3 := addr\<rparr>"

definition vmm_new :: "vm_state \<Rightarrow> Vmm" where
  "vmm_new s = \<lparr>pml4_addr = read_cr3 s\<rparr>"

definition invlpg :: "VirtAddr \<Rightarrow> vm_state \<Rightarrow> vm_state" where
  "invlpg a s = s\<lparr>flushed := a # flushed s\<rparr>"

definition alloc_page_table :: "vm_state \<Rightarrow> u64 KernelResult \<times> vm_state" where
  "alloc_page_table s =
     (if NEXT_PAGE_ADDR s + PAGE > VMM_PAGES_END then (Err OutOfMemory, s)
      else let addr = NEXT_PAGE_ADDR s in
        (Ok addr,
         s\<lparr>NEXT_PAGE_ADDR := NEXT_PAGE_ADDR s + PAGE,
           vmem := (\<lambda>a. if addr \<le> a \<and> a < addr + PAGE then 0 else vmem s a)\<rparr>))"

definition pml4_index :: "VirtAddr \<Rightarrow> u64" where "pml4_index virt = drop_bit 39 virt AND 0x1FF"
definition pdpt_index :: "VirtAddr \<Rightarrow> u64" where "pdpt_index virt = drop_bit 30 virt AND 0x1FF"
definition pd_index :: "VirtAddr \<Rightarrow> u64" where "pd_index virt = drop_bit 21 virt AND 0x1FF"
definition pt_index :: "VirtAddr \<Rightarrow> u64" where "pt_index virt = drop_bit 12 virt AND 0x1FF"

text \<open>
  The block that \<open>map_page\<close> repeats for each of the upper three levels: create the next table when
  the entry is not present, then follow the entry.
\<close>

definition ensure_table :: "PageTable \<Rightarrow> u64 \<Rightarrow> vm_state \<Rightarrow> (PageTable KernelResult \<times> vm_state) option" where
  "ensure_table t index s =
     (if \<not> is_present t index s
      then case alloc_page_table s of
             (Err e, s1) \<Rightarrow> Some (Err e, s1)
           | (Ok new_table, s1) \<Rightarrow>
               let entry = new_table OR PRESENT OR WRITABLE;
                   s2 = set_entry t index entry s1
               in map_option (\<lambda>next. (Ok next, s2)) (get_next_table_addr t index s2)
      else map_option (\<lambda>next. (Ok next, s)) (get_next_table_addr t index s))"

text \<open>The \<open>?\<close> operator between two steps.\<close>

fun and_then ::
  "('a KernelResult \<times> vm_state) option \<Rightarrow> ('a \<Rightarrow> vm_state \<Rightarrow> ('b KernelResult \<times> vm_state) option) \<Rightarrow>
     ('b KernelResult \<times> vm_state) option" where
  "and_then None f = None"
| "and_then (Some (Inl e, s)) f = Some (Err e, s)"
| "and_then (Some (Inr a, s)) f = f a s"

definition map_page :: "Vmm \<Rightarrow> VirtAddr \<Rightarrow> u64 \<Rightarrow> PageFlags \<Rightarrow> vm_state \<Rightarrow> (unit KernelResult \<times> vm_state) option" where
  "map_page vmm virt phys flags s =
     (if virt mod PAGE \<noteq> 0 \<or> phys mod PAGE \<noteq> 0 then Some (Err InvalidArgument, s)
      else and_then (ensure_table (pml4_addr vmm) (pml4_index virt) s) (\<lambda>pdpt s1.
           and_then (ensure_table pdpt (pdpt_index virt) s1) (\<lambda>pd s2.
           and_then (ensure_table pd (pd_index virt) s2) (\<lambda>pt s3.
             if is_present pt (pt_index virt) s3 then Some (Err PageAlreadyMapped, s3)
             else Some (Ok (), invlpg virt (set_entry pt (pt_index virt) (phys OR flags) s3))))))"

definition ok_or :: "'a option \<Rightarrow> KernelError \<Rightarrow> 'a KernelResult" where
  "ok_or x e = (case x of None \<Rightarrow> Err e | Some a \<Rightarrow> Ok a)"

definition unmap_page :: "Vmm \<Rightarrow> VirtAddr \<Rightarrow> vm_state \<Rightarrow> u64 KernelResult \<times> vm_state" where
  "unmap_page vmm virt s =
     (if virt mod PAGE \<noteq> 0 then (Err InvalidArgument, s)
      else case ok_or (get_next_table_addr (pml4_addr vmm) (pml4_index virt) s) PageNotMapped of
        Err e \<Rightarrow> (Err e, s)
      | Ok pdpt \<Rightarrow> (case ok_or (get_next_table_addr pdpt (pdpt_index virt) s) PageNotMapped of
        Err e \<Rightarrow> (Err e, s)
      | Ok pd \<Rightarrow> (case ok_or (get_next_table_addr pd (pd_index virt) s) PageNotMapped of
        Err e \<Rightarrow> (Err e, s)
      | Ok pt \<Rightarrow>
          if \<not> is_present pt (pt_index virt) s then (Err PageNotMapped, s)
          else let old_entry = get_entry pt (pt_index virt) s;
                   phys = old_entry AND ADDR_MASK
               in (Ok phys, invlpg virt (set_entry pt (pt_index virt) 0 s)))))"

definition check_huge_page :: "PageTable \<Rightarrow> u64 \<Rightarrow> VirtAddr \<Rightarrow> nat \<Rightarrow> vm_state \<Rightarrow> u64 option" where
  "check_huge_page t index virt shift s =
     (let entry = get_entry t index s in
      if entry AND HUGE_PAGE \<noteq> 0 \<and> entry AND PRESENT \<noteq> 0
      then let m = push_bit shift 1 - 1; phys = entry AND ADDR_MASK in Some (phys + (virt AND m))
      else None)"

definition translate :: "Vmm \<Rightarrow> VirtAddr \<Rightarrow> vm_state \<Rightarrow> u64 option" where
  "translate vmm virt s =
     (case get_next_table_addr (pml4_addr vmm) (pml4_index virt) s of
        None \<Rightarrow> None
      | Some pdpt \<Rightarrow> (case check_huge_page pdpt (pdpt_index virt) virt 30 s of
        Some phys \<Rightarrow> Some phys
      | None \<Rightarrow> (case get_next_table_addr pdpt (pdpt_index virt) s of
        None \<Rightarrow> None
      | Some pd \<Rightarrow> (case check_huge_page pd (pd_index virt) virt 21 s of
        Some phys \<Rightarrow> Some phys
      | None \<Rightarrow> (case get_next_table_addr pd (pd_index virt) s of
        None \<Rightarrow> None
      | Some pt \<Rightarrow>
          if \<not> is_present pt (pt_index virt) s then None
          else Some ((get_entry pt (pt_index virt) s AND ADDR_MASK) + (virt AND 0xFFF)))))))"

text \<open>The loop of \<open>identity_map\<close>; it can only stop at \<open>end\<close> or at an error.\<close>

partial_function (option) identity_map_loop ::
  "Vmm \<Rightarrow> u64 \<Rightarrow> u64 \<Rightarrow> PageFlags \<Rightarrow> vm_state \<Rightarrow> (unit KernelResult \<times> vm_state) option" where
  "identity_map_loop vmm addr end_addr flags s =
     (if addr < end_addr
      then Option.bind (map_page vmm addr addr flags s)
             (\<lambda>(r, s1). case r of
                Err e \<Rightarrow> Some (Err e, s1)
              | Ok _ \<Rightarrow> identity_map_loop vmm (addr + PAGE) end_addr flags s1)
      else Some (Ok (), s))"

definition identity_map :: "Vmm \<Rightarrow> u64 \<Rightarrow> u64 \<Rightarrow> PageFlags \<Rightarrow> vm_state \<Rightarrow> (unit KernelResult \<times> vm_state) option" where
  "identity_map vmm start end_addr flags s =
     identity_map_loop vmm (start AND NOT (PAGE - 1)) end_addr flags s"

definition update_flags :: "Vmm \<Rightarrow> VirtAddr \<Rightarrow> PageFlags \<Rightarrow> vm_state \<Rightarrow> unit KernelResult \<times> vm_state" where
  "update_flags vmm virt flags s =
     (if virt mod PAGE \<noteq> 0 then (Err InvalidArgument, s)
      else case ok_or (get_next_table_addr (pml4_addr vmm) (pml4_index virt) s) PageNotMapped of
        Err e \<Rightarrow> (Err e, s)
      | Ok pdpt \<Rightarrow> (case ok_or (get_next_table_addr pdpt (pdpt_index virt) s) PageNotMapped of
        Err e \<Rightarrow> (Err e, s)
      | Ok pd \<Rightarrow> (case ok_or (get_next_table_addr pd (pd_index virt) s) PageNotMapped of
        Err e \<Rightarrow> (Err e, s)
      | Ok pt \<Rightarrow>
          if \<not> is_present pt (pt_index virt) s then (Err PageNotMapped, s)
          else let old_entry = get_entry pt (pt_index virt) s;
                   phys = old_entry AND ADDR_MASK;
                   new_entry = phys OR flags
               in (Ok (), invlpg virt (set_entry pt (pt_index virt) new_entry s)))))"

section \<open>Words: frames, indices and entries\<close>

named_theorems vmm_words \<open>flags and addresses of page-table entries\<close>

text \<open>A frame is a page-aligned address that an entry can hold.\<close>

definition frame :: "u64 \<Rightarrow> bool" where
  "frame a \<longleftrightarrow> a AND ADDR_MASK = a"

lemma bit_ADDR_MASK: "bit ADDR_MASK n \<longleftrightarrow> 12 \<le> n \<and> n < 52"
proof -
  have eq: "ADDR_MASK = push_bit 12 (mask 40)" by (simp add: ADDR_MASK_def mask_eq_exp_minus_1 push_bit_eq_mult)
  show ?thesis unfolding eq by (auto simp: bit_push_bit_iff bit_mask_iff)
qed

lemma and_exp_eq_0: "n < 64 \<Longrightarrow> e AND 2 ^ n = 0 \<longleftrightarrow> \<not> bit (e :: u64) n"
proof -
  assume n: "n < 64"
  have b: "bit (2 ^ n :: u64) k \<longleftrightarrow> k = n" for k using n by (auto simp: bit_exp_iff)
  have eq: "e AND 2 ^ n = (if bit e n then 2 ^ n else 0)"
    by (rule bit_word_eqI) (auto simp: bit_and_iff b)
  have "2 ^ n \<noteq> (0 :: u64)" using b[of n] bit_0_eq by (metis bot_apply bot_bool_def)
  then show ?thesis unfolding eq by simp
qed

lemma flag_exp: "PRESENT = 2 ^ 0" "WRITABLE = 2 ^ 1" "HUGE_PAGE = 2 ^ 7"
  by (simp_all add: PRESENT_def WRITABLE_def HUGE_PAGE_def)

lemma present_bit [vmm_words]: "e AND PRESENT = 0 \<longleftrightarrow> \<not> bit e 0"
  unfolding flag_exp by (rule and_exp_eq_0) simp

lemma huge_bit [vmm_words]: "e AND HUGE_PAGE = 0 \<longleftrightarrow> \<not> bit e 7"
  unfolding flag_exp by (rule and_exp_eq_0) simp

lemma frame_bits: "frame a \<longleftrightarrow> (\<forall>n. bit a n \<longrightarrow> 12 \<le> n \<and> n < 52)"
proof
  assume "frame a"
  then have "bit a n \<longleftrightarrow> bit a n \<and> bit ADDR_MASK n" for n by (metis frame_def bit_and_iff)
  then show "\<forall>n. bit a n \<longrightarrow> 12 \<le> n \<and> n < 52" by (simp add: bit_ADDR_MASK) blast
next
  assume "\<forall>n. bit a n \<longrightarrow> 12 \<le> n \<and> n < 52"
  then show "frame a" unfolding frame_def by (intro bit_word_eqI) (auto simp: bit_and_iff bit_ADDR_MASK)
qed

lemma frame_mask [vmm_words]: "frame (e AND ADDR_MASK)"
  by (simp add: frame_bits bit_and_iff bit_ADDR_MASK)

lemma table_entry [vmm_words]:
  assumes "frame n"
  shows "(n OR PRESENT OR WRITABLE) AND ADDR_MASK = n" "bit (n OR PRESENT OR WRITABLE) 0"
    "\<not> bit (n OR PRESENT OR WRITABLE) 7"
proof -
  have p: "bit PRESENT k \<longleftrightarrow> k = 0" "bit WRITABLE k \<longleftrightarrow> k = 1" for k
    unfolding flag_exp by (simp_all only: bit_exp_iff) (auto simp: possible_bit_def)
  show "(n OR PRESENT OR WRITABLE) AND ADDR_MASK = n"
    using assms by (auto intro!: bit_word_eqI simp: bit_and_iff bit_or_iff p bit_ADDR_MASK frame_bits)
  show "bit (n OR PRESENT OR WRITABLE) 0" "\<not> bit (n OR PRESENT OR WRITABLE) 7"
    using assms by (auto simp: bit_or_iff p frame_bits)
qed

lemma frame_nat:
  assumes "frame a"
  shows "unat a mod 4096 = 0" "unat a < 2 ^ 52"
proof -
  have "take_bit 12 a = 0"
    using assms by (intro bit_word_eqI) (auto simp: bit_take_bit_iff frame_bits)
  then have "take_bit 12 (unat a) = 0" by (metis unsigned_take_bit_eq unsigned_0)
  then show "unat a mod 4096 = 0" by (simp add: take_bit_eq_mod)
  have "take_bit 52 a = a"
    using assms by (intro bit_word_eqI) (auto simp: bit_take_bit_iff frame_bits)
  then have "take_bit 52 (unat a) = unat a" by (metis unsigned_take_bit_eq)
  then show "unat a < 2 ^ 52" by (metis take_bit_nat_less_exp)
qed

lemma index_less [vmm_words]:
  "pml4_index v < 512" "pdpt_index v < 512" "pd_index v < 512" "pt_index v < 512"
proof -
  have m: "(0x1FF :: u64) = mask 9" by (simp add: mask_eq_exp_minus_1)
  have "x AND 0x1FF < (512 :: u64)" for x
  proof -
    have "unat (take_bit 9 x) < 512" by (simp add: unsigned_take_bit_eq take_bit_nat_less_exp[of 9, simplified])
    then show ?thesis unfolding m by (simp add: take_bit_eq_mask[symmetric] word_less_nat_alt)
  qed
  then show "pml4_index v < 512" "pdpt_index v < 512" "pd_index v < 512" "pt_index v < 512"
    by (simp_all add: pml4_index_def pdpt_index_def pd_index_def pt_index_def)
qed

text \<open>The address of an entry determines the table and the index.\<close>

lemma entry_nat:
  assumes "frame t" "i < 512"
  shows "unat (t + 8 * i) = unat t + 8 * unat i"
proof -
  have i: "unat i < 512" using assms(2) by (simp add: word_less_nat_alt)
  then have e: "unat (8 * i) = 8 * unat i" using unat_mult_lem[of "8 :: u64" i] by simp
  then have "unat t + unat (8 * i) < 2 ^ LENGTH(64)" using frame_nat(2)[OF assms(1)] i by simp
  then have "unat (t + 8 * i) = unat t + unat (8 * i)" unfolding unat_add_lem .
  then show ?thesis unfolding e .
qed

lemma page_of_offset:
  fixes a i :: nat
  assumes "a mod 4096 = 0" "i < 512"
  shows "(a + 8 * i) div 4096 * 4096 = a"
proof -
  obtain q where "a = 4096 * q" using assms(1) by (metis mod_0_imp_dvd dvd_def)
  then show ?thesis using assms(2) by simp
qed

lemma entry_inj:
  assumes "frame t" "frame u" "i < 512" "j < 512"
  shows "t + 8 * i = u + 8 * j \<longleftrightarrow> t = u \<and> i = j"
proof
  assume "t + 8 * i = u + 8 * j"
  then have eq: "unat t + 8 * unat i = unat u + 8 * unat j"
    using entry_nat assms by metis
  have "unat i < 512" "unat j < 512" using assms(3,4) by (simp_all add: word_less_nat_alt)
  then have "unat t = unat u"
    using eq page_of_offset[OF frame_nat(1)[OF assms(1)]] page_of_offset[OF frame_nat(1)[OF assms(2)]] by metis
  then show "t = u \<and> i = j" using eq by (simp add: word_unat_eq_iff)
qed simp

lemma entry_in_page:
  assumes "frame t" "frame n" "i < 512"
  shows "n \<le> t + 8 * i \<and> t + 8 * i < n + PAGE \<longleftrightarrow> t = n"
proof -
  have n: "unat (n + PAGE) = unat n + 4096"
    using frame_nat(2)[OF assms(2)] unat_add_lem[of n PAGE] by (simp add: PAGE_def)
  have i: "unat i < 512" using assms(3) by (simp add: word_less_nat_alt)
  have "unat t = unat n" if "unat n \<le> unat t + 8 * unat i" "unat t + 8 * unat i < unat n + 4096"
  proof -
    obtain q where q: "unat n = 4096 * q" using frame_nat(1)[OF assms(2)] by (metis mod_0_imp_dvd dvd_def)
    have "(unat t + 8 * unat i) div 4096 = q"
      using that unfolding q by (intro div_nat_eqI) simp_all
    then show ?thesis using page_of_offset[OF frame_nat(1)[OF assms(1)] i] q by simp
  qed
  then have "unat n \<le> unat t + 8 * unat i \<and> unat t + 8 * unat i < unat n + 4096 \<longleftrightarrow> unat t = unat n"
    using i by auto
  then show ?thesis
    using entry_nat[OF assms(1,3)] n by (simp add: word_le_nat_alt word_less_nat_alt word_unat_eq_iff)
qed

section \<open>The tree of page tables\<close>

text \<open>
  A path is a list of indices from the root. \<open>walk\<close> follows present entries that are not huge
  pages; \<open>leaf\<close> is the entry that ends a path: a present entry of the lowest level, or a huge page
  on a level above. The function \<open>leaf\<close> is the abstract address space.
\<close>

type_synonym memory = "u64 \<Rightarrow> u64"
type_synonym path = "u64 list"

definition child :: "memory \<Rightarrow> PageTable \<Rightarrow> u64 \<Rightarrow> PageTable option" where
  "child m t i =
     (let e = m (t + 8 * i) in if bit e 0 \<and> \<not> bit e 7 then Some (e AND ADDR_MASK) else None)"

fun walk :: "memory \<Rightarrow> PageTable \<Rightarrow> path \<Rightarrow> PageTable option" where
  "walk m t [] = Some t"
| "walk m t (i # is) = (case child m t i of None \<Rightarrow> None | Some t' \<Rightarrow> walk m t' is)"

definition leaf :: "memory \<Rightarrow> PageTable \<Rightarrow> path \<Rightarrow> PageTableEntry option" where
  "leaf m r p =
     (if p = [] then None
      else case walk m r (butlast p) of
             None \<Rightarrow> None
           | Some t \<Rightarrow> let e = m (t + 8 * last p) in
               if bit e 0 \<and> (length p < 4 \<longrightarrow> bit e 7) then Some e else None)"

definition path_ok :: "nat \<Rightarrow> path \<Rightarrow> bool" where
  "path_ok n p \<longleftrightarrow> length p \<le> n \<and> (\<forall>i \<in> set p. i < 512)"

definition page_path :: "VirtAddr \<Rightarrow> path" where
  "page_path v = [pml4_index v, pdpt_index v, pd_index v, pt_index v]"

text \<open>
  The invariant: the tables form a tree (two paths never meet), none of them lies in the part
  of the table pool that is still to be handed out, and the root level has no huge page (the bit is reserved there).
\<close>

definition pt_inv :: "PageTable \<Rightarrow> vm_state \<Rightarrow> bool" where
  "pt_inv r s \<longleftrightarrow> frame r \<and> frame (NEXT_PAGE_ADDR s) \<and> NEXT_PAGE_ADDR s \<le> VMM_PAGES_END \<and>
     (\<forall>p q t. path_ok 3 p \<and> path_ok 3 q \<and> walk (vmem s) r p = Some t \<and> walk (vmem s) r q = Some t \<longrightarrow> p = q) \<and>
     (\<forall>p t. path_ok 3 p \<and> walk (vmem s) r p = Some t \<longrightarrow> t < NEXT_PAGE_ADDR s \<or> VMM_PAGES_END \<le> t) \<and>
     (\<forall>i < 512. leaf (vmem s) r [i] = None)"

lemma path_ok_simps [simp]:
  "path_ok n []"
  "path_ok n (p @ [i]) \<longleftrightarrow> path_ok n p \<and> length p < n \<and> i < 512"
  "path_ok (Suc n) (i # p) \<longleftrightarrow> i < 512 \<and> path_ok n p"
  by (auto simp: path_ok_def)

lemma path_ok_mono: "path_ok n p \<Longrightarrow> n \<le> k \<Longrightarrow> path_ok k p"
  by (auto simp: path_ok_def)

lemma walk_append: "walk m t (p @ q) = Option.bind (walk m t p) (\<lambda>u. walk m u q)"
  by (induction p arbitrary: t) (auto split: option.splits)

lemma walk_snoc: "walk m t (p @ [i]) = Option.bind (walk m t p) (\<lambda>u. child m u i)"
  by (cases "walk m t p") (auto simp: walk_append split: option.splits)

lemma leaf_snoc:
  "leaf m r (p @ [i]) =
     (case walk m r p of None \<Rightarrow> None
      | Some t \<Rightarrow> if bit (m (t + 8 * i)) 0 \<and> (length p < 3 \<longrightarrow> bit (m (t + 8 * i)) 7)
                 then Some (m (t + 8 * i)) else None)"
  by (auto simp: leaf_def Let_def split: option.splits)

lemma child_frame: "child m t i = Some u \<Longrightarrow> frame u"
  by (auto simp: child_def Let_def frame_mask split: if_splits)

lemma walk_frame: "frame r \<Longrightarrow> walk m r p = Some t \<Longrightarrow> frame t"
  by (induction p arbitrary: r) (auto split: option.splits dest: child_frame)

text \<open>How the code's reads appear in this vocabulary.\<close>

lemma get_next_child:
  "get_next_table_addr t i s = (if bit (vmem s (t + 8 * i)) 0 then Some (vmem s (t + 8 * i) AND ADDR_MASK) else None)"
  by (simp add: get_next_table_addr_def get_entry_def Let_def present_bit)

lemma is_present_bit: "is_present t i s \<longleftrightarrow> bit (vmem s (t + 8 * i)) 0"
  by (simp add: is_present_def get_entry_def present_bit)

text \<open>\<open>translate\<close> looks the address up in the abstract address space.\<close>

definition lookup :: "(path \<Rightarrow> PageTableEntry option) \<Rightarrow> VirtAddr \<Rightarrow> u64 option" where
  "lookup space v =
     (case space (take 2 (page_path v)) of
        Some e \<Rightarrow> Some ((e AND ADDR_MASK) + (v AND (push_bit 30 1 - 1)))
      | None \<Rightarrow> (case space (take 3 (page_path v)) of
        Some e \<Rightarrow> Some ((e AND ADDR_MASK) + (v AND (push_bit 21 1 - 1)))
      | None \<Rightarrow> map_option (\<lambda>e. (e AND ADDR_MASK) + (v AND 0xFFF)) (space (page_path v))))"

lemma translate_lookup:
  assumes "pt_inv (pml4_addr vmm) s"
  shows "translate vmm v s = lookup (leaf (vmem s) (pml4_addr vmm)) v"
proof -
  let ?m = "vmem s" and ?r = "pml4_addr vmm"
  have "leaf ?m ?r [pml4_index v] = None" using assms index_less by (auto simp: pt_inv_def)
  then have root: "bit (?m (?r + 8 * pml4_index v)) 0 \<longrightarrow> \<not> bit (?m (?r + 8 * pml4_index v)) 7"
    by (simp add: leaf_def Let_def split: if_splits)
  show ?thesis
    using root
    by (simp add: translate_def lookup_def page_path_def leaf_def child_def get_next_child is_present_bit
        check_huge_page_def get_entry_def Let_def present_bit huge_bit)
qed

section \<open>Creating a table\<close>

lemma pt_invD:
  assumes "pt_inv r s"
  shows "frame r" "frame (NEXT_PAGE_ADDR s)" "NEXT_PAGE_ADDR s \<le> VMM_PAGES_END"
    "\<And>p q t. path_ok 3 p \<Longrightarrow> path_ok 3 q \<Longrightarrow> walk (vmem s) r p = Some t \<Longrightarrow> walk (vmem s) r q = Some t \<Longrightarrow> p = q"
    "\<And>p t. path_ok 3 p \<Longrightarrow> walk (vmem s) r p = Some t \<Longrightarrow> t < NEXT_PAGE_ADDR s \<or> VMM_PAGES_END \<le> t"
    "\<And>i. i < 512 \<Longrightarrow> leaf (vmem s) r [i] = None"
  using assms unfolding pt_inv_def by blast+

text \<open>A fresh table \<open>n\<close> is cleared and linked from entry \<open>i\<close> of the table \<open>t\<close> that \<open>p\<close> reaches.\<close>

definition link_table :: "memory \<Rightarrow> PageTable \<Rightarrow> u64 \<Rightarrow> PageTable \<Rightarrow> memory" where
  "link_table m t i n =
     (\<lambda>a. if n \<le> a \<and> a < n + PAGE then 0 else m a)(t + 8 * i := n OR PRESENT OR WRITABLE)"

lemma link_table_reads:
  assumes "frame t" "frame u" "frame n" "i < 512" "j < 512" "t \<noteq> n"
  shows "link_table m t i n (u + 8 * j) =
    (if u = t \<and> j = i then n OR PRESENT OR WRITABLE else if u = n then 0 else m (u + 8 * j))"
  using entry_inj[OF assms(1,2,4,5)] entry_in_page[OF assms(2,3,5)] by (auto simp: link_table_def)

lemma walk_link:
  assumes inv: "pt_inv r s" and p: "path_ok 2 p" "walk (vmem s) r p = Some t" "i < 512"
    and absent: "\<not> bit (vmem s (t + 8 * i)) 0"
    and fresh: "frame n" "\<And>q. path_ok 3 q \<Longrightarrow> walk (vmem s) r q \<noteq> Some n"
    and q: "path_ok 3 q"
  shows "walk (link_table (vmem s) t i n) r q = (if q = p @ [i] then Some n else walk (vmem s) r q)"
  using q
proof (induction q rule: rev_induct)
  case Nil
  then show ?case by simp
next
  case (snoc j q)
  let ?m = "vmem s"
  note D = pt_invD[OF inv]
  have p3: "path_ok 3 p" using p(1) by (rule path_ok_mono) simp
  have q3: "path_ok 3 q" and j: "j < 512" using snoc.prems by (auto simp: path_ok_def)
  have ft: "frame t" "t \<noteq> n" using walk_frame[OF D(1) p(2)] fresh(2)[OF p3] p(2) by auto
  have IH: "walk (link_table ?m t i n) r q = (if q = p @ [i] then Some n else walk ?m r q)"
    using snoc.IH q3 by blast
  have none: "walk ?m r (p @ [i]) = None" using p(2) absent by (simp add: walk_snoc child_def)
  show ?case
  proof (cases "walk ?m r q")
    case None
    then have "q \<noteq> p" using p(2) by auto
    have "child (link_table ?m t i n) n j = None"
      using link_table_reads[OF ft(1) fresh(1) fresh(1) p(3) j ft(2)] ft(2) by (simp add: child_def)
    then show ?thesis using IH None \<open>q \<noteq> p\<close> by (simp add: walk_snoc)
  next
    case (Some u)
    have fu: "frame u" "u \<noteq> n" using walk_frame[OF D(1) Some] fresh(2)[OF q3] Some by auto
    have qp: "q \<noteq> p @ [i]" using Some none by auto
    have reads: "link_table ?m t i n (u + 8 * j) =
        (if u = t \<and> j = i then n OR PRESENT OR WRITABLE else ?m (u + 8 * j))"
      using link_table_reads[OF ft(1) fu(1) fresh(1) p(3) j ft(2)] fu(2) by simp
    have "u = t \<longleftrightarrow> q = p" using D(4)[OF q3 p3] Some p(2) by auto
    then show ?thesis
      using IH Some qp reads fresh(1) by (auto simp: walk_snoc child_def Let_def table_entry)
  qed
qed

lemma leaf_link:
  assumes inv: "pt_inv r s" and p: "path_ok 2 p" "walk (vmem s) r p = Some t" "i < 512"
    and absent: "\<not> bit (vmem s (t + 8 * i)) 0"
    and fresh: "frame n" "\<And>q. path_ok 3 q \<Longrightarrow> walk (vmem s) r q \<noteq> Some n"
    and q: "path_ok 4 q"
  shows "leaf (link_table (vmem s) t i n) r q = leaf (vmem s) r q"
proof (cases q rule: rev_cases)
  case Nil
  then show ?thesis by (simp add: leaf_def)
next
  case (snoc q' j)
  let ?m = "vmem s"
  note D = pt_invD[OF inv]
  have p3: "path_ok 3 p" using p(1) by (rule path_ok_mono) simp
  have q3: "path_ok 3 q'" and j: "j < 512" using q snoc by (auto simp: path_ok_def)
  have ft: "frame t" "t \<noteq> n" using walk_frame[OF D(1) p(2)] fresh(2)[OF p3] p(2) by auto
  have none: "walk ?m r (p @ [i]) = None" using p(2) absent by (simp add: walk_snoc child_def)
  note W = walk_link[OF inv p absent fresh q3]
  show ?thesis
  proof (cases "walk ?m r q'")
    case None
    have "link_table ?m t i n (n + 8 * j) = 0"
      using link_table_reads[OF ft(1) fresh(1) fresh(1) p(3) j ft(2)] ft(2) by simp
    then show ?thesis using W None by (simp add: snoc leaf_snoc)
  next
    case (Some u)
    have fu: "frame u" "u \<noteq> n" using walk_frame[OF D(1) Some] fresh(2)[OF q3] Some by auto
    have "q' \<noteq> p @ [i]" using Some none by auto
    then have W': "walk (link_table ?m t i n) r q' = Some u" using W Some by simp
    have reads: "link_table ?m t i n (u + 8 * j) =
        (if u = t \<and> j = i then n OR PRESENT OR WRITABLE else ?m (u + 8 * j))"
      using link_table_reads[OF ft(1) fu(1) fresh(1) p(3) j ft(2)] fu(2) by simp
    have "u = t \<longrightarrow> length q' < 3"
      using D(4)[OF q3 p3 Some] p(1,2) by (auto simp: path_ok_def)
    then show ?thesis
      using W' Some reads absent fresh(1) by (auto simp: snoc leaf_snoc table_entry)
  qed
qed

section \<open>The pool of page tables\<close>

definition pt_pool :: "vm_state \<Rightarrow> u64 set" where
  "pt_pool s = {a. frame a \<and> NEXT_PAGE_ADDR s \<le> a \<and> a < VMM_PAGES_END}"

definition pool_inv :: "vm_state \<Rightarrow> bool" where
  "pool_inv s \<longleftrightarrow> frame (NEXT_PAGE_ADDR s) \<and> NEXT_PAGE_ADDR s \<le> VMM_PAGES_END"

lemma frame_step:
  assumes "frame a" "frame b" "a < b"
  shows "unat a + 4096 \<le> unat b"
proof -
  obtain k l where "unat a = 4096 * k" "unat b = 4096 * l"
    using frame_nat(1)[OF assms(1)] frame_nat(1)[OF assms(2)] by (metis mod_0_imp_dvd dvd_def)
  moreover have "unat a < unat b" using assms(3) by (simp add: word_less_nat_alt)
  ultimately show ?thesis by simp
qed

lemma frame_END: "frame VMM_PAGES_END" "unat VMM_PAGES_END = 8388608"
  by (simp_all add: frame_def VMM_PAGES_END_def ADDR_MASK_def)

lemma NEXT_nat: "pool_inv s \<Longrightarrow> unat (NEXT_PAGE_ADDR s + PAGE) = unat (NEXT_PAGE_ADDR s) + 4096"
  using frame_nat(2)[of "NEXT_PAGE_ADDR s"] unat_add_lem[of "NEXT_PAGE_ADDR s" PAGE]
  by (simp add: pool_inv_def PAGE_def)

lemma frame_of_nat:
  assumes "unat a mod 4096 = 0" "unat a < 2 ^ 52"
  shows "frame a"
proof -
  have "take_bit 12 (unat a) = 0" using assms(1) by (simp add: take_bit_eq_mod)
  then have "take_bit 12 a = 0" by (metis unsigned_take_bit_eq unsigned_eq_0_iff)
  then have lo: "\<not> bit a n" if "n < 12" for n using that by (metis bit_take_bit_iff bit_0_eq bot_apply bot_bool_def)
  have "take_bit 52 (unat a) = unat a" using assms(2) by (simp add: take_bit_nat_eq_self)
  then have "take_bit 52 a = a" by (metis unsigned_take_bit_eq unsigned_word_eqI)
  then have hi: "\<not> bit a n" if "52 \<le> n" for n using that by (metis bit_take_bit_iff not_less)
  show ?thesis unfolding frame_bits using lo hi by (meson not_le)
qed

lemma alloc_page_table_Ok:
  assumes "pool_inv s" "alloc_page_table s = (Ok a, s')"
  shows "a = NEXT_PAGE_ADDR s" "a \<in> pt_pool s" "pt_pool s' = pt_pool s - {a}" "pool_inv s'"
    "vmem s' = (\<lambda>x. if a \<le> x \<and> x < a + PAGE then 0 else vmem s x)" "flushed s' = flushed s" "cr3 s' = cr3 s"
    "NEXT_PAGE_ADDR s' = NEXT_PAGE_ADDR s + PAGE"
proof -
  note n = NEXT_nat[OF assms(1)]
  have run: "a = NEXT_PAGE_ADDR s" "\<not> VMM_PAGES_END < NEXT_PAGE_ADDR s + PAGE"
    "s' = s\<lparr>NEXT_PAGE_ADDR := NEXT_PAGE_ADDR s + PAGE,
           vmem := (\<lambda>x. if a \<le> x \<and> x < a + PAGE then 0 else vmem s x)\<rparr>"
    using assms(2) by (auto simp: alloc_page_table_def Let_def split: if_splits)
  then show "a = NEXT_PAGE_ADDR s" "flushed s' = flushed s" "cr3 s' = cr3 s"
    "vmem s' = (\<lambda>x. if a \<le> x \<and> x < a + PAGE then 0 else vmem s x)"
    "NEXT_PAGE_ADDR s' = NEXT_PAGE_ADDR s + PAGE" by simp_all
  have f: "frame a" using assms(1) run(1) by (simp add: pool_inv_def)
  have le: "unat a + 4096 \<le> unat VMM_PAGES_END"
    using run(1,2) n by (simp add: word_less_nat_alt)
  then show "a \<in> pt_pool s" using f run(1) by (simp add: pt_pool_def word_less_nat_alt)
  have "b \<in> pt_pool s' \<longleftrightarrow> b \<in> pt_pool s - {a}" for b
    using frame_step[OF f, of b] n run(1,3)
    by (auto simp: pt_pool_def word_less_nat_alt word_le_nat_alt word_unat_eq_iff)
  then show "pt_pool s' = pt_pool s - {a}" by blast
  have "(unat a + 4096) mod 4096 = 0" using frame_nat(1)[OF f] by simp
  then show "pool_inv s'"
    unfolding pool_inv_def using run le n frame_END by (auto intro!: frame_of_nat simp: word_le_nat_alt)
qed

lemma alloc_page_table_Err:
  assumes "pool_inv s" "alloc_page_table s = (Err e, s')"
  shows "e = OutOfMemory" "s' = s" "pt_pool s = {}"
proof -
  show "e = OutOfMemory" "s' = s"
    using assms(2) by (auto simp: alloc_page_table_def Let_def split: if_splits)
  have "VMM_PAGES_END < NEXT_PAGE_ADDR s + PAGE"
    using assms(2) by (auto simp: alloc_page_table_def Let_def split: if_splits)
  then have lt: "unat VMM_PAGES_END < unat (NEXT_PAGE_ADDR s) + 4096"
    using NEXT_nat[OF assms(1)] by (simp add: word_less_nat_alt)
  have "\<not> NEXT_PAGE_ADDR s < VMM_PAGES_END"
    using frame_step[of "NEXT_PAGE_ADDR s" VMM_PAGES_END] assms(1) lt frame_END(1) by (auto simp: pool_inv_def)
  then show "pt_pool s = {}" by (auto simp: pt_pool_def)
qed

interpretation pt_frames: frame_source alloc_page_table pt_pool pool_inv
proof unfold_locales
  fix s a s' assume "pool_inv s" "alloc_page_table s = (Ok a, s')"
  then show "a \<in> pt_pool s \<and> pt_pool s' = pt_pool s - {a} \<and> pool_inv s'"
    using alloc_page_table_Ok by blast
next
  fix s e s' assume "pool_inv s" "alloc_page_table s = (Err e, s')"
  then show "pt_pool s = {} \<and> s' = s" using alloc_page_table_Err by blast
next
  fix s show "finite (pt_pool s)" by simp
qed

section \<open>Descending with creation\<close>

text \<open>What \<open>ensure_table\<close> leaves unchanged: the abstract address space, \<open>CR3\<close> and the flushes.\<close>

definition same_space :: "PageTable \<Rightarrow> vm_state \<Rightarrow> vm_state \<Rightarrow> bool" where
  "same_space r s s' \<longleftrightarrow> pt_inv r s' \<and> cr3 s' = cr3 s \<and> flushed s' = flushed s \<and> pt_pool s' \<subseteq> pt_pool s \<and>
     (\<forall>q. path_ok 4 q \<longrightarrow> leaf (vmem s') r q = leaf (vmem s) r q)"

lemma same_space_trans: "same_space r s s' \<Longrightarrow> same_space r s' s'' \<Longrightarrow> same_space r s s''"
  unfolding same_space_def by auto

lemma pt_inv_pool: "pt_inv r s \<Longrightarrow> pool_inv s"
  by (simp add: pt_inv_def pool_inv_def)

lemma create_table:
  assumes inv: "pt_inv r s" and p: "path_ok 2 p" "walk (vmem s) r p = Some t" "i < 512"
    and absent: "\<not> bit (vmem s (t + 8 * i)) 0" and run: "alloc_page_table s = (Ok n, s1)"
  defines "s2 \<equiv> set_entry t i (n OR PRESENT OR WRITABLE) s1"
  shows "same_space r s s2" "walk (vmem s2) r (p @ [i]) = Some n"
    "get_next_table_addr t i s2 = Some n"
proof -
  note D = pt_invD[OF inv] and P = pt_inv_pool[OF inv]
  note A = alloc_page_table_Ok[OF P run]
  have n: "frame n" "NEXT_PAGE_ADDR s \<le> n" "n < VMM_PAGES_END"
    using A(2) by (auto simp: pt_pool_def)
  have fresh: "walk (vmem s) r q \<noteq> Some n" if "path_ok 3 q" for q
    using D(5)[OF that, of n] n by auto
  have mem: "vmem s2 = link_table (vmem s) t i n"
    by (simp add: s2_def set_entry_def link_table_def A(5))
  have W: "walk (vmem s2) r q = (if q = p @ [i] then Some n else walk (vmem s) r q)" if "path_ok 3 q" for q
    unfolding mem using inv p absent n(1) fresh that by (rule walk_link)
  have L: "leaf (vmem s2) r q = leaf (vmem s) r q" if "path_ok 4 q" for q
    unfolding mem using inv p absent n(1) fresh that by (rule leaf_link)
  have p3: "path_ok 3 (p @ [i])" using p(1,3) by (auto simp: path_ok_def)
  show "walk (vmem s2) r (p @ [i]) = Some n" using W[OF p3] by simp
  have "vmem s2 (t + 8 * i) = n OR PRESENT OR WRITABLE" by (simp add: mem link_table_def)
  then show "get_next_table_addr t i s2 = Some n"
    using n(1) by (simp add: get_next_child table_entry)
  have none: "walk (vmem s) r (p @ [i]) = None" using p(2) absent by (simp add: walk_snoc child_def)
  have next1: "NEXT_PAGE_ADDR s2 = NEXT_PAGE_ADDR s1" by (simp add: s2_def set_entry_def)
  have pool1: "frame (NEXT_PAGE_ADDR s1)" "NEXT_PAGE_ADDR s1 \<le> VMM_PAGES_END"
    using A(4) by (auto simp: pool_inv_def)
  have up: "n < NEXT_PAGE_ADDR s1"
    using A(1,8) NEXT_nat[OF P] by (simp add: word_less_nat_alt)
  have "x = y" if "path_ok 3 x" "path_ok 3 y" "walk (vmem s2) r x = Some u" "walk (vmem s2) r y = Some u" for x y u
    using that W[OF that(1)] W[OF that(2)] D(4)[OF that(1,2), of u] fresh by (auto split: if_splits)
  moreover have "u < NEXT_PAGE_ADDR s1 \<or> VMM_PAGES_END \<le> u" if "path_ok 3 x" "walk (vmem s2) r x = Some u" for x u
    using that W[OF that(1)] D(5)[OF that(1), of u] up A(1) by (auto split: if_splits)
  moreover have "leaf (vmem s2) r [j] = None" if "j < 512" for j
    using L[of "[j]"] D(6)[OF that] that by (simp add: path_ok_def)
  ultimately have "pt_inv r s2"
    unfolding pt_inv_def next1 using D(1) pool1 by blast
  moreover have "pt_pool s2 = pt_pool s1" by (simp add: pt_pool_def next1)
  ultimately show "same_space r s s2"
    unfolding same_space_def using L A by (auto simp: s2_def set_entry_def)
qed

lemma ensure_table_spec:
  assumes inv: "pt_inv r s" and p: "path_ok 2 p" "walk (vmem s) r p = Some t" "i < 512"
    and small: "leaf (vmem s) r (p @ [i]) = None"
  obtains (oom) "ensure_table t i s = Some (Err OutOfMemory, s)" "pt_pool s = {}"
  | (ok) u s' where "ensure_table t i s = Some (Ok u, s')" "same_space r s s'"
      "walk (vmem s') r (p @ [i]) = Some u"
proof (cases "bit (vmem s (t + 8 * i)) 0")
  case True
  have "length p < 3" using p(1) by (simp add: path_ok_def)
  then have "\<not> bit (vmem s (t + 8 * i)) 7"
    using small p(2) True by (simp add: leaf_snoc split: if_splits)
  then have "walk (vmem s) r (p @ [i]) = Some (vmem s (t + 8 * i) AND ADDR_MASK)"
    using p(2) True by (simp add: walk_snoc child_def Let_def)
  moreover have "same_space r s s" using inv by (simp add: same_space_def)
  ultimately show ?thesis
    using True by (intro ok) (auto simp: ensure_table_def is_present_bit get_next_child)
next
  case absent: False
  obtain x s1 where run: "alloc_page_table s = (x, s1)" by fastforce
  show ?thesis
  proof (cases x)
    case (Inl e)
    then show ?thesis
      using alloc_page_table_Err[OF pt_inv_pool[OF inv], of e s1] run absent
      by (intro oom) (auto simp: ensure_table_def is_present_bit)
  next
    case (Inr n)
    then show ?thesis
      using create_table[OF inv p absent, of n s1] run absent
      by (intro ok) (auto simp: ensure_table_def is_present_bit Let_def)
  qed
qed

section \<open>Changing an entry of the lowest level\<close>

lemma set_leaf:
  fixes v :: u64
  assumes inv: "pt_inv r s" and p: "path_ok 3 p" "length p = 3" "walk (vmem s) r p = Some t" "i < 512"
  defines "s' \<equiv> set_entry t i v s"
  shows "pt_inv r s'"
    "\<And>q. path_ok 4 q \<Longrightarrow> leaf (vmem s') r q =
       (if q = p @ [i] then if bit v 0 then Some v else None else leaf (vmem s) r q)"
proof -
  note D = pt_invD[OF inv]
  have mem: "vmem s' = (vmem s)(t + 8 * i := v)" by (simp add: s'_def set_entry_def)
  have ft: "frame t" by (rule walk_frame[OF D(1) p(3)])
  have reads: "vmem s' (u + 8 * j) = (if u = t \<and> j = i then v else vmem s (u + 8 * j))"
    if "frame u" "j < 512" for u j
    using entry_inj[OF ft that(1) p(4) that(2)] by (auto simp: mem)
  have W: "walk (vmem s') r q = walk (vmem s) r q" if "path_ok 3 q" for q
    using that
  proof (induction q rule: rev_induct)
    case (snoc j q)
    have q: "path_ok 3 q" "length q < 3" "j < 512" using snoc.prems by (auto simp: path_ok_def)
    have "u \<noteq> t" if "walk (vmem s) r q = Some u" for u
      using D(4)[OF q(1) p(1) that] p(2,3) q(2) by auto
    then show ?case
      using snoc.IH[OF q(1)] reads[OF _ q(3)] walk_frame[OF D(1)]
      by (cases "walk (vmem s) r q") (auto simp: walk_snoc child_def)
  qed simp
  show L: "leaf (vmem s') r q =
       (if q = p @ [i] then if bit v 0 then Some v else None else leaf (vmem s) r q)"
    if "path_ok 4 q" for q
  proof (cases q rule: rev_cases)
    case (snoc q' j)
    have q: "path_ok 3 q'" "j < 512" using that snoc by (auto simp: path_ok_def)
    show ?thesis
    proof (cases "walk (vmem s) r q'")
      case (Some u)
      have "u = t \<longleftrightarrow> q' = p" using D(4)[OF q(1) p(1) Some] p(3) Some by auto
      then show ?thesis
        using Some W[OF q(1)] reads[OF walk_frame[OF D(1) Some] q(2)] p(2) by (auto simp: snoc leaf_snoc)
    qed (use W[OF q(1)] p(3) in \<open>auto simp: snoc leaf_snoc\<close>)
  qed (simp add: leaf_def)
  have next1: "NEXT_PAGE_ADDR s' = NEXT_PAGE_ADDR s" by (simp add: s'_def set_entry_def)
  have "leaf (vmem s') r [j] = None" if "j < 512" for j
    using L[of "[j]"] D(6)[OF that] that p(2) by (auto simp: path_ok_def)
  then show "pt_inv r s'"
    unfolding pt_inv_def next1 using D W by (metis (no_types, lifting))
qed

section \<open>The operations on the abstract address space\<close>

lemma path_ok_page_path [simp]: "path_ok 4 (page_path v)" "path_ok 4 (take 2 (page_path v))" "path_ok 4 (take 3 (page_path v))"
  by (simp_all add: path_ok_def page_path_def index_less)

lemma length_page_path [simp]: "length (page_path v) = 4"
  by (simp add: page_path_def)

text \<open>No huge page covers the address.\<close>

definition small_path :: "PageTable \<Rightarrow> VirtAddr \<Rightarrow> vm_state \<Rightarrow> bool" where
  "small_path r v s \<longleftrightarrow> leaf (vmem s) r (take 2 (page_path v)) = None \<and> leaf (vmem s) r (take 3 (page_path v)) = None"

lemma map_page_cases:
  assumes inv: "pt_inv (pml4_addr vmm) s" and small: "small_path (pml4_addr vmm) virt s"
    and al: "virt mod PAGE = 0" "phys mod PAGE = 0"
  obtains
    (oom) s' where "map_page vmm virt phys flags s = Some (Err OutOfMemory, s')"
      "same_space (pml4_addr vmm) s s'" "pt_pool s' = {}"
  | (dup) s' e where "map_page vmm virt phys flags s = Some (Err PageAlreadyMapped, s')"
      "same_space (pml4_addr vmm) s s'" "leaf (vmem s) (pml4_addr vmm) (page_path virt) = Some e"
  | (ok) s1 t where "map_page vmm virt phys flags s =
         Some (Ok (), invlpg virt (set_entry t (pt_index virt) (phys OR flags) s1))"
      "same_space (pml4_addr vmm) s s1" "walk (vmem s1) (pml4_addr vmm) (take 3 (page_path virt)) = Some t"
      "leaf (vmem s) (pml4_addr vmm) (page_path virt) = None"
proof -
  let ?r = "pml4_addr vmm"
  let ?a = "pml4_index virt" and ?b = "pdpt_index virt" and ?c = "pd_index virt" and ?d = "pt_index virt"
  note idx = index_less[of virt]
  have map: "map_page vmm virt phys flags s =
      and_then (ensure_table ?r ?a s) (\<lambda>pdpt s1.
      and_then (ensure_table pdpt ?b s1) (\<lambda>pd s2.
      and_then (ensure_table pd ?c s2) (\<lambda>pt s3.
        if is_present pt ?d s3 then Some (Err PageAlreadyMapped, s3)
        else Some (Ok (), invlpg virt (set_entry pt ?d (phys OR flags) s3)))))"
    using al by (simp add: map_page_def)
  have sp: "leaf (vmem s') ?r [?a, ?b] = None" "leaf (vmem s') ?r [?a, ?b, ?c] = None"
    "leaf (vmem s') ?r (page_path virt) = leaf (vmem s) ?r (page_path virt)" if "same_space ?r s s'" for s'
    using that small idx by (simp_all add: same_space_def small_path_def page_path_def path_ok_def)
  have root: "leaf (vmem s) ?r ([] @ [?a]) = None" using pt_invD(6)[OF inv] idx by simp
  from inv path_ok_simps(1) walk.simps(1) idx(1) root show ?thesis
  proof (cases rule: ensure_table_spec)
    case oom
    then show ?thesis using map inv by (intro that(1)) (auto simp: same_space_def)
  next
    case (ok t1 s1)
    note s1 = this
    have inv1: "pt_inv ?r s1" using s1(2) by (simp add: same_space_def)
    have w1: "path_ok 2 [?a]" "walk (vmem s1) ?r [?a] = Some t1" "leaf (vmem s1) ?r ([?a] @ [?b]) = None"
      using s1 sp(1)[OF s1(2)] idx by (simp_all add: path_ok_def)
    from inv1 w1(1,2) idx(2) w1(3) show ?thesis
    proof (cases rule: ensure_table_spec)
      case oom
      then show ?thesis using map s1 by (intro that(1)) auto
    next
      case (ok t2 s2)
      have ss2: "same_space ?r s s2" using same_space_trans s1(2) ok(2) by blast
      note s2 = ok(1,3) ss2
      have inv2: "pt_inv ?r s2" using ss2 by (simp add: same_space_def)
      have w2: "path_ok 2 [?a, ?b]" "walk (vmem s2) ?r [?a, ?b] = Some t2"
        "leaf (vmem s2) ?r ([?a, ?b] @ [?c]) = None"
        using s2 sp(2)[OF ss2] idx by (simp_all add: path_ok_def)
      from inv2 w2(1,2) idx(3) w2(3) show ?thesis
      proof (cases rule: ensure_table_spec)
        case oom
        then show ?thesis using map s1(1) s2 by (intro that(1)) auto
      next
        case (ok t3 s3)
        have ss3: "same_space ?r s s3" using same_space_trans ss2 ok(2) by blast
        have w3: "walk (vmem s3) ?r [?a, ?b, ?c] = Some t3" using ok(3) by simp
        have lf: "leaf (vmem s3) ?r (page_path virt) =
            (if is_present t3 ?d s3 then Some (vmem s3 (t3 + 8 * ?d)) else None)"
          using w3 leaf_snoc[of "vmem s3" ?r "[?a, ?b, ?c]" ?d] by (simp add: page_path_def is_present_bit)
        show ?thesis
        proof (cases "is_present t3 ?d s3")
          case True
          then show ?thesis using map s1(1) s2(1) ok(1) ss3 lf sp(3)[OF ss3] by (intro that(2)) auto
        next
          case False
          then show ?thesis using map s1(1) s2(1) ok(1) ss3 w3 lf sp(3)[OF ss3]
            by (intro that(3)) (auto simp: page_path_def)
        qed
      qed
    qed
  qed
qed

definition page_table :: "Vmm \<Rightarrow> VirtAddr \<Rightarrow> vm_state \<Rightarrow> PageTable" where
  "page_table vmm v s = the (walk (vmem s) (pml4_addr vmm) (take 3 (page_path v)))"

lemma root_not_huge:
  assumes "pt_inv (pml4_addr vmm) s"
  shows "bit (vmem s (pml4_addr vmm + 8 * pml4_index v)) 0 \<longrightarrow> \<not> bit (vmem s (pml4_addr vmm + 8 * pml4_index v)) 7"
  using pt_invD(6)[OF assms index_less(1), of v] by (simp add: leaf_def Let_def split: if_splits)

lemma descend_eq:
  assumes "pt_inv (pml4_addr vmm) s" "small_path (pml4_addr vmm) virt s" "virt mod PAGE = 0"
  shows "unmap_page vmm virt s =
      (case leaf (vmem s) (pml4_addr vmm) (page_path virt) of
         None \<Rightarrow> (Err PageNotMapped, s)
       | Some e \<Rightarrow> (Ok (e AND ADDR_MASK), invlpg virt (set_entry (page_table vmm virt s) (pt_index virt) 0 s)))"
    "update_flags vmm virt flags s =
      (case leaf (vmem s) (pml4_addr vmm) (page_path virt) of
         None \<Rightarrow> (Err PageNotMapped, s)
       | Some e \<Rightarrow> (Ok (), invlpg virt
            (set_entry (page_table vmm virt s) (pt_index virt) ((e AND ADDR_MASK) OR flags) s)))"
  using assms(2,3) root_not_huge[OF assms(1), of virt]
  by (simp_all add: unmap_page_def update_flags_def ok_or_def get_next_child is_present_bit get_entry_def
      page_path_def leaf_def child_def small_path_def page_table_def Let_def split: if_splits)

lemma leaf_page_table:
  assumes "leaf (vmem s) (pml4_addr vmm) (page_path virt) = Some e"
  shows "walk (vmem s) (pml4_addr vmm) (take 3 (page_path virt)) = Some (page_table vmm virt s)"
  using assms by (auto simp: leaf_def page_table_def page_path_def split: option.splits)

lemma page_path_split: "page_path v = take 3 (page_path v) @ [pt_index v]"
  by (simp add: page_path_def)

text \<open>The effect of writing the lowest entry of a path, with the flush.\<close>

lemma write_page_entry:
  fixes e :: u64
  assumes inv: "pt_inv r s" and w: "walk (vmem s) r (take 3 (page_path virt)) = Some t"
  defines "s' \<equiv> invlpg virt (set_entry t (pt_index virt) e s)"
  shows "pt_inv r s'" "flushed s' = virt # flushed s"
    "path_ok 4 q \<Longrightarrow> leaf (vmem s') r q =
       (if q = page_path virt then if bit e 0 then Some e else None else leaf (vmem s) r q)"
proof -
  have p: "path_ok 3 (take 3 (page_path virt))" "length (take 3 (page_path virt)) = 3"
    by (simp_all add: path_ok_def page_path_def index_less)
  note S = set_leaf[OF inv p w index_less(4)[of virt], where v = e, folded page_path_split]
  have "vmem s' = vmem (set_entry t (pt_index virt) e s)"
    "NEXT_PAGE_ADDR s' = NEXT_PAGE_ADDR (set_entry t (pt_index virt) e s)"
    by (simp_all add: s'_def invlpg_def)
  then show "pt_inv r s'" "path_ok 4 q \<Longrightarrow> leaf (vmem s') r q =
       (if q = page_path virt then if bit e 0 then Some e else None else leaf (vmem s) r q)"
    using S by (simp_all add: pt_inv_def)
  show "flushed s' = virt # flushed s" by (simp add: s'_def invlpg_def set_entry_def)
qed

lemma lookup_cong:
  assumes "\<And>q. path_ok 4 q \<Longrightarrow> f q = g q"
  shows "lookup f v = lookup g v"
  using assms[OF path_ok_page_path(1)[of v]] assms[OF path_ok_page_path(2)[of v]] assms[OF path_ok_page_path(3)[of v]]
  by (simp add: lookup_def cong: option.case_cong)

lemma lookup_update:
  assumes upd: "\<And>q. path_ok 4 q \<Longrightarrow> f q = (if q = page_path virt then x else g q)"
    and small: "g (take 2 (page_path virt)) = None" "g (take 3 (page_path virt)) = None"
  shows "lookup f v =
    (if page_path v = page_path virt then map_option (\<lambda>e. (e AND ADDR_MASK) + (v AND 0xFFF)) x else lookup g v)"
proof -
  have ne: "take 2 (page_path v) \<noteq> page_path virt" "take 3 (page_path v) \<noteq> page_path virt"
    by (auto dest: arg_cong[where f = length])
  have f: "f (take 2 (page_path v)) = g (take 2 (page_path v))" "f (take 3 (page_path v)) = g (take 3 (page_path v))"
    "f (page_path v) = (if page_path v = page_path virt then x else g (page_path v))"
    using upd ne by simp_all
  show ?thesis
  proof (cases "page_path v = page_path virt")
    case True
    then show ?thesis using small f unfolding lookup_def by (simp only: True if_True) simp
  next
    case False
    then show ?thesis using f unfolding lookup_def by (simp cong: option.case_cong)
  qed
qed

lemma same_space_translate:
  assumes "pt_inv (pml4_addr vmm) s" "same_space (pml4_addr vmm) s s'"
  shows "translate vmm v s' = translate vmm v s"
proof -
  have "pt_inv (pml4_addr vmm) s'" using assms(2) by (simp add: same_space_def)
  then show ?thesis
    using assms lookup_cong[of "leaf (vmem s') (pml4_addr vmm)" "leaf (vmem s) (pml4_addr vmm)"]
    by (simp add: translate_lookup same_space_def)
qed

lemma translate_small:
  assumes "pt_inv (pml4_addr vmm) s" "small_path (pml4_addr vmm) v s"
  shows "translate vmm v s =
    map_option (\<lambda>e. (e AND ADDR_MASK) + (v AND 0xFFF)) (leaf (vmem s) (pml4_addr vmm) (page_path v))"
  using assms by (simp add: translate_lookup lookup_def small_path_def)

lemma write_translate:
  assumes inv: "pt_inv (pml4_addr vmm) s" and small: "small_path (pml4_addr vmm) virt s"
    and w: "walk (vmem s) (pml4_addr vmm) (take 3 (page_path virt)) = Some t"
  shows "translate vmm v (invlpg virt (set_entry t (pt_index virt) e s)) =
    (if page_path v = page_path virt
     then if bit e 0 then Some ((e AND ADDR_MASK) + (v AND 0xFFF)) else None
     else translate vmm v s)"
proof -
  note W = write_page_entry[OF inv w, where e = e]
  show ?thesis
    unfolding translate_lookup[OF W(1)] translate_lookup[OF inv]
    using lookup_update[OF W(3), where v = v] small by (simp add: small_path_def)
qed

lemma page_offset_0:
  assumes "v mod PAGE = 0"
  shows "v AND 0xFFF = 0"
proof -
  have m: "(0xFFF :: u64) = mask 12" by (simp add: mask_eq_exp_minus_1)
  show ?thesis unfolding m take_bit_eq_mask[symmetric] using assms by (simp add: take_bit_eq_mod PAGE_def)
qed

lemma small_path_write:
  assumes "pt_inv r s" "walk (vmem s) r (take 3 (page_path virt)) = Some t"
  shows "small_path r v (invlpg virt (set_entry t (pt_index virt) e s)) \<longleftrightarrow> small_path r v s"
proof -
  have "take 2 (page_path v) \<noteq> page_path virt" "take 3 (page_path v) \<noteq> page_path virt"
    by (auto dest: arg_cong[where f = length])
  then show ?thesis using write_page_entry(3)[OF assms, where e = e] by (simp add: small_path_def)
qed

lemma small_path_same: "same_space r s s' \<Longrightarrow> small_path r v s' \<longleftrightarrow> small_path r v s"
  by (simp add: small_path_def same_space_def)

text \<open>Flags that leave the address bits alone and keep the page present.\<close>

definition mapping_flags :: "PageFlags \<Rightarrow> bool" where
  "mapping_flags flags \<longleftrightarrow> flags AND ADDR_MASK = 0 \<and> flags AND PRESENT \<noteq> 0"

lemma mapping_entry:
  assumes "frame phys" "mapping_flags flags"
  shows "(phys OR flags) AND ADDR_MASK = phys" "bit (phys OR flags) 0"
proof -
  have "(phys OR flags) AND ADDR_MASK = (phys AND ADDR_MASK) OR (flags AND ADDR_MASK)"
    by (simp add: bit.conj_disj_distrib2)
  then show "(phys OR flags) AND ADDR_MASK = phys"
    using assms by (simp add: frame_def mapping_flags_def)
  show "bit (phys OR flags) 0"
    using assms(2) by (simp add: bit_or_iff mapping_flags_def present_bit)
qed

lemma frame_aligned: "frame a \<Longrightarrow> a mod PAGE = 0"
  using frame_nat(1)[of a] by (simp add: PAGE_def word_unat_eq_iff unat_mod)

lemma map_page_Ok:
  assumes inv: "pt_inv (pml4_addr vmm) s" and small: "small_path (pml4_addr vmm) virt s"
    and run: "map_page vmm virt phys flags s = Some (Ok (), s')"
  shows "pt_inv (pml4_addr vmm) s'" "translate vmm virt s = None" "flushed s' = virt # flushed s"
    "\<And>v. small_path (pml4_addr vmm) v s' \<longleftrightarrow> small_path (pml4_addr vmm) v s"
    "\<And>v. frame phys \<Longrightarrow> mapping_flags flags \<Longrightarrow>
      translate vmm v s' = (if page_path v = page_path virt then Some (phys + (v AND 0xFFF)) else translate vmm v s)"
proof -
  let ?r = "pml4_addr vmm"
  have al: "virt mod PAGE = 0" "phys mod PAGE = 0"
    using run by (auto simp: map_page_def split: if_splits)
  have "\<exists>s1 t. s' = invlpg virt (set_entry t (pt_index virt) (phys OR flags) s1) \<and> same_space ?r s s1 \<and>
      walk (vmem s1) ?r (take 3 (page_path virt)) = Some t \<and> leaf (vmem s) ?r (page_path virt) = None"
    using inv small al run by (cases rule: map_page_cases[where flags = flags]) auto
  then obtain s1 t where s': "s' = invlpg virt (set_entry t (pt_index virt) (phys OR flags) s1)"
    and ss: "same_space ?r s s1" and w: "walk (vmem s1) ?r (take 3 (page_path virt)) = Some t"
    and none: "leaf (vmem s) ?r (page_path virt) = None" by blast
  have inv1: "pt_inv ?r s1" using ss by (simp add: same_space_def)
  note W = write_page_entry[OF inv1 w, where e = "phys OR flags", folded s']
  show "pt_inv ?r s'" by (rule W)
  show "translate vmm virt s = None" using none translate_small[OF inv small] by simp
  show "flushed s' = virt # flushed s" using W(2) ss by (simp add: same_space_def)
  show "small_path ?r v s' \<longleftrightarrow> small_path ?r v s" for v
    unfolding s' using small_path_write[OF inv1 w] small_path_same[OF ss] by simp
  show "translate vmm v s' = (if page_path v = page_path virt then Some (phys + (v AND 0xFFF)) else translate vmm v s)"
    if "frame phys" "mapping_flags flags" for v
    unfolding s' using write_translate[OF inv1 _ w, where v = v and e = "phys OR flags"] small small_path_same[OF ss]
      mapping_entry[OF that] same_space_translate[OF inv ss] by simp
qed

lemma map_page_Err:
  assumes inv: "pt_inv (pml4_addr vmm) s" and small: "small_path (pml4_addr vmm) virt s"
    and run: "map_page vmm virt phys flags s = Some (Err e, s')"
  shows "pt_inv (pml4_addr vmm) s'" "flushed s' = flushed s"
    "\<And>v. small_path (pml4_addr vmm) v s' \<longleftrightarrow> small_path (pml4_addr vmm) v s"
    "\<And>v. translate vmm v s' = translate vmm v s"
    "e = InvalidArgument \<and> (virt mod PAGE \<noteq> 0 \<or> phys mod PAGE \<noteq> 0) \<or> e = OutOfMemory \<and> pt_pool s' = {} \<or>
     e = PageAlreadyMapped \<and> translate vmm virt s \<noteq> None"
proof -
  let ?r = "pml4_addr vmm"
  have "same_space ?r s s' \<and> (e = InvalidArgument \<and> (virt mod PAGE \<noteq> 0 \<or> phys mod PAGE \<noteq> 0) \<or>
      e = OutOfMemory \<and> pt_pool s' = {} \<or>
      e = PageAlreadyMapped \<and> leaf (vmem s) ?r (page_path virt) \<noteq> None)"
  proof (cases "virt mod PAGE \<noteq> 0 \<or> phys mod PAGE \<noteq> 0")
    case True
    then show ?thesis using run inv by (auto simp: map_page_def same_space_def)
  next
    case False
    then have al: "virt mod PAGE = 0" "phys mod PAGE = 0" by auto
    show ?thesis using inv small al run by (cases rule: map_page_cases[where flags = flags]) auto
  qed
  note ss = conjunct1[OF this] and e = conjunct2[OF this]
  show "pt_inv ?r s'" "flushed s' = flushed s" using ss by (simp_all add: same_space_def)
  show "small_path ?r v s' \<longleftrightarrow> small_path ?r v s" for v by (rule small_path_same[OF ss])
  show "translate vmm v s' = translate vmm v s" for v by (rule same_space_translate[OF inv ss])
  show "e = InvalidArgument \<and> (virt mod PAGE \<noteq> 0 \<or> phys mod PAGE \<noteq> 0) \<or> e = OutOfMemory \<and> pt_pool s' = {} \<or>
     e = PageAlreadyMapped \<and> translate vmm virt s \<noteq> None"
    using e translate_small[OF inv small] by auto
qed

lemma map_page_total:
  assumes inv: "pt_inv (pml4_addr vmm) s" and small: "small_path (pml4_addr vmm) virt s"
  obtains res s' where "map_page vmm virt phys flags s = Some (res, s')"
proof (cases "virt mod PAGE \<noteq> 0 \<or> phys mod PAGE \<noteq> 0")
  case True
  then show ?thesis by (intro that) (auto simp: map_page_def)
next
  case False
  then have al: "virt mod PAGE = 0" "phys mod PAGE = 0" by auto
  show ?thesis using inv small al that by (cases rule: map_page_cases[where flags = flags]) auto
qed

section \<open>The identity map\<close>

lemma drop_bit_index:
  "pml4_index v = drop_bit 27 (drop_bit 12 v) AND 0x1FF" "pdpt_index v = drop_bit 18 (drop_bit 12 v) AND 0x1FF"
  "pd_index v = drop_bit 9 (drop_bit 12 v) AND 0x1FF" "pt_index v = drop_bit 12 v AND 0x1FF"
  by (simp_all add: pml4_index_def pdpt_index_def pd_index_def pt_index_def)

text \<open>An address in the page at \<open>a\<close>.\<close>

lemma in_page:
  assumes "frame a" "a \<le> v" "v < a + PAGE"
  shows "page_path v = page_path a" "a + (v AND 0xFFF) = v"
proof -
  have n: "unat (a + PAGE) = unat a + 4096"
    using frame_nat(2)[OF assms(1)] unat_add_lem[of a PAGE] by (simp add: PAGE_def)
  obtain q where q: "unat a = 4096 * q" using frame_nat(1)[OF assms(1)] by (metis mod_0_imp_dvd dvd_def)
  have "4096 * q \<le> unat v" "unat v < 4096 * q + 4096"
    using assms(2,3) n q by (simp_all add: word_le_nat_alt word_less_nat_alt)
  then have "unat v div 4096 = q" by (intro div_nat_eqI) simp_all
  then have "drop_bit 12 (unat v) = drop_bit 12 (unat a)" using q by (simp add: drop_bit_eq_div)
  then have eq: "drop_bit 12 v = drop_bit 12 a" unfolding word_unat_eq_iff unat_drop_bit_eq .
  then show "page_path v = page_path a" unfolding page_path_def drop_bit_index by simp
  have m: "(0xFFF :: u64) = mask 12" by (simp add: mask_eq_exp_minus_1)
  have "take_bit 12 a = 0" using assms(1) by (intro bit_word_eqI) (auto simp: bit_take_bit_iff frame_bits)
  then have "a = push_bit 12 (drop_bit 12 v)" using bits_ident[of 12 a] eq by simp
  then show "a + (v AND 0xFFF) = v"
    unfolding m take_bit_eq_mask[symmetric] using bits_ident[of 12 v] by simp
qed

lemma frame_add_PAGE:
  assumes "frame a" "a < e" "unat e \<le> 2 ^ 48"
  shows "frame (a + PAGE)" "unat (a + PAGE) = unat a + 4096"
proof -
  show n: "unat (a + PAGE) = unat a + 4096"
    using frame_nat(2)[OF assms(1)] unat_add_lem[of a PAGE] by (simp add: PAGE_def)
  have "unat a < 2 ^ 48" using assms(2,3) by (simp add: word_less_nat_alt)
  then show "frame (a + PAGE)"
    using n frame_nat(1)[OF assms(1)] by (intro frame_of_nat) simp_all
qed

lemma identity_map_loop_spec:
  assumes "pt_inv (pml4_addr vmm) s" "frame a" "unat e \<le> 2 ^ 48" "mapping_flags flags"
    and "\<And>v. a \<le> v \<Longrightarrow> v < e \<Longrightarrow> small_path (pml4_addr vmm) v s"
  shows "\<exists>res s'. identity_map_loop vmm a e flags s = Some (res, s') \<and> pt_inv (pml4_addr vmm) s' \<and>
    (\<forall>v. translate vmm v s \<noteq> None \<longrightarrow> translate vmm v s' = translate vmm v s) \<and>
    (res = Ok () \<longrightarrow> (\<forall>v. a \<le> v \<and> v < e \<longrightarrow> translate vmm v s' = Some v))"
  using assms
proof (induction "unat e - unat a" arbitrary: a s rule: less_induct)
  case less
  let ?r = "pml4_addr vmm"
  show ?case
  proof (cases "a < e")
    case False
    then show ?thesis using less.prems(1)
      by (subst identity_map_loop.simps) auto
  next
    case True
    have small: "small_path ?r a s" using less.prems(5)[of a] True by simp
    obtain res1 s1 where run: "map_page vmm a a flags s = Some (res1, s1)"
      using map_page_total[OF less.prems(1) small] by blast
    show ?thesis
    proof (cases res1)
      case (Inl x)
      then show ?thesis
        using run True map_page_Err[OF less.prems(1) small, of a flags x s1]
        by (subst identity_map_loop.simps) auto
    next
      case (Inr u)
      have run': "map_page vmm a a flags s = Some (Ok (), s1)" using run Inr by simp
      note M = map_page_Ok[OF less.prems(1) small run']
      note T = M(5)[OF less.prems(2,4)]
      note F = frame_add_PAGE[OF less.prems(2) True less.prems(3)]
      have step: "identity_map_loop vmm a e flags s = identity_map_loop vmm (a + PAGE) e flags s1"
        using True run' by (subst identity_map_loop.simps) simp
      have sp1: "small_path ?r v s1" if "a + PAGE \<le> v" "v < e" for v
        using less.prems(5)[of v] M(4) that F(2) by (simp add: word_le_nat_alt)
      have dec: "unat e - unat (a + PAGE) < unat e - unat a"
        using True F(2) by (simp add: word_less_nat_alt)
      obtain res s' where IH: "identity_map_loop vmm (a + PAGE) e flags s1 = Some (res, s')" "pt_inv ?r s'"
        "\<forall>v. translate vmm v s1 \<noteq> None \<longrightarrow> translate vmm v s' = translate vmm v s1"
        "res = Ok () \<longrightarrow> (\<forall>v. a + PAGE \<le> v \<and> v < e \<longrightarrow> translate vmm v s' = Some v)"
        using less.hyps[OF dec M(1) F(1) less.prems(3,4) sp1] by blast
      have keep: "translate vmm v s' = translate vmm v s" if "translate vmm v s \<noteq> None" for v
      proof -
        have "page_path v \<noteq> page_path a"
        proof
          assume "page_path v = page_path a"
          moreover have "leaf (vmem s) ?r (page_path a) = None"
            using M(2) translate_small[OF less.prems(1) small] by simp
          ultimately have "translate vmm v s = None"
            using small by (simp add: translate_lookup[OF less.prems(1)] lookup_def small_path_def)
          then show False using that by simp
        qed
        then show ?thesis using T that IH(3) by simp
      qed
      have here: "translate vmm v s' = Some v" if "a \<le> v" "v < a + PAGE" for v
      proof -
        have "translate vmm v s1 = Some v" using T in_page[OF less.prems(2) that] by simp
        then show ?thesis using IH(3) by simp
      qed
      have "\<forall>v. a \<le> v \<and> v < e \<longrightarrow> translate vmm v s' = Some v" if "res = Ok ()"
        using that IH(4) here by (meson not_le)
      then show ?thesis using step IH(1,2) keep by auto
    qed
  qed
qed

section \<open>Properties\<close>

text \<open>A manager with an empty root table, before any mapping.\<close>

definition demo_vm :: vm_state where
  "demo_vm = \<lparr>vmem = (\<lambda>_. 0), NEXT_PAGE_ADDR = 0x700000, cr3 = 0x1000, flushed = []\<rparr>"

lemma demo_walk: "walk (vmem demo_vm) r p = (if p = [] then Some r else None)"
  by (cases p) (simp_all add: demo_vm_def child_def)

lemma demo_leaf [simp]: "leaf (vmem demo_vm) r p = None"
  by (simp add: leaf_def demo_walk Let_def) (simp add: demo_vm_def)

lemma demo_root: "pml4_addr (vmm_new demo_vm) = 0x1000"
  by (simp add: vmm_new_def read_cr3_def demo_vm_def ADDR_MASK_def)

lemma demo_pt_inv: "pt_inv (pml4_addr (vmm_new demo_vm)) demo_vm"
proof -
  have "frame 0x1000" "frame (NEXT_PAGE_ADDR demo_vm)" by (simp_all add: frame_def demo_vm_def ADDR_MASK_def)
  moreover have "NEXT_PAGE_ADDR demo_vm \<le> VMM_PAGES_END" "(0x1000 :: u64) < NEXT_PAGE_ADDR demo_vm"
    by (simp_all add: demo_vm_def VMM_PAGES_END_def)
  ultimately show ?thesis unfolding demo_root by (auto simp: pt_inv_def demo_walk split: if_splits)
qed

lemma demo_small: "small_path r v demo_vm"
  by (simp add: small_path_def)

lemma demo_map: "\<exists>s'. map_page (vmm_new demo_vm) 0x400000 0x200000 page_flags_default demo_vm = Some (Ok (), s')"
  unfolding map_page_def demo_root
  by (simp add: ensure_table_def alloc_page_table_def set_entry_def is_present_def get_next_table_addr_def
      get_entry_def demo_vm_def PRESENT_def WRITABLE_def page_flags_default_def PAGE_def VMM_PAGES_END_def
      ADDR_MASK_def pml4_index_def pdpt_index_def pd_index_def pt_index_def Let_def)

lemma default_flags: "mapping_flags page_flags_default"
  by (simp add: mapping_flags_def page_flags_default_def PRESENT_def WRITABLE_def ADDR_MASK_def)

text \<open>
  C8. \<open>map_page\<close> refines the update of one page of the address space. When it succeeds, the page
  was unmapped; afterwards every address of the page translates into the frame it was given, the
  translation of every other address is what it was, the tables still form a tree, and the page
  was flushed from the TLB.
\<close>
theorem map_page_refines:
  assumes "pt_inv (pml4_addr vmm) s" "small_path (pml4_addr vmm) virt s"
    and "frame phys" "mapping_flags flags"
    and "map_page vmm virt phys flags s = Some (Ok (), s')"
  shows "pt_inv (pml4_addr vmm) s' \<and> translate vmm virt s = None \<and> flushed s' = virt # flushed s \<and>
    (\<forall>v. translate vmm v s' =
       (if page_path v = page_path virt then Some (phys + (v AND 0xFFF)) else translate vmm v s))"
  using map_page_Ok[OF assms(1,2,5)] assms(3,4) by blast

theorem map_page_refines_witness:
  "\<exists>s'. map_page (vmm_new demo_vm) 0x400000 0x200000 page_flags_default demo_vm = Some (Ok (), s') \<and>
     translate (vmm_new demo_vm) 0x400123 s' = Some 0x200123"
proof -
  obtain s' where run: "map_page (vmm_new demo_vm) 0x400000 0x200000 page_flags_default demo_vm = Some (Ok (), s')"
    using demo_map by blast
  have "frame 0x200000" by (simp add: frame_def ADDR_MASK_def)
  from map_page_refines[OF demo_pt_inv demo_small this default_flags run]
  have "translate (vmm_new demo_vm) 0x400123 s' = Some 0x200123"
    by (simp add: page_path_def pml4_index_def pdpt_index_def pd_index_def pt_index_def)
  with run show ?thesis by blast
qed

text \<open>
  C39. \<open>map_page\<close> always returns (no \<open>unwrap\<close> fails), and an error changes no translation, flushes
  nothing and names its cause: an unaligned address, an exhausted table pool, or a page that is
  already mapped. Tables created before the error stay linked and keep the tree.
\<close>
theorem map_page_error:
  assumes "pt_inv (pml4_addr vmm) s" "small_path (pml4_addr vmm) virt s"
  shows "\<exists>res s'. map_page vmm virt phys flags s = Some (res, s') \<and> pt_inv (pml4_addr vmm) s' \<and>
    (\<forall>e. res = Err e \<longrightarrow> flushed s' = flushed s \<and> (\<forall>v. translate vmm v s' = translate vmm v s) \<and>
       (e = InvalidArgument \<and> (virt mod PAGE \<noteq> 0 \<or> phys mod PAGE \<noteq> 0) \<or>
        e = OutOfMemory \<and> pt_pool s' = {} \<or>
        e = PageAlreadyMapped \<and> translate vmm virt s \<noteq> None))"
proof -
  obtain res s' where run: "map_page vmm virt phys flags s = Some (res, s')"
    using assms by (rule map_page_total)
  show ?thesis
  proof (cases res)
    case (Inl e)
    then show ?thesis using run map_page_Err[OF assms, of phys flags e s'] by auto
  next
    case (Inr u)
    then show ?thesis using run map_page_Ok(1)[OF assms, of phys flags s'] by auto
  qed
qed

theorem map_page_error_witness:
  "\<exists>res s'. map_page (vmm_new demo_vm) 0x400001 0x200000 page_flags_default demo_vm = Some (res, s') \<and>
     res = Err InvalidArgument \<and> translate (vmm_new demo_vm) 0x400000 s' = None"
proof -
  have "map_page (vmm_new demo_vm) 0x400001 0x200000 page_flags_default demo_vm = Some (Err InvalidArgument, demo_vm)"
    by (simp add: map_page_def PAGE_def)
  moreover have "translate (vmm_new demo_vm) 0x400000 demo_vm = None"
    using translate_small[OF demo_pt_inv demo_small] by simp
  ultimately show ?thesis
    using map_page_error[OF demo_pt_inv demo_small[where v = "0x400001"], of "0x200000" page_flags_default] by auto
qed

text \<open>
  \<open>unmap_page\<close> on a page-aligned address: a mapped page is removed, its frame is returned, it is
  flushed and no other translation changes; an unmapped page gives \<open>PageNotMapped\<close> and changes nothing.
\<close>
theorem unmap_page_refines:
  assumes inv: "pt_inv (pml4_addr vmm) s" and small: "small_path (pml4_addr vmm) virt s"
    and al: "virt mod PAGE = 0"
  shows "case translate vmm virt s of
      None \<Rightarrow> unmap_page vmm virt s = (Err PageNotMapped, s)
    | Some phys \<Rightarrow> \<exists>s'. unmap_page vmm virt s = (Ok phys, s') \<and> pt_inv (pml4_addr vmm) s' \<and>
        flushed s' = virt # flushed s \<and>
        (\<forall>v. translate vmm v s' = (if page_path v = page_path virt then None else translate vmm v s))"
proof (cases "leaf (vmem s) (pml4_addr vmm) (page_path virt)")
  case None
  then show ?thesis using descend_eq(1)[OF assms] translate_small[OF inv small] by simp
next
  case (Some e)
  let ?s' = "invlpg virt (set_entry (page_table vmm virt s) (pt_index virt) 0 s)"
  note w = leaf_page_table[OF Some]
  have "virt AND 0xFFF = 0" using al by (rule page_offset_0)
  then have tr: "translate vmm virt s = Some (e AND ADDR_MASK)" using translate_small[OF inv small] Some by simp
  have run: "unmap_page vmm virt s = (Ok (e AND ADDR_MASK), ?s')" using descend_eq(1)[OF assms] Some by simp
  have "\<forall>v. translate vmm v ?s' = (if page_path v = page_path virt then None else translate vmm v s)"
    using write_translate[OF inv small w, where e = 0] by simp
  then show ?thesis
    unfolding tr option.case using run write_page_entry(1,2)[OF inv w, where e = 0] by blast
qed

theorem unmap_page_refines_witness:
  "\<exists>s phys s'. translate (vmm_new demo_vm) 0x400000 s = Some phys \<and>
     unmap_page (vmm_new demo_vm) 0x400000 s = (Ok phys, s') \<and> translate (vmm_new demo_vm) 0x400000 s' = None"
proof -
  obtain s where run: "map_page (vmm_new demo_vm) 0x400000 0x200000 page_flags_default demo_vm = Some (Ok (), s)"
    using demo_map by blast
  have f: "frame 0x200000" by (simp add: frame_def ADDR_MASK_def)
  note M = map_page_Ok[OF demo_pt_inv demo_small run]
  have tr: "translate (vmm_new demo_vm) 0x400000 s = Some 0x200000" using M(5)[OF f default_flags] by simp
  have sp: "small_path (pml4_addr (vmm_new demo_vm)) 0x400000 s" using M(4) demo_small by simp
  have "(0x400000 :: u64) mod PAGE = 0" by (simp add: PAGE_def)
  from unmap_page_refines[OF M(1) sp this] tr obtain s'
    where "unmap_page (vmm_new demo_vm) 0x400000 s = (Ok 0x200000, s')" "translate (vmm_new demo_vm) 0x400000 s' = None"
    by auto
  with tr show ?thesis by blast
qed

text \<open>
  C30. Mapping and unmapping are inverse: unmapping a page just mapped returns the frame it was
  mapped to and restores the translation of every address.
\<close>
theorem map_unmap_roundtrip:
  assumes inv: "pt_inv (pml4_addr vmm) s" and small: "small_path (pml4_addr vmm) virt s"
    and f: "frame phys" "mapping_flags flags"
    and run: "map_page vmm virt phys flags s = Some (Ok (), s1)"
  shows "\<exists>s2. unmap_page vmm virt s1 = (Ok phys, s2) \<and> (\<forall>v. translate vmm v s2 = translate vmm v s)"
proof -
  note M = map_page_Ok[OF inv small run]
  have al: "virt mod PAGE = 0" using run by (auto simp: map_page_def split: if_splits)
  have small1: "small_path (pml4_addr vmm) virt s1" using M(4) small by simp
  have off: "virt AND 0xFFF = 0" using al by (rule page_offset_0)
  have tr: "translate vmm virt s1 = Some phys" using M(5)[OF f] off by simp
  obtain e where e: "leaf (vmem s1) (pml4_addr vmm) (page_path virt) = Some e" "e AND ADDR_MASK = phys"
    using tr off translate_small[OF M(1) small1] by auto
  let ?s2 = "invlpg virt (set_entry (page_table vmm virt s1) (pt_index virt) 0 s1)"
  have "unmap_page vmm virt s1 = (Ok phys, ?s2)" using descend_eq(1)[OF M(1) small1 al] e by simp
  moreover have "translate vmm v ?s2 = translate vmm v s" for v
  proof (cases "page_path v = page_path virt")
    case True
    then have "translate vmm v s = None"
      using M(2) small translate_small[OF inv small]
      by (simp add: translate_lookup[OF inv] lookup_def small_path_def)
    then show ?thesis using True write_translate[OF M(1) small1 leaf_page_table[OF e(1)], where e = 0] by simp
  next
    case False
    then show ?thesis
      using write_translate[OF M(1) small1 leaf_page_table[OF e(1)], where e = 0] M(5)[OF f] by simp
  qed
  ultimately show ?thesis by blast
qed

theorem map_unmap_roundtrip_witness:
  "\<exists>s1 s2. map_page (vmm_new demo_vm) 0x400000 0x200000 page_flags_default demo_vm = Some (Ok (), s1) \<and>
     unmap_page (vmm_new demo_vm) 0x400000 s1 = (Ok 0x200000, s2)"
proof -
  obtain s1 where run: "map_page (vmm_new demo_vm) 0x400000 0x200000 page_flags_default demo_vm = Some (Ok (), s1)"
    using demo_map by blast
  have "frame 0x200000" by (simp add: frame_def ADDR_MASK_def)
  from map_unmap_roundtrip[OF demo_pt_inv demo_small this default_flags run] run show ?thesis by blast
qed

text \<open>
  \<open>update_flags\<close> on a mapped page with flags that keep it present replaces the flags and moves no page: every
  translation stays, and the entry becomes the old frame with the new flags.
\<close>
theorem update_flags_keeps_frames:
  assumes inv: "pt_inv (pml4_addr vmm) s" and small: "small_path (pml4_addr vmm) virt s"
    and al: "virt mod PAGE = 0" and fl: "mapping_flags flags"
    and e: "leaf (vmem s) (pml4_addr vmm) (page_path virt) = Some e"
  shows "\<exists>s'. update_flags vmm virt flags s = (Ok (), s') \<and> pt_inv (pml4_addr vmm) s' \<and>
    leaf (vmem s') (pml4_addr vmm) (page_path virt) = Some ((e AND ADDR_MASK) OR flags) \<and>
    (\<forall>v. translate vmm v s' = translate vmm v s)"
proof -
  let ?s' = "invlpg virt (set_entry (page_table vmm virt s) (pt_index virt) ((e AND ADDR_MASK) OR flags) s)"
  note w = leaf_page_table[OF e]
  note W = write_page_entry[OF inv w, where e = "(e AND ADDR_MASK) OR flags"]
  note E = mapping_entry[OF frame_mask fl, of e]
  have "translate vmm v ?s' = translate vmm v s" for v
  proof (cases "page_path v = page_path virt")
    case True
    then have "translate vmm v s = Some ((e AND ADDR_MASK) + (v AND 0xFFF))"
      using small e by (simp add: translate_lookup[OF inv] lookup_def small_path_def)
    then show ?thesis using True write_translate[OF inv small w, where e = "(e AND ADDR_MASK) OR flags"] E by simp
  next
    case False
    then show ?thesis using write_translate[OF inv small w] by simp
  qed
  then show ?thesis
    using descend_eq(2)[OF inv small al] e W(1) W(3)[of "page_path virt"] E by auto
qed

theorem update_flags_keeps_frames_witness:
  "\<exists>s e s'. leaf (vmem s) (pml4_addr (vmm_new demo_vm)) (page_path 0x400000) = Some e \<and>
     update_flags (vmm_new demo_vm) 0x400000 page_flags_default s = (Ok (), s')"
proof -
  obtain s where run: "map_page (vmm_new demo_vm) 0x400000 0x200000 page_flags_default demo_vm = Some (Ok (), s)"
    using demo_map by blast
  have f: "frame 0x200000" by (simp add: frame_def ADDR_MASK_def)
  note M = map_page_Ok[OF demo_pt_inv demo_small run]
  have sp: "small_path (pml4_addr (vmm_new demo_vm)) 0x400000 s" using M(4) demo_small by simp
  have "translate (vmm_new demo_vm) 0x400000 s \<noteq> None" using M(5)[OF f default_flags] by simp
  then obtain e where e: "leaf (vmem s) (pml4_addr (vmm_new demo_vm)) (page_path 0x400000) = Some e"
    using translate_small[OF M(1) sp] by auto
  have "(0x400000 :: u64) mod PAGE = 0" by (simp add: PAGE_def)
  from update_flags_keeps_frames[OF M(1) sp this default_flags e] e show ?thesis by blast
qed

lemma round_down_frame:
  assumes "unat a < 2 ^ 48"
  shows "frame (a AND NOT (PAGE - 1))" "a AND NOT (PAGE - 1) \<le> a"
proof -
  have m: "PAGE - 1 = mask 12" by (simp add: PAGE_def mask_eq_exp_minus_1)
  have b: "bit (a AND NOT (PAGE - 1)) n \<longleftrightarrow> bit a n \<and> 12 \<le> n" for n
    unfolding m by (auto simp: bit_and_iff bit_not_iff bit_mask_iff dest: bit_imp_le_length)
  have "take_bit 48 a = a"
    using assms unfolding word_unat_eq_iff unsigned_take_bit_eq by (rule take_bit_nat_eq_self)
  then have "\<not> bit a n" if "52 \<le> n" for n
    using that bit_take_bit_iff[of 48 a n] by simp
  then have "n < 52" if "bit a n" for n using that not_le by blast
  then show "frame (a AND NOT (PAGE - 1))" unfolding frame_bits b by blast
  show "a AND NOT (PAGE - 1) \<le> a" by (rule word_and_le2)
qed

text \<open>
  \<open>identity_map\<close> on a range below \<open>2 ^ 48\<close> that no huge page covers: it returns; it changes no
  translation that existed; and when it succeeds, every address from the start of the first page to the end translates to itself.
\<close>
theorem identity_map_identity:
  assumes "pt_inv (pml4_addr vmm) s" "start < end_addr" "unat end_addr \<le> 2 ^ 48" "mapping_flags flags"
    and "\<And>v. start AND NOT (PAGE - 1) \<le> v \<Longrightarrow> v < end_addr \<Longrightarrow> small_path (pml4_addr vmm) v s"
  shows "\<exists>res s'. identity_map vmm start end_addr flags s = Some (res, s') \<and> pt_inv (pml4_addr vmm) s' \<and>
    (\<forall>v. translate vmm v s \<noteq> None \<longrightarrow> translate vmm v s' = translate vmm v s) \<and>
    (res = Ok () \<longrightarrow>
      (\<forall>v. start AND NOT (PAGE - 1) \<le> v \<and> v < end_addr \<longrightarrow> translate vmm v s' = Some v))"
proof -
  have "unat start < 2 ^ 48" using assms(2,3) by (simp add: word_less_nat_alt)
  then have "frame (start AND NOT (PAGE - 1))" by (rule round_down_frame)
  then show ?thesis
    unfolding identity_map_def using assms(5) by (intro identity_map_loop_spec assms(1,3,4))
qed

theorem identity_map_identity_witness:
  "\<exists>res s'. identity_map (vmm_new demo_vm) 0x1234 0x3000 page_flags_default demo_vm = Some (res, s') \<and>
     (res = Ok () \<longrightarrow> translate (vmm_new demo_vm) 0x2345 s' = Some 0x2345)"
proof -
  have "(0x1234 :: u64) < 0x3000" "unat (0x3000 :: u64) \<le> 2 ^ 48" by simp_all
  moreover have "(0x1234 :: u64) AND NOT (PAGE - 1) \<le> 0x2345 \<and> (0x2345 :: u64) < 0x3000" by (simp add: PAGE_def)
  ultimately show ?thesis
    using identity_map_identity[OF demo_pt_inv _ _ default_flags demo_small, of "0x1234" "0x3000"] by blast
qed

text \<open>
  The pool of page tables: any number of successive calls of \<open>alloc_page_table\<close> returns pairwise
  distinct page-aligned tables below \<open>VMM_PAGES_END\<close>, as many as the pool still has.
\<close>
theorem alloc_page_table_many_distinct:
  assumes "pool_inv s" "alloc_many alloc_page_table n s = (ts, s')"
  shows "distinct ts \<and> set ts \<subseteq> pt_pool s \<and> pt_pool s' = pt_pool s - set ts \<and> pool_inv s' \<and>
    length ts = min n (card (pt_pool s))"
  using assms by (rule pt_frames.alloc_many_spec)

theorem alloc_page_table_many_distinct_witness:
  "pool_inv demo_vm \<and> (\<exists>ts s'. alloc_many alloc_page_table 3 demo_vm = (ts, s') \<and> distinct ts)"
proof -
  have inv: "pool_inv demo_vm" using pt_inv_pool[OF demo_pt_inv] .
  obtain ts s' where "alloc_many alloc_page_table 3 demo_vm = (ts, s')" by (rule prod.exhaust)
  with inv show ?thesis using alloc_page_table_many_distinct by blast
qed

section \<open>Huge pages\<close>

text \<open>
  \<open>map_page\<close> does not test the huge-page bit. On an address inside a present 2 MiB page it takes the
  first frame of that page for a page table and writes the new entry into it, while \<open>translate\<close> still
  answers from the huge page.
\<close>

lemma map_page_writes_into_huge_page:
  assumes "virt mod PAGE = 0" "phys mod PAGE = 0"
    and "get_next_table_addr (pml4_addr vmm) (pml4_index virt) s = Some pdpt"
    and "get_next_table_addr pdpt (pdpt_index virt) s = Some pd"
    and e: "get_entry pd (pd_index virt) s = e" "e AND PRESENT \<noteq> 0" "e AND HUGE_PAGE \<noteq> 0"
    and data: "\<not> is_present (e AND ADDR_MASK) (pt_index virt) s"
  shows "\<exists>s'. map_page vmm virt phys flags s = Some (Ok (), s') \<and>
    vmem s' ((e AND ADDR_MASK) + 8 * pt_index virt) = phys OR flags"
  using assms
  by (auto simp: map_page_def ensure_table_def is_present_def get_next_table_addr_def Let_def
      invlpg_def set_entry_def split: if_splits)

end
