(* ===== verification/Modules.thy ===== *)
theory Modules
  imports Prelude Ordered_Map "HOL-Library.List_Lexorder" "HOL-Library.Char_ord"
begin

text \<open>
  The module manager (\<open>src/src/module/manager.rs\<close>): loaded modules by identifier and the symbol table, both ordered maps,
  with the static counter \<open>NEXT_MODULE_ID\<close> in the state. What a module's own entry points return is an argument, as is
  where the linker put the functions of the kernel that are registered as symbols.
\<close>

section \<open>State\<close>

datatype ModuleState = ModLoaded | ModRunning | ModStopped | ModError
datatype ModuleType = ModDriver | ModFileSystem | ModNetwork | ModExtension | ModUnknown
datatype SymbolType = SymFunction | SymData | SymBss | SymUnknown

record ModuleInfo =
  mod_id :: u64
  mod_name :: string
  mod_version :: "u16 \<times> u16 \<times> u16"
  module_type :: ModuleType
  mod_state :: ModuleState
  dependencies :: "string list"
  mod_size :: usize
  init_addr :: usize
  cleanup_addr :: usize

record ModuleSymbol =
  sym_name :: string
  sym_addr :: usize
  symbol_type :: SymbolType

type_synonym SymbolTable = "(string, usize) btree"

record ModuleManager =
  modules :: "(u64, ModuleInfo) btree"
  symbol_table :: SymbolTable
  ramdisk_addr :: usize
  ramdisk_size :: usize
  NEXT_MODULE_ID :: u64

section \<open>Symbols\<close>

definition symbol_table_new :: SymbolTable where
  "symbol_table_new = []"

definition symbol_register :: "string \<Rightarrow> usize \<Rightarrow> SymbolTable \<Rightarrow> SymbolTable" where
  "symbol_register nm addr t = btree_insert nm addr t"

definition symbol_lookup :: "SymbolTable \<Rightarrow> string \<Rightarrow> usize option" where
  "symbol_lookup t nm = btree_get t nm"

definition all_symbols :: "SymbolTable \<Rightarrow> ModuleSymbol list" where
  "all_symbols t = map (\<lambda>(nm, addr). \<lparr>sym_name = nm, sym_addr = addr, symbol_type = SymUnknown\<rparr>) t"

definition register_kernel_symbols :: "(string \<Rightarrow> usize) \<Rightarrow> ModuleManager \<Rightarrow> ModuleManager" where
  "register_kernel_symbols addr_of s =
     s\<lparr>symbol_table := fold (\<lambda>(nm, addr). symbol_register nm addr)
         [(''kprint'', 0), (''inb'', addr_of ''inb''), (''outb'', addr_of ''outb''), (''inl'', addr_of ''inl''),
          (''outl'', addr_of ''outl''), (''kmalloc'', 0), (''kfree'', 0), (''schedule'', 0), (''yield'', 0),
          (''vfs_open'', 0), (''vfs_read'', 0), (''vfs_write'', 0), (''vfs_close'', 0)] (symbol_table s)\<rparr>"

definition resolve_symbol :: "string \<Rightarrow> ModuleManager \<Rightarrow> usize option" where
  "resolve_symbol nm s = symbol_lookup (symbol_table s) nm"

definition register_symbol :: "string \<Rightarrow> usize \<Rightarrow> ModuleManager \<Rightarrow> ModuleManager" where
  "register_symbol nm addr s = s\<lparr>symbol_table := symbol_register nm addr (symbol_table s)\<rparr>"

section \<open>Modules\<close>

definition module_manager_new :: "(string \<Rightarrow> usize) \<Rightarrow> u64 \<Rightarrow> ModuleManager" where
  "module_manager_new addr_of next =
     register_kernel_symbols addr_of
       \<lparr>modules = [], symbol_table = symbol_table_new, ramdisk_addr = 0, ramdisk_size = 0, NEXT_MODULE_ID = next\<rparr>"

definition set_ramdisk :: "usize \<Rightarrow> usize \<Rightarrow> ModuleManager \<Rightarrow> ModuleManager" where
  "set_ramdisk addr sz s = s\<lparr>ramdisk_addr := addr, ramdisk_size := sz\<rparr>"

definition load_module :: "string \<Rightarrow> ModuleManager \<Rightarrow> u64 KernelResult \<times> ModuleManager" where
  "load_module nm s =
     (if \<exists>info \<in> set (btree_values (modules s)). mod_name info = nm then (Err PageAlreadyMapped, s)
      else let i = NEXT_MODULE_ID s;
               info = \<lparr>mod_id = i, mod_name = nm, mod_version = (0, 1, 0), module_type = ModDriver, mod_state = ModLoaded,
                       dependencies = [], mod_size = 0, init_addr = 0, cleanup_addr = 0\<rparr>
           in (Ok i, s\<lparr>NEXT_MODULE_ID := i + 1, modules := btree_insert i info (modules s)\<rparr>))"

definition set_module_state :: "u64 \<Rightarrow> ModuleState \<Rightarrow> ModuleManager \<Rightarrow> ModuleManager" where
  "set_module_state i st s =
     (case btree_get (modules s) i of
        None \<Rightarrow> s
      | Some info \<Rightarrow> s\<lparr>modules := btree_insert i (info\<lparr>mod_state := st\<rparr>) (modules s)\<rparr>)"

text \<open>\<open>run addr\<close> is the result of the initialisation function at \<open>addr\<close>.\<close>

definition init_module :: "(usize \<Rightarrow> int) \<Rightarrow> u64 \<Rightarrow> ModuleManager \<Rightarrow> unit KernelResult \<times> ModuleManager" where
  "init_module run i s =
     (case btree_get (modules s) i of
        None \<Rightarrow> (Err ModuleNotFound, s)
      | Some info \<Rightarrow>
          if mod_state info \<noteq> ModLoaded then (Err InvalidArgument, s)
          else if \<exists>dep \<in> set (dependencies info).
                    \<not> (\<exists>m \<in> set (btree_values (modules s)). mod_name m = dep \<and> mod_state m = ModRunning)
          then (Err ModuleNotFound, s)
          else if init_addr info \<noteq> 0 \<and> run (init_addr info) \<noteq> 0 then (Err GeneralFault, set_module_state i ModError s)
          else (Ok (), set_module_state i ModRunning s))"

definition unload_module :: "u64 \<Rightarrow> ModuleManager \<Rightarrow> unit KernelResult \<times> ModuleManager" where
  "unload_module i s =
     (case btree_get (modules s) i of
        None \<Rightarrow> (Err ModuleNotFound, s)
      | Some info \<Rightarrow>
          if mod_state info \<noteq> ModRunning \<and> mod_state info \<noteq> ModStopped then (Err InvalidArgument, s)
          else (Ok (), s\<lparr>modules := btree_remove i (modules s)\<rparr>))"

definition get_module_info :: "u64 \<Rightarrow> ModuleManager \<Rightarrow> ModuleInfo option" where
  "get_module_info i s = btree_get (modules s) i"

definition list_modules :: "ModuleManager \<Rightarrow> ModuleInfo list" where
  "list_modules s = btree_values (modules s)"

section \<open>Invariant\<close>

definition module_inv :: "ModuleManager \<Rightarrow> bool" where
  "module_inv s \<longleftrightarrow> btree_inv (modules s) \<and>
     (\<forall>(i, info) \<in> set (modules s). mod_id info = i \<and> i < NEXT_MODULE_ID s \<and> mod_state info \<in> {ModLoaded, ModRunning} \<and>
        dependencies info = [] \<and> init_addr info = 0 \<and> cleanup_addr info = 0) \<and>
     inj_on (\<lambda>(i, info). mod_name info) (set (modules s))"

definition ids_left :: "ModuleManager \<Rightarrow> bool" where
  "ids_left s \<longleftrightarrow> NEXT_MODULE_ID s < NEXT_MODULE_ID s + 1"

lemma module_inv_key: "module_inv s \<Longrightarrow> j \<in> key_set (modules s) \<Longrightarrow> j < NEXT_MODULE_ID s"
  by (auto simp: module_inv_def key_set_def)

lemma load_module_Ok:
  assumes "module_inv s" "ids_left s" "load_module nm s = (Ok i, s')"
  shows "i = NEXT_MODULE_ID s \<and> (\<forall>j \<in> key_set (modules s). j < i) \<and> key_set (modules s') = insert i (key_set (modules s)) \<and> module_inv s'"
proof -
  define info where "info = \<lparr>mod_id = NEXT_MODULE_ID s, mod_name = nm, mod_version = (0, 1, 0), module_type = ModDriver, mod_state = ModLoaded,
    dependencies = [], mod_size = 0, init_addr = 0, cleanup_addr = 0\<rparr>"
  have n: "nm \<notin> mod_name ` set (btree_values (modules s))" and i: "i = NEXT_MODULE_ID s"
    and s': "s' = s\<lparr>NEXT_MODULE_ID := i + 1, modules := btree_insert i info (modules s)\<rparr>"
    using assms(3) by (auto simp: load_module_def Let_def info_def split: if_splits)
  have old: "\<forall>j \<in> key_set (modules s). j < i" using module_inv_key[OF assms(1)] i by blast
  have nx: "NEXT_MODULE_ID s' = i + 1" using s' by simp
  from old have m: "modules s' = modules s @ [(i, info)]" using s' btree_insert_last by auto
  have "module_inv s'" unfolding module_inv_def
  proof (intro conjI)
    show "btree_inv (modules s')" using assms(1) s' by (simp add: module_inv_def)
    have lt: "i < i + 1" using assms(2) i by (simp add: ids_left_def)
    show "\<forall>(j, inf) \<in> set (modules s'). mod_id inf = j \<and> j < NEXT_MODULE_ID s' \<and> mod_state inf \<in> {ModLoaded, ModRunning} \<and>
        dependencies inf = [] \<and> init_addr inf = 0 \<and> cleanup_addr inf = 0"
      using assms(1) lt i nx unfolding m nx by (auto simp: module_inv_def info_def intro: less_trans)
    show "inj_on (\<lambda>(j, inf). mod_name inf) (set (modules s'))"
      using assms(1) n unfolding m by (auto simp: module_inv_def info_def inj_on_def image_iff)
  qed
  then show ?thesis using i old s' by simp
qed

interpretation mods: handle_source "\<lambda>s. key_set (modules s)" module_inv load_module ids_left
proof (unfold_locales, goal_cases)
  case (1 s a h s')
  then show ?case using load_module_Ok by blast
next
  case (2 s a e s')
  then show ?case by (auto simp: load_module_def Let_def split: if_splits)
qed


lemma set_module_state_inv:
  assumes "module_inv s" "btree_get (modules s) i = Some info" "st \<in> {ModLoaded, ModRunning}"
  shows "module_inv (set_module_state i st s)" "key_set (modules (set_module_state i st s)) = key_set (modules s)"
proof -
  let ?info = "info\<lparr>mod_state := st\<rparr>"
  have b: "btree_inv (modules s)" using assms(1) by (simp add: module_inv_def)
  have mem: "(i, info) \<in> set (modules s)" using assms(2) btree_get_mem[OF b] by simp
  have ins: "set (btree_insert i ?info (modules s)) = insert (i, ?info) {p \<in> set (modules s). fst p \<noteq> i}" using set_btree_insert[OF b] .
  have inj: "inj_on (\<lambda>(j, inf). mod_name inf) (set (modules s))" using assms(1) by (simp add: module_inv_def)
  have same: "j = i" if "(j, inf) \<in> set (modules s)" "mod_name inf = mod_name info" for j inf
    using inj_onD[OF inj _ that(1) mem] that(2) by simp
  have "inj_on (\<lambda>(j, inf). mod_name inf) (insert (i, ?info) {p \<in> set (modules s). fst p \<noteq> i})"
    using same inj by (auto simp: inj_on_def)
  then show "module_inv (set_module_state i st s)"
    using assms mem b unfolding module_inv_def set_module_state_def by (auto simp: ins)
  show "key_set (modules (set_module_state i st s)) = key_set (modules s)"
    using assms(2) key_set_mem[OF mem] by (auto simp: set_module_state_def)
qed

lemma init_module_inv: "module_inv s \<Longrightarrow> module_inv (snd (init_module run i s))"
proof (cases "btree_get (modules s) i")
  case (Some info)
  assume inv: "module_inv s"
  then have "(i, info) \<in> set (modules s)" using map_of_SomeD[OF Some] by simp
  then have "init_addr info = 0" "dependencies info = []" using inv by (auto simp: module_inv_def)
  then show ?thesis using Some set_module_state_inv(1)[OF inv Some] inv by (simp add: init_module_def)
qed (simp add: init_module_def)

lemma unload_module_inv: "module_inv s \<Longrightarrow> module_inv (snd (unload_module i s))"
  by (auto simp: unload_module_def module_inv_def btree_remove_def inj_on_def btree_inv_remove[unfolded btree_remove_def] split: option.splits)

inductive module_reach :: "(string \<Rightarrow> usize) \<Rightarrow> (usize \<Rightarrow> int) \<Rightarrow> ModuleManager \<Rightarrow> bool" for addr_of run where
  new: "module_reach addr_of run (module_manager_new addr_of next)"
| load: "module_reach addr_of run s \<Longrightarrow> ids_left s \<Longrightarrow> module_reach addr_of run (snd (load_module nm s))"
| init: "module_reach addr_of run s \<Longrightarrow> module_reach addr_of run (snd (init_module run i s))"
| unload: "module_reach addr_of run s \<Longrightarrow> module_reach addr_of run (snd (unload_module i s))"
| ramdisk: "module_reach addr_of run s \<Longrightarrow> module_reach addr_of run (set_ramdisk a n s)"
| symbol: "module_reach addr_of run s \<Longrightarrow> module_reach addr_of run (register_symbol nm a s)"

lemma module_reach_inv: "module_reach addr_of run s \<Longrightarrow> module_inv s"
proof (induction rule: module_reach.induct)
  case (load s nm)
  then show ?case by (intro mods.acquire_invar)
next
  case (init s i)
  then show ?case by (intro init_module_inv)
next
  case (unload s i)
  then show ?case by (intro unload_module_inv)
qed (simp_all add: module_manager_new_def register_kernel_symbols_def module_inv_def set_ramdisk_def register_symbol_def)

text \<open>
  C36. The life of a module. In every state that the module manager reaches, modules are stored under their identifiers, no two have the same name, and each is loaded
  or running. A name that is not loaded gets an identifier above all others; the module is initialised once,
  successfully and only once; after that, and not before, it can be unloaded, which leaves the other modules as they were.
\<close>
theorem module_lifecycle:
  assumes "module_reach addr_of run s" "ids_left s" "nm \<notin> mod_name ` set (list_modules s)"
  shows "distinct (map mod_name (list_modules s)) \<and> (\<forall>i info. get_module_info i s = Some info \<longrightarrow> mod_id info = i \<and> mod_state info \<in> {ModLoaded, ModRunning}) \<and>
    (\<exists>i s1 s2 s3. load_module nm s = (Ok i, s1) \<and> (\<forall>j info. get_module_info j s = Some info \<longrightarrow> j < i) \<and>
       unload_module i s1 = (Err InvalidArgument, s1) \<and> init_module run i s1 = (Ok (), s2) \<and>
       init_module run i s2 = (Err InvalidArgument, s2) \<and> unload_module i s2 = (Ok (), s3) \<and> modules s3 = modules s)"
proof -
  have inv: "module_inv s" using assms(1) by (rule module_reach_inv)
  have inj: "inj_on (\<lambda>(i, info). mod_name info) (set (modules s))" and bt: "btree_inv (modules s)" using inv by (simp_all add: module_inv_def)
  have "distinct (modules s)" using btree_inv_distinct[OF bt] by (simp add: distinct_map)
  moreover have "map mod_name (list_modules s) = map (\<lambda>(i, info). mod_name info) (modules s)" by (simp add: list_modules_def case_prod_beta)
  ultimately have d: "distinct (map mod_name (list_modules s))" using inj by (simp add: distinct_map)
  have g: "\<forall>i info. get_module_info i s = Some info \<longrightarrow> mod_id info = i \<and> mod_state info \<in> {ModLoaded, ModRunning} \<and> i < NEXT_MODULE_ID s"
    using inv map_of_SomeD[of "modules s"] by (fastforce simp: get_module_info_def module_inv_def)
  define i where "i = NEXT_MODULE_ID s"
  define info where "info = \<lparr>mod_id = i, mod_name = nm, mod_version = (0, 1, 0), module_type = ModDriver, mod_state = ModLoaded,
    dependencies = [], mod_size = 0, init_addr = 0, cleanup_addr = 0\<rparr>"
  define s1 where "s1 = s\<lparr>NEXT_MODULE_ID := i + 1, modules := btree_insert i info (modules s)\<rparr>"
  define s2 where "s2 = s1\<lparr>modules := btree_insert i (info\<lparr>mod_state := ModRunning\<rparr>) (modules s)\<rparr>"
  have l: "load_module nm s = (Ok i, s1)" using assms(3) by (auto simp: load_module_def list_modules_def s1_def info_def i_def Let_def)
  have "\<not> contains_key (modules s) i" using module_inv_key[OF inv] by (auto simp: contains_key_iff i_def)
  then have u2: "unload_module i s2 = (Ok (), s2\<lparr>modules := modules s\<rparr>)" by (simp add: unload_module_def s2_def)
  have u1: "unload_module i s1 = (Err InvalidArgument, s1)" and n1: "init_module run i s1 = (Ok (), s2)"
    and n2: "init_module run i s2 = (Err InvalidArgument, s2)"
    by (simp_all add: unload_module_def init_module_def set_module_state_def s1_def s2_def info_def)
  have "\<forall>j info. get_module_info j s = Some info \<longrightarrow> j < i" using g unfolding i_def by blast
  moreover have "modules (s2\<lparr>modules := modules s\<rparr>) = modules s" by simp
  ultimately have "\<exists>i s1 s2 s3. load_module nm s = (Ok i, s1) \<and> (\<forall>j info. get_module_info j s = Some info \<longrightarrow> j < i) \<and>
       unload_module i s1 = (Err InvalidArgument, s1) \<and> init_module run i s1 = (Ok (), s2) \<and>
       init_module run i s2 = (Err InvalidArgument, s2) \<and> unload_module i s2 = (Ok (), s3) \<and> modules s3 = modules s"
    using l u1 n1 n2 u2 by blast
  then show ?thesis using d g by blast
qed

theorem module_lifecycle_witness:
  "\<exists>i s1 s2. load_module ''ahci'' (module_manager_new (\<lambda>_. 0) 1) = (Ok i, s1) \<and> init_module (\<lambda>_. 0) i s1 = (Ok (), s2)"
proof -
  have "ids_left (module_manager_new (\<lambda>_. 0) 1)" "list_modules (module_manager_new (\<lambda>_. 0) 1) = []"
    by (simp_all add: ids_left_def module_manager_new_def register_kernel_symbols_def list_modules_def)
  with module_lifecycle[OF module_reach.new[of "\<lambda>_. 0" "\<lambda>_. 0" 1], of "''ahci''"] show ?thesis by auto
qed

end
