(* ===== verification/Boot.thy ===== *)
theory Boot
  imports Shell Heap Vmm Modules Vfs Descriptors
begin

text \<open>
  The entry point (\<open>init_pic\<close> and \<open>kernel_main\<close> of \<open>src/src/lib.rs\<close>): the order in which the kernel starts its components, with the messages of
  \<open>kernel_main\<close> itself, up to the call of the shell. The messages that the timer, APIC and ACPI components print while they start are not part of their models.
  A kernel that halts, or waits for a device for ever, has no result. Interrupts that arrive while the kernel starts are steps of \<open>Interrupts\<close>.
\<close>

section \<open>State\<close>

text \<open>What the linker decides, and what the boot works on: the statics of the components and the memory.\<close>

record image = environment +
  img_linkage :: linkage
  idle_task_addr :: u64
  symbol_addr :: "string \<Rightarrow> usize"

record ('f, 'i) boot =
  bt_kernel :: shell_kernel
  bt_tables :: cpu_tables
  bt_mem :: pmem
  bt_vm :: vm_state
  bt_vmm :: "Vmm option"
  HEAP_INITIALIZED :: bool
  KERNEL_HEAP :: SlabAllocator
  bt_vfs :: "('f, 'i) Vfs option"
  bt_modules :: "ModuleManager option"
  bt_next_module :: u64
  bt_tasks :: task_statics
  bt_arcs :: "arc \<Rightarrow> Task"

definition say :: "environment \<Rightarrow> string \<Rightarrow> ('f, 'i) boot \<Rightarrow> ('f, 'i) boot option" where
  "say env s b = map_option (\<lambda>k. b\<lparr>bt_kernel := k\<rparr>) (kprintln env s (bt_kernel b))"

fun says :: "environment \<Rightarrow> string list \<Rightarrow> ('f, 'i) boot \<Rightarrow> ('f, 'i) boot option" where
  "says env [] b = Some b"
| "says env (l # ls) b = do { b1 \<leftarrow> say env l b; says env ls b1 }"

definition on_ports :: "(io \<Rightarrow> io) \<Rightarrow> ('f, 'i) boot \<Rightarrow> ('f, 'i) boot" where
  "on_ports f b = b\<lparr>bt_kernel := (bt_kernel b)\<lparr>accesses := f (accesses (bt_kernel b))\<rparr>\<rparr>"

section \<open>Processor\<close>

definition init_pic :: "io \<Rightarrow> io" where
  "init_pic = outs [(0x20, 0x11), (0xA0, 0x11), (0x21, 0x20), (0xA1, 0x28), (0x21, 0x04), (0xA1, 0x02), (0x21, 0x01), (0xA1, 0x01),
                    (0x21, 0xFC), (0xA1, 0xFF)]"

definition valid_magic :: "u64 \<Rightarrow> bool" where
  "valid_magic magic \<longleftrightarrow> magic = 0x36D76289 \<or> magic = 0x2BADB002"

definition boot_console :: "environment \<Rightarrow> u64 \<Rightarrow> ('f, 'i) boot \<Rightarrow> ('f, 'i) boot option" where
  "boot_console env magic b =
     (let b1 = on_ports serial_init b;
          b2 = b1\<lparr>bt_kernel := (bt_kernel b1)\<lparr>console := vga_clear (console (bt_kernel b1))\<rparr>\<rparr>
      in if \<not> valid_magic magic then None
         else say env (''[BOOT] Multiboot magic validated: '' @ show_hex (unat magic)) b2)"

definition boot_cpu :: "image \<Rightarrow> ('f, 'i) boot \<Rightarrow> ('f, 'i) boot option" where
  "boot_cpu img b =
     (let env = environment.truncate img in
      do { b1 \<leftarrow> say env ''[INIT] Initializing GDT...'' b;
           b2 \<leftarrow> says env [''[INIT] GDT configured'', ''[INIT] Remapping PIC...'']
                  (b1\<lparr>bt_tables := gdt_init (img_linkage img) (bt_tables b1)\<rparr>);
           b3 \<leftarrow> says env [''[INIT] PIC remapped (IRQ0=timer enabled)'', ''[INIT] Setting up IDT...''] (on_ports init_pic b2);
           says env [''[INIT] IDT configured (timer ISR + spurious handler)'', ''[INIT] Initializing interrupt handlers...'',
                     ''[INIT] Interrupt handlers ready'', ''[INIT] Enabling interrupts...'', ''[INIT] Interrupts enabled'']
             (b3\<lparr>bt_tables := idt_init (img_linkage img) (bt_tables b3)\<rparr>) })"

section \<open>Memory\<close>

definition boot_reserve :: "usize \<Rightarrow> Pmm \<times> pmem \<Rightarrow> Pmm \<times> pmem" where
  "boot_reserve kend st =
     reserve_range TASK_STACKS_BASE 0x400000
       (reserve_range HEAP_BASE HEAP_SIZE
         (reserve_range VMM_PAGES_BASE VMM_PAGES_SIZE
           (reserve_range PMM_BITMAP_BASE PMM_BITMAP_SIZE
             (reserve_range KERNEL_BASE (max (saturating_sub kend KERNEL_BASE) (PMM_BITMAP_BASE - KERNEL_BASE)) st))))"

definition boot_pmm :: "usize \<Rightarrow> pmem \<Rightarrow> Pmm \<times> pmem" where
  "boot_pmm kend m = boot_reserve kend (pmm_new KERNEL_BASE (64 * 1024 * 1024 * 1024) m)"

definition boot_memory :: "environment \<Rightarrow> ('f, 'i) boot \<Rightarrow> ('f, 'i) boot option" where
  "boot_memory env b =
     do { b1 \<leftarrow> say env ''[INIT] Initializing Physical Memory Manager...'' b;
          b2 \<leftarrow> (if kernel_end env \<ge> PMM_BITMAP_BASE
                then say env (''[WARN] Kernel end '' @ show_hex (kernel_end env) @ '' overlaps PMM bitmap at '' @ show_hex PMM_BITMAP_BASE @ ''!'') b1
                else Some b1);
          let (p, m) = boot_pmm (kernel_end env) (bt_mem b2);
              b3 = b2\<lparr>bt_mem := m, bt_kernel := (bt_kernel b2)\<lparr>ks_pmm := Some p\<rparr>\<rparr>
          in do { b4 \<leftarrow> says env [''[INIT] PMM initialized'', ''[INIT] Initializing Virtual Memory Manager...''] b3;
                  b5 \<leftarrow> says env [''[INIT] VMM initialized'', ''[INIT] Initializing kernel heap...'']
                         (b4\<lparr>bt_vmm := Some (vmm_new (bt_vm b4)), bt_kernel := (bt_kernel b4)\<lparr>ks_vmm_ready := True\<rparr>\<rparr>);
                  (i, h, m1) \<leftarrow> heap_init HEAP_BASE HEAP_SIZE (HEAP_INITIALIZED b5, KERNEL_HEAP b5, bt_mem b5);
                  say env ''[INIT] Kernel heap initialized'' (b5\<lparr>HEAP_INITIALIZED := i, KERNEL_HEAP := h, bt_mem := m1\<rparr>) } }"

section \<open>Timers and interrupt controllers\<close>

definition boot_acpi :: "environment \<Rightarrow> ('f, 'i) boot \<Rightarrow> (AcpiInfo \<times> ('f, 'i) boot) option" where
  "boot_acpi env b =
     do { b1 \<leftarrow> say env ''[INIT] Parsing ACPI tables...'' b;
          case acpi_parse (bt_mem b1) acpi_info_new of
            (Inr info, _) \<Rightarrow> map_option (Pair info) (say env ''[INIT] ACPI parsed successfully'' b1)
          | (Inl e, info) \<Rightarrow> map_option (Pair info) (say env (''[WARN] ACPI parse failed: '' @ e @ '', using defaults'') b1) }"

definition boot_timer :: "environment \<Rightarrow> AcpiInfo \<Rightarrow> ('f, 'i) boot \<Rightarrow> ('f, 'i) boot option" where
  "boot_timer env info b =
     do { b1 \<leftarrow> say env ''[INIT] Initializing timer subsystem...'' b;
          let k = bt_kernel b1; (t, io) = timer_init (env_hw env) info (timer_state k, accesses k)
          in say env (''[INIT] Timer subsystem active (PIT at '' @ show_nat (unat (timer_hz t)) @ '' Hz)'')
               (b1\<lparr>bt_kernel := k\<lparr>timer_state := t, accesses := io\<rparr>\<rparr>) }"

definition boot_ioapic :: "environment \<Rightarrow> AcpiInfo \<Rightarrow> ('f, 'i) boot \<Rightarrow> ('f, 'i) boot option" where
  "boot_ioapic env info b =
     (if io_apic_address info = 0 then Some b
      else let k = bt_kernel b; (r, a, io) = ioapic_init (env_hw env) info (apic_state k, accesses k);
               b1 = b\<lparr>bt_kernel := k\<lparr>apic_state := a, accesses := io\<rparr>\<rparr>
           in case r of
                Inl _ \<Rightarrow> Some b1
              | Inr _ \<Rightarrow> do { b2 \<leftarrow> say env ''[INIT] IO APIC initialized'' b1;
                            say env ''[INIT] Switched to APIC mode (PIC disabled)'' (on_ports disable_pic b2) })"

definition boot_apic :: "environment \<Rightarrow> AcpiInfo \<Rightarrow> ('f, 'i) boot \<Rightarrow> ('f, 'i) boot option" where
  "boot_apic env info b =
     do { b1 \<leftarrow> say env ''[INIT] Initializing Local APIC...'' b;
          let k = bt_kernel b1; (r, a, io) = lapic_init (env_hw env) info (apic_state k, accesses k);
              b2 = b1\<lparr>bt_kernel := k\<lparr>apic_state := a, accesses := io\<rparr>\<rparr>
          in case r of
               Inl _ \<Rightarrow> say env ''[WARN] APIC not available, using legacy PIC'' b2
             | Inr _ \<Rightarrow> do { b3 \<leftarrow> say env ''[INIT] Local APIC initialized'' b2;
                           io1 \<leftarrow> setup_timer (env_hw env) 100 (apic_state (bt_kernel b3)) (accesses (bt_kernel b3));
                           boot_ioapic env info (on_ports (\<lambda>_. io1) b3) } }"

section \<open>Services and scheduler\<close>

definition boot_services :: "image \<Rightarrow> ('f, 'i) boot \<Rightarrow> ('f, 'i) boot option" where
  "boot_services img b =
     (let env = environment.truncate img in
      do { b1 \<leftarrow> say env ''[INIT] Initializing VFS...'' b;
           b2 \<leftarrow> says env [''[INIT] VFS initialized'', ''[INIT] Initializing module system...''] (b1\<lparr>bt_vfs := Some vfs_new\<rparr>);
           say env ''[INIT] Module system ready''
             (b2\<lparr>bt_modules := Some (module_manager_new (symbol_addr img) (bt_next_module b2))\<rparr>) })"

definition boot_scheduler :: "image \<Rightarrow> ('f, 'i) boot \<Rightarrow> ('f, 'i) boot option" where
  "boot_scheduler img b =
     (let env = environment.truncate img in
      do { b1 \<leftarrow> say env ''[INIT] Initializing scheduler...'' b;
           let s = snd (create_idle_task (idle_task_addr img)
                     (scheduler_new (bt_tasks b1) (bt_arcs b1) (TICK_COUNT (timer_state (bt_kernel b1)))))
           in do { b2 \<leftarrow> say env ''[INIT] Idle task created (PID 1)'' b1;
                   b3 \<leftarrow> says env [''[INIT] Scheduler initialized'', ''[INIT] Setting up system call interface...'',
                                    ''[INIT] Syscall interface active'', ''[INIT] Enabling preemptive scheduling...'']
                          (b2\<lparr>bt_kernel := (bt_kernel b2)\<lparr>KERNEL_SCHEDULER := Some s\<rparr>\<rparr>);
                   Some (b3\<lparr>bt_kernel := (bt_kernel b3)\<lparr>KERNEL_SCHEDULER := map_option enable_preemption (KERNEL_SCHEDULER (bt_kernel b3))\<rparr>\<rparr>) } })"

definition kernel_main :: "image \<Rightarrow> u64 \<Rightarrow> ('f, 'i) boot \<Rightarrow> ('f, 'i) boot option" where
  "kernel_main img magic b =
     (let env = environment.truncate img in
      do { b1 \<leftarrow> boot_console env magic b;
           b2 \<leftarrow> boot_cpu img b1;
           b3 \<leftarrow> boot_memory env b2;
           (info, b4) \<leftarrow> boot_acpi env b3;
           b5 \<leftarrow> boot_timer env info b4;
           b6 \<leftarrow> boot_apic env info b5;
           b7 \<leftarrow> boot_services img b6;
           b8 \<leftarrow> boot_scheduler img b7;
           says env ['''', ''========================================'', ''  DeltaOS kernel initialized!'',
                     ''  Multitasking: ACTIVE (Round-Robin)'', ''  All subsystems online.'', ''========================================'', '''' ] b8 })"

section \<open>The memory map\<close>

lemma page_overlaps_frame: "same_frame q p \<Longrightarrow> page_overlaps p i a b = page_overlaps q i a b"
  by (simp add: page_overlaps_def same_frame_simps)

lemma reserve_frames:
  assumes "pmm_inv p m" "same_frame q p" "base_addr q \<le> start" "start + sz < USIZE"
  shows "\<exists>p' m'. reserve_range start sz (p, m) = (p', m') \<and> pmm_inv p' m' \<and> same_frame q p' \<and>
    free_frames p' m' = free_frames p m - {i. page_overlaps q i start (start + sz)}"
proof -
  obtain p' m' where r: "reserve_range start sz (p, m) = (p', m')" by fastforce
  have "base_addr p \<le> start" using assms(3) same_frame_simps(4)[OF assms(2)] by simp
  from reserve_range_spec[OF assms(1) this assms(4) r]
  show ?thesis using r same_frame_trans[OF assms(2)] page_overlaps_frame[OF assms(2)] by simp
qed

abbreviation boot_frame :: Pmm where
  "boot_frame \<equiv> fresh_pmm KERNEL_BASE (64 * 1024 * 1024 * 1024)"

lemma boot_frame_addr: "same_frame boot_frame p \<Longrightarrow> page_addr p i = 0x100000 + i * 4096"
  using same_frame_simps(6)[of boot_frame p] by (simp add: page_addr_def fresh_pmm_def layout)

lemma boot_frame_overlaps: "page_overlaps boot_frame i a b \<longleftrightarrow> 0x100000 + i * 4096 < b \<and> a < 0x100000 + i * 4096 + 4096"
  by (simp add: page_overlaps_def page_addr_def fresh_pmm_def layout)

lemma boot_reserve_spec:
  assumes "kend < 2 ^ 63" "pmm_inv p0 m0" "same_frame boot_frame p0"
  shows "\<exists>p m. boot_reserve kend (p0, m0) = (p, m) \<and> pmm_inv p m \<and> same_frame boot_frame p \<and>
    free_frames p m = free_frames p0 m0 - {i. page_overlaps boot_frame i 0x100000 (max kend 0x500000)} -
      {i. page_overlaps boot_frame i 0x500000 0x700000} - {i. page_overlaps boot_frame i 0x700000 0x800000} -
      {i. page_overlaps boot_frame i 0x800000 0xA00000} - {i. page_overlaps boot_frame i 0xA00000 0xE00000}"
proof -
  let ?k = "max (saturating_sub kend KERNEL_BASE) (PMM_BITMAP_BASE - KERNEL_BASE)"
  have b: "base_addr boot_frame = 0x100000" by (simp add: fresh_pmm_def layout)
  have e: "KERNEL_BASE + ?k = max kend 0x500000" by (auto simp: layout saturating_sub_def)
  have k: "KERNEL_BASE = 0x100000" "0x100000 + ?k = max kend 0x500000" "0x100000 + ?k < USIZE"
    using assms(1) e by (simp_all add: layout saturating_sub_def)
  obtain p1 m1 where 1: "reserve_range KERNEL_BASE ?k (p0, m0) = (p1, m1)" "pmm_inv p1 m1" "same_frame boot_frame p1"
    "free_frames p1 m1 = free_frames p0 m0 - {i. page_overlaps boot_frame i 0x100000 (max kend 0x500000)}"
    using reserve_frames[OF assms(2,3), of "0x100000" ?k] k b by auto
  obtain p2 m2 where 2: "reserve_range 0x500000 0x200000 (p1, m1) = (p2, m2)" "pmm_inv p2 m2" "same_frame boot_frame p2"
    "free_frames p2 m2 = free_frames p1 m1 - {i. page_overlaps boot_frame i 0x500000 0x700000}"
    using reserve_frames[OF 1(2,3), of "0x500000" "0x200000"] b by auto
  obtain p3 m3 where 3: "reserve_range 0x700000 0x100000 (p2, m2) = (p3, m3)" "pmm_inv p3 m3" "same_frame boot_frame p3"
    "free_frames p3 m3 = free_frames p2 m2 - {i. page_overlaps boot_frame i 0x700000 0x800000}"
    using reserve_frames[OF 2(2,3), of "0x700000" "0x100000"] b by auto
  obtain p4 m4 where 4: "reserve_range 0x800000 0x200000 (p3, m3) = (p4, m4)" "pmm_inv p4 m4" "same_frame boot_frame p4"
    "free_frames p4 m4 = free_frames p3 m3 - {i. page_overlaps boot_frame i 0x800000 0xA00000}"
    using reserve_frames[OF 3(2,3), of "0x800000" "0x200000"] b by auto
  obtain p5 m5 where 5: "reserve_range 0xA00000 0x400000 (p4, m4) = (p5, m5)" "pmm_inv p5 m5" "same_frame boot_frame p5"
    "free_frames p5 m5 = free_frames p4 m4 - {i. page_overlaps boot_frame i 0xA00000 0xE00000}"
    using reserve_frames[OF 4(2,3), of "0xA00000" "0x400000"] b by auto
  have c: "TASK_STACKS_BASE = 0xA00000" "HEAP_BASE = 0x800000" "HEAP_SIZE = 0x200000" "VMM_PAGES_BASE = 0x700000" "VMM_PAGES_SIZE = 0x100000"
    "PMM_BITMAP_SIZE = 0x200000" by (simp_all add: layout)
  have d: "PMM_BITMAP_BASE = 0x500000" by (simp add: layout)
  have "boot_reserve kend (p0, m0) = (p5, m5)" unfolding boot_reserve_def 1(1) unfolding c d 2(1) 3(1) 4(1) 5(1) ..
  then show ?thesis using 5(2,3) 5(4)[unfolded 4(4) 3(4) 2(4) 1(4)] by blast
qed

lemma boot_pmm_spec:
  assumes "kend < 2 ^ 63"
  obtains p m' where "boot_pmm kend m = (p, m')" "pmm_inv p m'" "same_frame boot_frame p"
    "free_frames p m' = {i. i < 2 ^ 24 \<and> 0xE00000 \<le> page_addr p i \<and> kend \<le> page_addr p i}"
proof -
  obtain p0 m0 where n: "pmm_new KERNEL_BASE (64 * 1024 * 1024 * 1024) m = (p0, m0)" by fastforce
  note new = pmm_new_spec[OF _ _ _ _ n]
  have 0: "same_frame boot_frame p0" "pmm_inv p0 m0" "free_frames p0 m0 = {i. i < 2 ^ 24 \<and> \<not> holds_bitmap p0 i}"
    using new by (simp_all add: layout BITMAP_consts)
  have h: "holds_bitmap p0 i \<longleftrightarrow> page_overlaps boot_frame i 0x500000 0x700000" for i
    using same_frame_simps(2)[OF 0(1)] by (simp add: holds_bitmap_def) (simp add: fresh_pmm_def BITMAP_consts)
  obtain p m' where p: "boot_reserve kend (p0, m0) = (p, m')" "pmm_inv p m'" "same_frame boot_frame p"
    and f: "free_frames p m' = free_frames p0 m0 - {i. page_overlaps boot_frame i 0x100000 (max kend 0x500000)} -
      {i. page_overlaps boot_frame i 0x500000 0x700000} - {i. page_overlaps boot_frame i 0x700000 0x800000} -
      {i. page_overlaps boot_frame i 0x800000 0xA00000} - {i. page_overlaps boot_frame i 0xA00000 0xE00000}"
    using boot_reserve_spec[OF assms 0(2,1)] by blast
  have "free_frames p m' = {i. i < 2 ^ 24 \<and> 0xE00000 \<le> page_addr p i \<and> kend \<le> page_addr p i}"
    unfolding f 0(3) h boot_frame_overlaps boot_frame_addr[OF p(3)] by auto
  then show ?thesis using that[OF _ p(2,3)] n p(1) by (simp add: boot_pmm_def)
qed

text \<open>The heap lies above the bitmap, so that its initialisation leaves the bitmap alone.\<close>

lemma init_classes_frame: "init_classes is off (h, m) = Some (off', h', m') \<Longrightarrow> a < heap_start h \<Longrightarrow>
    heap_start h + off + 4096 * length is < USIZE \<Longrightarrow> m' a = m a"
proof (induction "is" off "(h, m)" arbitrary: h m rule: init_classes.induct)
  case (2 i "is" off h m)
  let ?s = "(slabs h ! i)\<lparr>next_page := heap_start h + off, free_count := 0, total_count := 0\<rparr>"
  have u: "usize_add (heap_start h) off = heap_start h + off" "usize_add off 4096 = off + 4096" using "2.prems"(3) by simp_all
  obtain s1 where i: "i < length (slabs h)" "SlabClass.block_size ?s \<noteq> 0"
    and s1: "init_blocks (heap_start h + off) [0..<min (4096 div SlabClass.block_size ?s) MAX_BLOCKS_PER_CLASS] ?s = Some s1"
    and r: "init_classes is (off + 4096) (h\<lparr>slabs := (slabs h)[i := s1]\<rparr>, write_bytes m (heap_start h + off) 0 4096) = Some (off', h', m')"
    using "2.prems"(1) unfolding init_classes.simps u by (auto simp: Let_def split: if_splits option.splits)
  have "m' a = write_bytes m (heap_start h + off) 0 4096 a"
    using "2.hyps"[OF i(1) refl refl refl _ refl, unfolded u, OF _ s1 r] i(2) "2.prems"(2,3) by simp
  then show ?case using "2.prems"(2) by (simp add: write_bytes_def)
qed simp

lemma heap_init_frame:
  assumes "heap_init HEAP_BASE HEAP_SIZE (i, h, m) = Some (i', h', m')" "a < HEAP_BASE"
  shows "m' a = m a"
  using assms by (auto simp: heap_init_def SLAB_CLASSES_def layout split: if_splits option.splits dest!: init_classes_frame[where a = a])

lemma pmm_inv_bitmap:
  assumes "pmm_inv p m" "\<And>a. bitmap_ptr p \<le> a \<Longrightarrow> a < bitmap_ptr p + bitmap_len p \<Longrightarrow> m' a = m a"
  shows "pmm_inv p m'" "free_frames p m' = free_frames p m"
proof -
  have b: "get_bit p m' i = get_bit p m i" for i using assms(2) by (simp add: get_bit_def Let_def)
  then show f: "free_frames p m' = free_frames p m" by (simp add: free_frames_def)
  show "pmm_inv p m'" using assms(1) b f by (simp add: pmm_inv_def)
qed

section \<open>The phases\<close>

text \<open>
  What messages and device accesses leave alone, and \<open>comes b m\<close>: started in a state that looks like \<open>b\<close>, the phase \<open>m\<close> returns a consistent kernel that
  still looks like \<open>b\<close>.
\<close>

definition view :: "('f, 'i) boot \<Rightarrow>
    (Scheduler option \<times> Pmm option \<times> bool \<times> keyboard \<times> u64) \<times> (pmem \<times> bool \<times> SlabAllocator) \<times> task_statics \<times> (arc \<Rightarrow> Task) \<times> cpu_tables" where
  "view b = ((KERNEL_SCHEDULER (bt_kernel b), ks_pmm (bt_kernel b), DEV_MODE (bt_kernel b), kbd_state (bt_kernel b),
     TICK_COUNT (timer_state (bt_kernel b))),
     (bt_mem b, HEAP_INITIALIZED b, KERNEL_HEAP b), bt_tasks b, bt_arcs b, bt_tables b)"

definition comes :: "('f, 'i) boot \<Rightarrow> ('f, 'i) boot option \<Rightarrow> bool" where
  "comes b m \<longleftrightarrow> (\<exists>b'. m = Some b' \<and> kernel_inv (bt_kernel b') \<and> view b' = view b)"

lemma comes_bind:
  assumes "comes b m" "\<And>b1. kernel_inv (bt_kernel b1) \<Longrightarrow> view b1 = view b \<Longrightarrow> comes c (f b1)"
  shows "comes c (m \<bind> f)"
  using assms by (auto simp: comes_def)

lemma comes_say:
  assumes "serial_ready env" "kernel_inv (bt_kernel b1)" "view b1 = view b"
  shows "comes b (say env s b1)"
proof -
  obtain k where k: "kprintln env s (bt_kernel b1) = Some k" "kernel_inv k" "same_but_io (bt_kernel b1) k" "kbd_state k = kbd_state (bt_kernel b1)"
    unfolding kprintln_def kprint_def using kernel_print_returns[OF assms(1,2)] by blast
  have "KERNEL_SCHEDULER k = KERNEL_SCHEDULER (bt_kernel b1) \<and> ks_pmm k = ks_pmm (bt_kernel b1) \<and> DEV_MODE k = DEV_MODE (bt_kernel b1) \<and>
      timer_state k = timer_state (bt_kernel b1)"
    using k(3) by (cases k; cases "bt_kernel b1") (simp add: same_but_io_def)
  then have "view (b1\<lparr>bt_kernel := k\<rparr>) = view b1" using k(4) by (simp add: view_def)
  then show ?thesis using k(1,2) assms(3) by (simp add: comes_def say_def)
qed

lemma comes_says:
  assumes "serial_ready env" "kernel_inv (bt_kernel b1)" "view b1 = view b"
  shows "comes b (says env ls b1)"
  using assms
proof (induction ls arbitrary: b1)
  case (Cons l ls)
  show ?case unfolding says.simps by (rule comes_bind[OF comes_say[OF Cons.prems]], rule Cons.IH[OF Cons.prems(1)])
qed (simp add: comes_def)

lemma comes_some: "kernel_inv (bt_kernel b1) \<Longrightarrow> view b1 = view b \<Longrightarrow> comes b (Some b1)"
  by (simp add: comes_def)

lemma view_upd [simp]:
  "view (on_ports f b) = view b" "view (b\<lparr>bt_kernel := (bt_kernel b)\<lparr>console := c\<rparr>\<rparr>) = view b"
  "view (b\<lparr>bt_kernel := (bt_kernel b)\<lparr>apic_state := a, accesses := io\<rparr>\<rparr>) = view b"
  "view (b\<lparr>bt_vfs := v\<rparr>) = view b" "view (b\<lparr>bt_modules := mm\<rparr>) = view b" "view (b\<lparr>bt_vmm := w, bt_kernel := (bt_kernel b)\<lparr>ks_vmm_ready := r\<rparr>\<rparr>) = view b"
  by (simp_all add: view_def on_ports_def)

lemma kernel_inv_boot [simp]:
  "kernel_inv (bt_kernel (on_ports f b)) = kernel_inv (bt_kernel b)" "kernel_inv (k\<lparr>apic_state := a\<rparr>) = kernel_inv k"
  "kernel_inv (k\<lparr>ks_vmm_ready := r\<rparr>) = kernel_inv k" "kernel_inv (k\<lparr>ks_pmm := p\<rparr>) = kernel_inv k"
  by (simp_all add: kernel_inv_def on_ports_def)

definition machine_ready :: "environment \<Rightarrow> bool" where
  "machine_ready env \<longleftrightarrow> serial_ready env \<and> (\<forall>io. device_answers (env_hw env) 0x61 0x20 io)"

lemma boot_console_comes:
  assumes "serial_ready env" "kernel_inv (bt_kernel b)" "valid_magic magic"
  shows "comes b (boot_console env magic b)"
proof -
  have "kernel_inv ((bt_kernel (on_ports serial_init b))\<lparr>console := vga_clear (console (bt_kernel (on_ports serial_init b)))\<rparr>)"
    using assms(2) by (simp add: kernel_inv_def on_ports_def vga_clear_def cursor_ok_def)
  then show ?thesis unfolding boot_console_def Let_def using assms(1,3) by (simp add: comes_say)
qed

lemma boot_cpu_comes:
  assumes "serial_ready (environment.truncate img)" "kernel_inv (bt_kernel b)"
  shows "comes (b\<lparr>bt_tables := idt_init (img_linkage img) (gdt_init (img_linkage img) (bt_tables b))\<rparr>) (boot_cpu img b)"
proof -
  note say = comes_say[OF assms(1)] comes_says[OF assms(1)]
  let ?l = "img_linkage img"
  have t: "view (b1\<lparr>bt_tables := f (bt_tables b1)\<rparr>) = view (b2\<lparr>bt_tables := f (bt_tables b2)\<rparr>)" if "view b1 = view b2"
    for f b1 b2 using that by (simp add: view_def)
  have u: "view (b1 :: ('a, 'b) boot) = view (b\<lparr>bt_tables := gdt_init ?l (bt_tables b)\<rparr>) \<Longrightarrow>
      view (b1\<lparr>bt_tables := idt_init ?l (bt_tables b1)\<rparr>) = view (b\<lparr>bt_tables := idt_init ?l (gdt_init ?l (bt_tables b))\<rparr>)" for b1
    using t[of b1 "b\<lparr>bt_tables := gdt_init ?l (bt_tables b)\<rparr>"] by simp
  show ?thesis unfolding boot_cpu_def Let_def
    by (rule comes_bind[OF say(1)[OF assms(2) refl]], rule comes_bind[OF say(2)], simp, erule t,
        rule comes_bind[OF say(2)], simp, simp, rule say(2), simp, simp add: u)
qed

lemma boot_memory_comes:
  assumes "serial_ready env" "kernel_inv (bt_kernel b)" "HEAP_INITIALIZED b = False" "KERNEL_HEAP b = slab_allocator_new"
    "boot_pmm (kernel_end env) (bt_mem b) = (p, m)" "heap_init HEAP_BASE HEAP_SIZE (False, slab_allocator_new, m) = Some (True, h, m')"
  shows "comes (b\<lparr>bt_mem := m', bt_kernel := (bt_kernel b)\<lparr>ks_pmm := Some p\<rparr>, HEAP_INITIALIZED := True, KERNEL_HEAP := h\<rparr>) (boot_memory env b)"
proof -
  define c where "c = b\<lparr>bt_mem := m, bt_kernel := (bt_kernel b)\<lparr>ks_pmm := Some p\<rparr>\<rparr>"
  let ?d = "b\<lparr>bt_mem := m', bt_kernel := (bt_kernel b)\<lparr>ks_pmm := Some p\<rparr>, HEAP_INITIALIZED := True, KERNEL_HEAP := h\<rparr>"
  have pmm: "boot_pmm (kernel_end env) (bt_mem b2) = (p, m) \<and> view (b2\<lparr>bt_mem := m, bt_kernel := (bt_kernel b2)\<lparr>ks_pmm := Some p\<rparr>\<rparr>) = view c"
    if "view b2 = view b" for b2 using that assms(5) by (simp add: view_def c_def)
  have heap: "heap_init HEAP_BASE HEAP_SIZE (HEAP_INITIALIZED b2, KERNEL_HEAP b2, bt_mem b2) = Some (True, h, m') \<and>
      view (b2\<lparr>HEAP_INITIALIZED := True, KERNEL_HEAP := h, bt_mem := m'\<rparr>) = view ?d"
    if "view b2 = view c" for b2 using that assms(3,4,6) by (simp add: view_def c_def)
  have last: "comes ?d (do { (i, h, m1) \<leftarrow> heap_init HEAP_BASE HEAP_SIZE (HEAP_INITIALIZED b5, KERNEL_HEAP b5, bt_mem b5);
      say env ''[INIT] Kernel heap initialized'' (b5\<lparr>HEAP_INITIALIZED := i, KERNEL_HEAP := h, bt_mem := m1\<rparr>) })"
    if "kernel_inv (bt_kernel b5)" "view b5 = view c" for b5
    unfolding conjunct1[OF heap[OF that(2)]] Option.bind.simps prod.case
    by (rule comes_say[OF assms(1) _ conjunct2[OF heap[OF that(2)]]]) (use that in simp)
  have warn: "comes b (if q then say env s b1 else Some b1)" if "kernel_inv (bt_kernel b1)" "view b1 = view b" for q s b1
    using that by (simp add: comes_say[OF assms(1)] comes_some)
  have rest: "comes ?d (case boot_pmm (kernel_end env) (bt_mem b2) of (p, m) \<Rightarrow>
      let b3 = b2\<lparr>bt_mem := m, bt_kernel := (bt_kernel b2)\<lparr>ks_pmm := Some p\<rparr>\<rparr>
      in do { b4 \<leftarrow> says env [''[INIT] PMM initialized'', ''[INIT] Initializing Virtual Memory Manager...''] b3;
              b5 \<leftarrow> says env [''[INIT] VMM initialized'', ''[INIT] Initializing kernel heap...'']
                     (b4\<lparr>bt_vmm := Some (vmm_new (bt_vm b4)), bt_kernel := (bt_kernel b4)\<lparr>ks_vmm_ready := True\<rparr>\<rparr>);
              (i, h, m1) \<leftarrow> heap_init HEAP_BASE HEAP_SIZE (HEAP_INITIALIZED b5, KERNEL_HEAP b5, bt_mem b5);
              say env ''[INIT] Kernel heap initialized'' (b5\<lparr>HEAP_INITIALIZED := i, KERNEL_HEAP := h, bt_mem := m1\<rparr>) })"
    if "kernel_inv (bt_kernel b2)" "view b2 = view b" for b2
    unfolding Let_def conjunct1[OF pmm[OF that(2)]] prod.case
    by (rule comes_bind[OF comes_says[OF assms(1) _ conjunct2[OF pmm[OF that(2)]]]], use that in simp,
        rule comes_bind[OF comes_says[OF assms(1)]], simp, simp, rule last)
  show ?thesis unfolding boot_memory_def Let_def
    by (rule comes_bind[where b = b], rule comes_say[OF assms(1,2) refl], rule comes_bind[where b = b], erule (1) warn,
        erule (1) rest[unfolded Let_def])
qed

lemma comes_acpi:
  assumes "serial_ready env" "kernel_inv (bt_kernel b)"
  shows "\<exists>info b'. boot_acpi env b = Some (info, b') \<and> kernel_inv (bt_kernel b') \<and> view b' = view b"
proof -
  obtain b1 where b1: "say env ''[INIT] Parsing ACPI tables...'' b = Some b1" "kernel_inv (bt_kernel b1)" "view b1 = view b"
    using comes_say[OF assms refl] by (auto simp: comes_def)
  obtain r info where r: "acpi_parse (bt_mem b1) acpi_info_new = (r, info)" by fastforce
  have "\<exists>b'. say env l b1 = Some b' \<and> kernel_inv (bt_kernel b') \<and> view b' = view b" for l
    using comes_say[OF assms(1) b1(2,3)] by (simp add: comes_def)
  then obtain f where f: "say env l b1 = Some (f l) \<and> kernel_inv (bt_kernel (f l)) \<and> view (f l) = view b" for l by metis
  show ?thesis using b1(1) r f by (cases r) (simp_all add: boot_acpi_def)
qed

lemma timer_init_keeps:
  assumes "timer_init hw info (t, io) = (t', io')"
  shows "TICK_COUNT t' = TICK_COUNT t" "TIMER_HZ t' = 100"
  using assms by (auto simp: timer_init_def hpet_init_def pit_init_def Let_def split: if_splits prod.splits)

lemma boot_timer_comes:
  assumes "serial_ready env" "kernel_inv (bt_kernel b)"
  shows "comes b (boot_timer env info b)"
proof -
  have "comes b (case timer_init (env_hw env) info (timer_state (bt_kernel b1), accesses (bt_kernel b1)) of (t, io) \<Rightarrow>
      say env (l t) (b1\<lparr>bt_kernel := (bt_kernel b1)\<lparr>timer_state := t, accesses := io\<rparr>\<rparr>))"
    if "kernel_inv (bt_kernel b1)" "view b1 = view b" for b1 l
  proof -
    obtain t io where t: "timer_init (env_hw env) info (timer_state (bt_kernel b1), accesses (bt_kernel b1)) = (t, io)" by fastforce
    show ?thesis unfolding t prod.case
      by (rule comes_say[OF assms(1)]) (use that timer_init_keeps[OF t] in \<open>auto simp: kernel_inv_def view_def\<close>)
  qed
  then show ?thesis unfolding boot_timer_def Let_def by (intro comes_bind[OF comes_say[OF assms refl]])
qed

lemma setup_timer_returns:
  assumes "\<And>io'. device_answers hw 0x61 0x20 io'"
  shows "\<exists>io'. setup_timer hw 100 a io = Some io'"
proof -
  have "wait_port hw 0x61 0x20 io' \<noteq> None" for io' using assms wait_port_iff by blast
  then have "calibrate_timer hw a io' \<noteq> None" for io' by (auto simp: calibrate_timer_def Let_def split: option.splits prod.splits)
  then obtain f i where "calibrate_timer hw a (lapic_write_reg LAPIC_TIMER_DCR LAPIC_TIMER_DIVIDE_BY_16 a io) = Some (f, i)" by fast
  then show ?thesis by (simp add: setup_timer_def Let_def)
qed

lemma boot_ioapic_comes:
  assumes "serial_ready env" "kernel_inv (bt_kernel b1)" "view b1 = view b"
  shows "comes b (boot_ioapic env info b1)"
proof (cases "io_apic_address info = 0")
  case False
  let ?i = "ioapic_init (env_hw env) info (apic_state (bt_kernel b1), accesses (bt_kernel b1))"
  have "fst ?i = Inr ()" using False by (simp add: ioapic_init_def Let_def split: prod.splits)
  then obtain a io where i: "?i = (Inr (), a, io)" by (metis prod.collapse)
  have 1: "kernel_inv (bt_kernel (b1\<lparr>bt_kernel := (bt_kernel b1)\<lparr>apic_state := a, accesses := io\<rparr>\<rparr>))"
    "view (b1\<lparr>bt_kernel := (bt_kernel b1)\<lparr>apic_state := a, accesses := io\<rparr>\<rparr>) = view b" using assms(2,3) by simp_all
  have "boot_ioapic env info b1 = say env ''[INIT] IO APIC initialized'' (b1\<lparr>bt_kernel := (bt_kernel b1)\<lparr>apic_state := a, accesses := io\<rparr>\<rparr>) \<bind>
      (\<lambda>b2. say env ''[INIT] Switched to APIC mode (PIC disabled)'' (on_ports disable_pic b2))"
    using False by (simp add: boot_ioapic_def Let_def i)
  moreover have "comes b \<dots>" by (rule comes_bind[OF comes_say[OF assms(1) 1]], rule comes_say[OF assms(1)]) simp_all
  ultimately show ?thesis by simp
qed (use assms in \<open>simp add: boot_ioapic_def comes_some\<close>)

lemma boot_apic_comes:
  assumes "machine_ready env" "kernel_inv (bt_kernel b)"
  shows "comes b (boot_apic env info b)"
proof -
  have s: "serial_ready env" and w: "device_answers (env_hw env) 0x61 0x20 io" for io using assms(1) by (simp_all add: machine_ready_def)
  have on: "comes b (setup_timer (env_hw env) 100 (apic_state (bt_kernel b3)) (accesses (bt_kernel b3)) \<bind>
      (\<lambda>io1. boot_ioapic env info (on_ports (\<lambda>_. io1) b3)))" if "kernel_inv (bt_kernel b3)" "view b3 = view b" for b3
  proof -
    obtain io1 where i: "setup_timer (env_hw env) 100 (apic_state (bt_kernel b3)) (accesses (bt_kernel b3)) = Some io1"
      using setup_timer_returns[OF w] by blast
    show ?thesis unfolding i Option.bind.simps by (rule boot_ioapic_comes[OF s]) (use that in simp_all)
  qed
  have "comes b (case lapic_init (env_hw env) info (apic_state (bt_kernel b1), accesses (bt_kernel b1)) of (r, a, io) \<Rightarrow>
      let b2 = b1\<lparr>bt_kernel := (bt_kernel b1)\<lparr>apic_state := a, accesses := io\<rparr>\<rparr> in
      case r of
        Inl _ \<Rightarrow> say env ''[WARN] APIC not available, using legacy PIC'' b2
      | Inr _ \<Rightarrow> do { b3 \<leftarrow> say env ''[INIT] Local APIC initialized'' b2;
                    io1 \<leftarrow> setup_timer (env_hw env) 100 (apic_state (bt_kernel b3)) (accesses (bt_kernel b3));
                    boot_ioapic env info (on_ports (\<lambda>_. io1) b3) })"
    if "kernel_inv (bt_kernel b1)" "view b1 = view b" for b1
  proof -
    obtain r a io where l: "lapic_init (env_hw env) info (apic_state (bt_kernel b1), accesses (bt_kernel b1)) = (r, a, io)" by (metis prod_cases3)
    have 1: "kernel_inv (bt_kernel (b1\<lparr>bt_kernel := (bt_kernel b1)\<lparr>apic_state := a, accesses := io\<rparr>\<rparr>))"
      "view (b1\<lparr>bt_kernel := (bt_kernel b1)\<lparr>apic_state := a, accesses := io\<rparr>\<rparr>) = view b" using that by simp_all
    show ?thesis unfolding l prod.case Let_def
      by (cases r; simp only: sum.case) (rule comes_say[OF s 1], rule comes_bind[OF comes_say[OF s 1] on])
  qed
  then show ?thesis unfolding boot_apic_def Let_def by (intro comes_bind[OF comes_say[OF s assms(2) refl]])
qed

lemma boot_services_comes:
  assumes "serial_ready (environment.truncate img)" "kernel_inv (bt_kernel b)"
  shows "comes b (boot_services img b)"
  unfolding boot_services_def Let_def
  by (rule comes_bind[OF comes_say[OF assms refl]], rule comes_bind[OF comes_says[OF assms(1)]], simp, simp, rule comes_say[OF assms(1)], simp_all)

text \<open>The scheduler that the kernel starts with: the idle task, ready, and nothing running.\<close>

definition first_scheduler :: "image \<Rightarrow> ('f, 'i) boot \<Rightarrow> Scheduler" where
  "first_scheduler img b =
     snd (create_idle_task (idle_task_addr img) (scheduler_new (bt_tasks b) (bt_arcs b) (TICK_COUNT (timer_state (bt_kernel b)))))"

lemma first_scheduler_facts:
  assumes "NEXT_TASK_ID (bt_tasks b) = 1"
  shows "sched_inv (first_scheduler img b)" "timer_tick_count (first_scheduler img b) = TICK_COUNT (timer_state (bt_kernel b))"
    "NEXT_TASK_ID (first_scheduler img b) = 2"
    "map (\<lambda>i. (ti_id i, ti_name i, ti_state i)) (list_tasks (first_scheduler img b)) = [(1, ''idle'', Ready)]"
proof -
  let ?s = "scheduler_new (bt_tasks b) (bt_arcs b) (TICK_COUNT (timer_state (bt_kernel b)))"
  have n: "NEXT_TASK_ID ?s = 1" using assms by (simp add: scheduler_new_def)
  then show "sched_inv (first_scheduler img b)"
    unfolding first_scheduler_def by (intro create_inv sched_reach_inv[OF sched_reach.new]) simp
  show "timer_tick_count (first_scheduler img b) = TICK_COUNT (timer_state (bt_kernel b))" "NEXT_TASK_ID (first_scheduler img b) = 2"
    "map (\<lambda>i. (ti_id i, ti_name i, ti_state i)) (list_tasks (first_scheduler img b)) = [(1, ''idle'', Ready)]"
    using assms by (simp_all add: first_scheduler_def create_idle_task_def create_kernel_task_with_priority_def new_kernel_with_priority_def
      new_kernel_def enqueue_new_task_def setup_initial_stack_def arc_new_def scheduler_new_def alloc_stack_def fetch_task_id_def upd_task_def
      list_tasks_def task_info_def Let_def split_beta)
qed

lemma boot_scheduler_comes:
  assumes "serial_ready (environment.truncate img)" "kernel_inv (bt_kernel b)" "NEXT_TASK_ID (bt_tasks b) = 1"
  shows "comes (b\<lparr>bt_kernel := (bt_kernel b)\<lparr>KERNEL_SCHEDULER := Some (enable_preemption (first_scheduler img b))\<rparr>\<rparr>) (boot_scheduler img b)"
proof -
  let ?c = "b\<lparr>bt_kernel := (bt_kernel b)\<lparr>KERNEL_SCHEDULER := Some (first_scheduler img b)\<rparr>\<rparr>"
  let ?d = "b\<lparr>bt_kernel := (bt_kernel b)\<lparr>KERNEL_SCHEDULER := Some (enable_preemption (first_scheduler img b))\<rparr>\<rparr>"
  have same: "first_scheduler img b1 = first_scheduler img b" if "view b1 = view b" for b1 using that by (simp add: view_def first_scheduler_def)
  have stored: "kernel_inv (bt_kernel (b2\<lparr>bt_kernel := (bt_kernel b2)\<lparr>KERNEL_SCHEDULER := Some (first_scheduler img b)\<rparr>\<rparr>)) \<and>
      view (b2\<lparr>bt_kernel := (bt_kernel b2)\<lparr>KERNEL_SCHEDULER := Some (first_scheduler img b)\<rparr>\<rparr>) = view ?c"
    if "kernel_inv (bt_kernel b2)" "view b2 = view b" for b2
    using that first_scheduler_facts[OF assms(3), of img] by (simp add: kernel_inv_def view_def)
  have on: "comes ?d (Some (b3\<lparr>bt_kernel := (bt_kernel b3)\<lparr>KERNEL_SCHEDULER := map_option enable_preemption (KERNEL_SCHEDULER (bt_kernel b3))\<rparr>\<rparr>))"
    if "kernel_inv (bt_kernel b3)" "view b3 = view ?c" for b3
    by (rule comes_some) (use that in \<open>auto simp: kernel_inv_def view_def enable_preemption_def sched_frame\<close>)
  have rest: "comes ?d (do { b2 \<leftarrow> say (environment.truncate img) ''[INIT] Idle task created (PID 1)'' b1;
      b3 \<leftarrow> says (environment.truncate img) ls (b2\<lparr>bt_kernel := (bt_kernel b2)\<lparr>KERNEL_SCHEDULER := Some (first_scheduler img b1)\<rparr>\<rparr>);
      Some (b3\<lparr>bt_kernel := (bt_kernel b3)\<lparr>KERNEL_SCHEDULER := map_option enable_preemption (KERNEL_SCHEDULER (bt_kernel b3))\<rparr>\<rparr>) })"
    if "kernel_inv (bt_kernel b1)" "view b1 = view b" for b1 ls
    unfolding same[OF that(2)]
    by (rule comes_bind[OF comes_say[OF assms(1) that]],
        rule comes_bind[OF comes_says[OF assms(1) conjunct1[OF stored] conjunct2[OF stored]]], assumption+, rule on)
  show ?thesis unfolding boot_scheduler_def Let_def first_scheduler_def[symmetric]
    by (rule comes_bind[OF comes_say[OF assms(1,2) refl]], rule rest)
qed

section \<open>Properties\<close>

text \<open>The statics as the image is loaded.\<close>

definition loaded :: "('f, 'i) boot \<Rightarrow> bool" where
  "loaded b \<longleftrightarrow> kbd_state (bt_kernel b) = keyboard_statics \<and> timer_state (bt_kernel b) = timer_statics_init \<and>
     apic_state (bt_kernel b) = apic_statics_init \<and> KERNEL_SCHEDULER (bt_kernel b) = None \<and> cursor_ok (console (bt_kernel b)) \<and>
     \<not> DEV_MODE (bt_kernel b) \<and> \<not> HEAP_INITIALIZED b \<and> KERNEL_HEAP b = slab_allocator_new \<and>
     NEXT_TASK_ID (bt_tasks b) = 1 \<and> NEXT_STACK (bt_tasks b) = 0xA00000"

lemma boot_to_memory:
  assumes "loaded b" "serial_ready (environment.truncate img)" "valid_magic magic" "kernel_end img < 2 ^ 63"
  obtains b1 b2 b3 p where "boot_console (environment.truncate img) magic b = Some b1" "boot_cpu img b1 = Some b2"
    "boot_memory (environment.truncate img) b2 = Some b3" "kernel_inv (bt_kernel b3)" "NEXT_TASK_ID (bt_tasks b3) = 1"
    "bt_tables b3 = idt_init (img_linkage img) (gdt_init (img_linkage img) (bt_tables b))"
    "ks_pmm (bt_kernel b3) = Some p" "pmm_inv p (bt_mem b3)" "heap_inv (KERNEL_HEAP b3) {#}"
proof -
  let ?e = "environment.truncate img" and ?l = "img_linkage img"
  have ke: "kernel_end ?e < 2 ^ 63" using assms(4) by (simp add: environment.defs)
  have "kernel_inv (bt_kernel b)" using assms(1) keyboard_statics_inv(1) by (simp add: loaded_def kernel_inv_def timer_statics_init_def)
  then obtain b1 where 1: "boot_console ?e magic b = Some b1" "kernel_inv (bt_kernel b1)" "view b1 = view b"
    using boot_console_comes[OF assms(2) _ assms(3)] by (auto simp: comes_def)
  obtain b2 where 2: "boot_cpu img b1 = Some b2" "kernel_inv (bt_kernel b2)" "view b2 = view (b1\<lparr>bt_tables := idt_init ?l (gdt_init ?l (bt_tables b1))\<rparr>)"
    using boot_cpu_comes[OF assms(2) 1(2)] by (auto simp: comes_def)
  have h2: "HEAP_INITIALIZED b2 = False" "KERNEL_HEAP b2 = slab_allocator_new" "NEXT_TASK_ID (bt_tasks b2) = 1"
    "bt_tables b2 = idt_init ?l (gdt_init ?l (bt_tables b))" using 1(3) 2(3) assms(1) by (simp_all add: view_def loaded_def)
  obtain p m where p: "boot_pmm (kernel_end ?e) (bt_mem b2) = (p, m)" "pmm_inv p m" "same_frame boot_frame p" using boot_pmm_spec[OF ke] by blast
  obtain h m' where h: "heap_init HEAP_BASE HEAP_SIZE (False, slab_allocator_new, m) = Some (True, h, m')" "heap_inv h {#}"
    using heap_init_spec[OF boot_heap_region] by blast
  obtain b3 where 3: "boot_memory ?e b2 = Some b3" "kernel_inv (bt_kernel b3)"
    "view b3 = view (b2\<lparr>bt_mem := m', bt_kernel := (bt_kernel b2)\<lparr>ks_pmm := Some p\<rparr>, HEAP_INITIALIZED := True, KERNEL_HEAP := h\<rparr>)"
    using boot_memory_comes[OF assms(2) 2(2) h2(1,2) p(1) h(1)] by (auto simp: comes_def)
  have "m' a = m a" if "a < bitmap_ptr p + bitmap_len p" for a
  proof (rule heap_init_frame[OF h(1)])
    have "bitmap_ptr p + bitmap_len p = 0x700000" using p(3) by (cases p) (auto simp: same_frame_def fresh_pmm_def BITMAP_consts)
    then show "a < HEAP_BASE" using that by (simp add: layout)
  qed
  then have "pmm_inv p m'" using pmm_inv_bitmap(1)[OF p(2)] by blast
  then show ?thesis using that[OF 1(1) 2(1) 3(1,2), of p] 3(3) h2(3,4) h(2) by (simp add: view_def)
qed

lemma boot_to_shell:
  fixes b3 :: "('f, 'i) boot"
  assumes "kernel_inv (bt_kernel b3)" "machine_ready (environment.truncate img)" "NEXT_TASK_ID (bt_tasks b3) = 1"
    "boot_console (environment.truncate img) magic b = Some b1" "boot_cpu img b1 = Some b2" "boot_memory (environment.truncate img) b2 = Some b3"
  obtains b' and b7 :: "('f, 'i) boot" where "kernel_main img magic b = Some b'" "kernel_inv (bt_kernel b')" "view b7 = view b3"
    "view b' = view (b7\<lparr>bt_kernel := (bt_kernel b7)\<lparr>KERNEL_SCHEDULER := Some (enable_preemption (first_scheduler img b7))\<rparr>\<rparr>)"
proof -
  let ?e = "environment.truncate img"
  have sr: "serial_ready ?e" using assms(2) by (simp add: machine_ready_def)
  obtain info b4 where 4: "boot_acpi ?e b3 = Some (info, b4)" "kernel_inv (bt_kernel b4)" "view b4 = view b3"
    using comes_acpi[OF sr assms(1)] by blast
  obtain b5 where 5: "boot_timer ?e info b4 = Some b5" "kernel_inv (bt_kernel b5)" "view b5 = view b4"
    using boot_timer_comes[OF sr 4(2)] by (auto simp: comes_def)
  obtain b6 where 6: "boot_apic ?e info b5 = Some b6" "kernel_inv (bt_kernel b6)" "view b6 = view b5"
    using boot_apic_comes[OF assms(2) 5(2)] by (auto simp: comes_def)
  obtain b7 where 7: "boot_services img b6 = Some b7" "kernel_inv (bt_kernel b7)" "view b7 = view b6"
    using boot_services_comes[OF sr 6(2)] by (auto simp: comes_def)
  have i7: "NEXT_TASK_ID (bt_tasks b7) = 1" using assms(3) 4(3) 5(3) 6(3) 7(3) by (simp add: view_def)
  obtain b8 where 8: "boot_scheduler img b7 = Some b8" "kernel_inv (bt_kernel b8)"
    "view b8 = view (b7\<lparr>bt_kernel := (bt_kernel b7)\<lparr>KERNEL_SCHEDULER := Some (enable_preemption (first_scheduler img b7))\<rparr>\<rparr>)"
    using boot_scheduler_comes[OF sr 7(2) i7] by (auto simp: comes_def)
  obtain b9 where 9: "kernel_main img magic b = Some b9" "kernel_inv (bt_kernel b9)" "view b9 = view b8"
    using comes_says[OF sr 8(2) refl] assms(4-6) 4(1) 5(1) 6(1) 7(1) 8(1) by (simp add: kernel_main_def Let_def comes_def del: says.simps) blast
  then show ?thesis using that 8(3) 4(3) 5(3) 6(3) 7(3) by metis
qed

lemma kernel_main_spec:
  fixes b :: "('f, 'i) boot"
  assumes "loaded b" "machine_ready (environment.truncate img)" "valid_magic magic" "kernel_end img < 2 ^ 63"
  shows "\<exists>b' p s. kernel_main img magic b = Some b' \<and> kernel_inv (bt_kernel b') \<and> tasks_left (bt_kernel b') \<and>
    bt_tables b' = idt_init (img_linkage img) (gdt_init (img_linkage img) (bt_tables b)) \<and>
    ks_pmm (bt_kernel b') = Some p \<and> pmm_inv p (bt_mem b') \<and> heap_inv (KERNEL_HEAP b') {#} \<and>
    KERNEL_SCHEDULER (bt_kernel b') = Some s \<and> preempt_enabled s \<and>
    map (\<lambda>i. (ti_id i, ti_name i, ti_state i)) (list_tasks s) = [(1, ''idle'', Ready)]"
proof -
  have sr: "serial_ready (environment.truncate img)" using assms(2) by (simp add: machine_ready_def)
  obtain b1 b2 b3 p where m: "boot_console (environment.truncate img) magic b = Some b1" "boot_cpu img b1 = Some b2"
    "boot_memory (environment.truncate img) b2 = Some b3" "kernel_inv (bt_kernel b3)" "NEXT_TASK_ID (bt_tasks b3) = 1"
    and v3: "bt_tables b3 = idt_init (img_linkage img) (gdt_init (img_linkage img) (bt_tables b))"
    "ks_pmm (bt_kernel b3) = Some p" "pmm_inv p (bt_mem b3)" "heap_inv (KERNEL_HEAP b3) {#}"
    using boot_to_memory[OF assms(1) sr assms(3,4)] by metis
  obtain b' and b7 :: "('f, 'i) boot" where b': "kernel_main img magic b = Some b'" "kernel_inv (bt_kernel b')" "view b7 = view b3"
    "view b' = view (b7\<lparr>bt_kernel := (bt_kernel b7)\<lparr>KERNEL_SCHEDULER := Some (enable_preemption (first_scheduler img b7))\<rparr>\<rparr>)"
    using boot_to_shell[OF m(4) assms(2) m(5) m(1-3)] by metis
  have "NEXT_TASK_ID (bt_tasks b7) = 1" using b'(3) m(5) by (simp add: view_def)
  note f = first_scheduler_facts[OF this, of img]
  let ?s = "enable_preemption (first_scheduler img b7)"
  have v: "KERNEL_SCHEDULER (bt_kernel b') = Some ?s" "ks_pmm (bt_kernel b') = Some p" "pmm_inv p (bt_mem b')" "heap_inv (KERNEL_HEAP b') {#}"
    "bt_tables b' = idt_init (img_linkage img) (gdt_init (img_linkage img) (bt_tables b))" using b'(3,4) v3 by (simp_all add: view_def)
  have "tasks_left (bt_kernel b')" using v(1) f(3) by (simp add: tasks_left_def enable_preemption_def)
  moreover have "preempt_enabled ?s" "list_tasks ?s = list_tasks (first_scheduler img b7)" by (simp_all add: enable_preemption_def list_tasks_def)
  ultimately show ?thesis using b'(1,2) v f(4) by auto
qed


definition demo_image :: image where
  "demo_image = environment.extend demo_env \<lparr>img_linkage = demo_linkage, idle_task_addr = 0x104000, symbol_addr = (\<lambda>_. 0x105000)\<rparr>"

definition demo_boot :: "(unit, unit) boot" where
  "demo_boot = \<lparr>bt_kernel = demo_shell\<lparr>kbd_state := keyboard_statics, KERNEL_SCHEDULER := None\<rparr>, bt_tables = demo_tables, bt_mem = (\<lambda>_. 0),
     bt_vm = \<lparr>vmem = (\<lambda>_. 0), NEXT_PAGE_ADDR = 0x700000, cr3 = 0x200000, flushed = []\<rparr>, bt_vmm = None, HEAP_INITIALIZED = False,
     KERNEL_HEAP = slab_allocator_new, bt_vfs = None, bt_modules = None, bt_next_module = 1,
     bt_tasks = \<lparr>NEXT_TASK_ID = 1, NEXT_STACK = 0xA00000, stack_mem = (\<lambda>_. 0)\<rparr>, bt_arcs = (\<lambda>_. undefined)\<rparr>"

lemma demo_boot_ok:
  "loaded demo_boot" "machine_ready (environment.truncate demo_image)" "kernel_end demo_image < 2 ^ 63" "environment.truncate demo_image = demo_env"
proof -
  show e: "environment.truncate demo_image = demo_env" by (simp add: demo_image_def environment.defs demo_env_def)
  have "\<exists>io'. wait_port ready_hardware 0x61 0x20 io = Some io'" for io by (simp add: ready_wait)
  then have "device_answers (env_hw demo_env) 0x61 0x20 io" for io by (simp add: wait_port_iff demo_env_def)
  then show "machine_ready (environment.truncate demo_image)" unfolding e machine_ready_def using demo_shell_ok(1) by blast
  show "loaded demo_boot"
    by (simp add: loaded_def demo_boot_def demo_shell_def demo_kernel_def kernel.defs demo_console_def cursor_ok_def)
  show "kernel_end demo_image < 2 ^ 63" by (simp add: demo_image_def environment.defs demo_env_def)
qed


lemma alloc_page_after:
  assumes "pmm_inv p m" "same_frame boot_frame p" "alloc_page (p, m) = (r, p', m')"
  shows "pmm_inv p' m' \<and> same_frame boot_frame p' \<and> free_frames p' m' \<subseteq> free_frames p m \<and>
    (\<forall>a. r = Ok a \<longrightarrow> (\<exists>i \<in> free_frames p m. a = 0x100000 + i * 4096))"
proof (cases "free_frames p m = {}")
  case True
  then show ?thesis using assms alloc_page_empty[OF assms(1) True] by auto
next
  case False
  have p': "p' = p\<lparr>free_page_count := free_page_count p - 1\<rparr>" and r: "r = Ok (page_addr p (Min (free_frames p m)))"
    using alloc_page_nonempty[OF assms(1) False] assms(3) by simp_all
  have "same_frame boot_frame p'" unfolding p' by (rule same_frame_trans[OF assms(2)]) simp
  moreover have "pmm_inv p' m' \<and> free_frames p' m' \<subseteq> free_frames p m"
    using alloc_page_keeps_inv[OF assms(1) False] alloc_page_nonempty[OF assms(1) False] assms(3) by auto
  moreover have "Min (free_frames p m) \<in> free_frames p m" using False by simp
  ultimately show ?thesis using r boot_frame_addr[OF assms(2)] by auto
qed

lemma alloc_pages_after:
  assumes "pmm_inv p m" "same_frame boot_frame p" "((\<lambda>st. snd (alloc_page st)) ^^ n) (p, m) = (p', m')"
  shows "pmm_inv p' m' \<and> same_frame boot_frame p' \<and> free_frames p' m' \<subseteq> free_frames p m"
  using assms(3)
proof (induction n arbitrary: p' m')
  case (Suc n)
  obtain q k where q: "((\<lambda>st. snd (alloc_page st)) ^^ n) (p, m) = (q, k)" by fastforce
  obtain r where "alloc_page (q, k) = (r, p', m')" using Suc.prems q by (cases "alloc_page (q, k)") simp
  then show ?case using alloc_page_after Suc.IH[OF q] by blast
qed (use assms in simp)

text \<open>
  C13. The memory map. After the boot, however many pages have been allocated, a page that the physical memory manager hands out lies above the kernel's image, the bitmap, the pool of page
  tables, the heap and the first 4 MiB of task stacks.
\<close>
theorem boot_pages_safe:
  assumes "kend < 2 ^ 63" "((\<lambda>st. snd (alloc_page st)) ^^ n) (boot_pmm kend m) = st" "alloc_page st = (Ok a, st')"
  shows "kend \<le> a \<and> PMM_BITMAP_BASE + PMM_BITMAP_SIZE \<le> a \<and> VMM_PAGES_BASE + VMM_PAGES_SIZE \<le> a \<and> HEAP_BASE + HEAP_SIZE \<le> a \<and>
    TASK_STACKS_BASE + 0x400000 \<le> a \<and> a + PAGE_SIZE \<le> KERNEL_BASE + 64 * 1024 * 1024 * 1024"
proof -
  obtain p m1 where p: "boot_pmm kend m = (p, m1)" "pmm_inv p m1" "same_frame boot_frame p"
    "free_frames p m1 = {i. i < 2 ^ 24 \<and> 0xE00000 \<le> page_addr p i \<and> kend \<le> page_addr p i}"
    using boot_pmm_spec[OF assms(1)] by blast
  obtain q k where q: "st = (q, k)" by fastforce
  have s: "pmm_inv q k \<and> same_frame boot_frame q \<and> free_frames q k \<subseteq> free_frames p m1"
    using alloc_pages_after[OF p(2,3)] assms(2) p(1) q by simp
  obtain p' m' where "alloc_page (q, k) = (Ok a, p', m')" using assms(3) q by (cases st') simp
  then obtain i where "i \<in> free_frames q k" "a = 0x100000 + i * 4096" using alloc_page_after[of q k "Ok a" p' m'] s by auto
  then have "i < 2 ^ 24" "0xE00000 \<le> a" "kend \<le> a" "a = 0x100000 + i * 4096" using s p(4) boot_frame_addr[OF p(3)] by auto
  then show ?thesis by (auto simp: layout)
qed

lemma first_page:
  assumes "kend \<le> 0xE00000"
  shows "fst (alloc_page (boot_pmm kend m)) = Ok 0xE00000"
proof -
  have "kend < 2 ^ 63" using assms by simp
  then obtain p m1 where p: "boot_pmm kend m = (p, m1)" "pmm_inv p m1" "same_frame boot_frame p"
    "free_frames p m1 = {i. i < 2 ^ 24 \<and> 0xE00000 \<le> page_addr p i \<and> kend \<le> page_addr p i}"
    using boot_pmm_spec by blast
  have f: "free_frames p m1 = {3328..<2 ^ 24}" unfolding p(4) boot_frame_addr[OF p(3)] using assms by auto
  have "Min {3328..<2 ^ 24 :: nat} = 3328" by (rule Min_eqI) simp_all
  then show ?thesis using alloc_page_nonempty[OF p(2)] boot_frame_addr[OF p(3), of 3328] unfolding p(1) f by simp
qed

theorem boot_pages_safe_witness:
  "\<exists>a st'. alloc_page (boot_pmm 0x180000 (\<lambda>_. 0)) = (Ok a, st') \<and> a = 0xE00000 \<and> HEAP_BASE + HEAP_SIZE \<le> a"
proof -
  obtain st' where "alloc_page (boot_pmm 0x180000 (\<lambda>_. 0)) = (Ok 0xE00000, st')"
    using first_page[of "0x180000" "\<lambda>_. 0"] by (cases "alloc_page (boot_pmm 0x180000 (\<lambda>_. 0))") simp
  then show ?thesis using boot_pages_safe[of "0x180000" 0 "\<lambda>_. 0"] by auto
qed

lemma stacks_after:
  assumes "NEXT_STACK s = 0xA00000" "n \<le> 64"
  shows "unat (NEXT_STACK (((\<lambda>st. snd (alloc_stack TASK_STACK_SIZE st)) ^^ n) s)) = 0xA00000 + n * 0x10000"
  using assms(2)
proof (induction n)
  case (Suc n)
  let ?s = "((\<lambda>st. snd (alloc_stack TASK_STACK_SIZE st)) ^^ n) s"
  have u: "unat (NEXT_STACK ?s) = 0xA00000 + n * 0x10000" using Suc by simp
  then have v: "unat (NEXT_STACK ?s + TASK_STACK_SIZE) = 0xA00000 + Suc n * 0x10000"
    using Suc.prems by (simp add: unat_word_ariths TASK_STACK_SIZE_def)
  then have "\<not> STACK_REGION_END < NEXT_STACK ?s + TASK_STACK_SIZE" using Suc.prems by (simp add: word_less_nat_alt STACK_REGION_END_def)
  then show ?case using v by (simp add: alloc_stack_def Let_def)
qed (simp add: assms(1))

text \<open>
  C20. Stacks and pages overlap. The boot keeps only the first 4 MiB of the region from which task stacks are taken: the first page that the physical memory manager hands out is at \<open>0xE00000\<close>, and
  the 65th stack of a task is the 64 KiB that start there.
\<close>
theorem first_page_is_a_stack:
  assumes "kend \<le> 0xE00000" "NEXT_STACK s = 0xA00000"
  shows "fst (alloc_page (boot_pmm kend m)) = Ok 0xE00000 \<and>
    fst (alloc_stack TASK_STACK_SIZE (((\<lambda>st. snd (alloc_stack TASK_STACK_SIZE st)) ^^ 64) s)) = 0xE00000 + TASK_STACK_SIZE"
proof -
  let ?s = "((\<lambda>st. snd (alloc_stack TASK_STACK_SIZE st)) ^^ 64) s"
  have "NEXT_STACK ?s = 0xE00000" using stacks_after[OF assms(2), of 64] by (simp add: word_unat_eq_iff)
  then show ?thesis using first_page[OF assms(1)] by (simp add: alloc_stack_def STACK_REGION_END_def TASK_STACK_SIZE_def Let_def)
qed

theorem first_page_is_a_stack_witness:
  "fst (alloc_page (boot_pmm 0x180000 (\<lambda>_. 0))) = Ok 0xE00000 \<and>
   fst (alloc_stack TASK_STACK_SIZE (((\<lambda>st. snd (alloc_stack TASK_STACK_SIZE st)) ^^ 64) (bt_tasks demo_boot))) = 0xE10000"
  using first_page_is_a_stack[of "0x180000" "bt_tasks demo_boot" "\<lambda>_. 0"] by (simp add: demo_boot_def TASK_STACK_SIZE_def)

end
