(* ===== verification/Ahci.thy ===== *)
theory Ahci
  imports Acpi
begin

text \<open>
  The disk controller driver (\<open>src/drivers/ahci.c\<close>): finding the ports of an AHCI controller that have a device, setting up their command lists, command
  tables and receive areas in memory, and the search for an NVMe controller on the PCI bus. Registers are memory-mapped accesses; the structures that the controller
  reads are bytes of the physical memory. What the configuration space of the PCI bus holds is a parameter.
\<close>

section \<open>Registers\<close>

definition AHCI_CAP :: usize where "AHCI_CAP = 0x00"
definition AHCI_GHC :: usize where "AHCI_GHC = 0x04"
definition AHCI_PI :: usize where "AHCI_PI = 0x0C"
definition AHCI_VS :: usize where "AHCI_VS = 0x10"
definition AHCI_PORT_CLB :: usize where "AHCI_PORT_CLB = 0x00"
definition AHCI_PORT_CLBU :: usize where "AHCI_PORT_CLBU = 0x04"
definition AHCI_PORT_FB :: usize where "AHCI_PORT_FB = 0x08"
definition AHCI_PORT_FBU :: usize where "AHCI_PORT_FBU = 0x0C"
definition AHCI_PORT_CMD :: usize where "AHCI_PORT_CMD = 0x18"
definition AHCI_PORT_SIG :: usize where "AHCI_PORT_SIG = 0x24"
definition AHCI_PORT_SSTS :: usize where "AHCI_PORT_SSTS = 0x28"
definition AHCI_PORT_SIZE :: usize where "AHCI_PORT_SIZE = 0x80"
definition AHCI_CMD_SLOT_COUNT :: nat where "AHCI_CMD_SLOT_COUNT = 32"
definition AHCI_CMD_TABLE_SIZE :: usize where "AHCI_CMD_TABLE_SIZE = 256"
definition AHCI_PRDT_ENTRIES :: u16 where "AHCI_PRDT_ENTRIES = 8"
definition AHCI_GHC_AE :: u32 where "AHCI_GHC_AE = push_bit 31 1"
definition AHCI_PORT_CMD_ST :: u32 where "AHCI_PORT_CMD_ST = push_bit 0 1"
definition AHCI_PORT_CMD_FRE :: u32 where "AHCI_PORT_CMD_FRE = push_bit 4 1"
definition AHCI_PORT_CMD_FR :: u32 where "AHCI_PORT_CMD_FR = push_bit 14 1"
definition AHCI_PORT_CMD_CR :: u32 where "AHCI_PORT_CMD_CR = push_bit 15 1"
definition AHCI_SIG_SATA :: u32 where "AHCI_SIG_SATA = 0x00000101"
definition AHCI_SIG_SATAPI :: u32 where "AHCI_SIG_SATAPI = 0xEB140101"
definition AHCI_SIG_SEMB :: u32 where "AHCI_SIG_SEMB = 0xC33C0101"
definition AHCI_SIG_PM :: u32 where "AHCI_SIG_PM = 0x96690101"

lemmas ahci_regs =
  AHCI_CAP_def AHCI_GHC_def AHCI_PI_def AHCI_VS_def AHCI_PORT_CLB_def AHCI_PORT_CLBU_def AHCI_PORT_FB_def AHCI_PORT_FBU_def
  AHCI_PORT_CMD_def AHCI_PORT_SIG_def AHCI_PORT_SSTS_def AHCI_PORT_SIZE_def

datatype ahci_device_type = AHCI_DEV_NULL | AHCI_DEV_SATA | AHCI_DEV_SATAPI | AHCI_DEV_SEMB | AHCI_DEV_PM

record ahci_port =
  port_num :: nat
  port_base :: usize
  dev_type :: ahci_device_type
  cmd_list :: usize
  cmd_table :: usize
  fis_recv :: usize
  cmd_slot :: int

record ahci_controller =
  ahci_base :: usize
  ahci_cap :: u32
  ahci_cap2 :: u32
  ahci_version :: u32
  port_count :: u32
  ports :: "ahci_port list"

definition ahci_port_zero :: ahci_port where
  "ahci_port_zero = \<lparr>port_num = 0, port_base = 0, dev_type = AHCI_DEV_NULL, cmd_list = 0, cmd_table = 0, fis_recv = 0, cmd_slot = 0\<rparr>"

definition g_ahci :: ahci_controller where
  "g_ahci = \<lparr>ahci_base = 0, ahci_cap = 0, ahci_cap2 = 0, ahci_version = 0, port_count = 0, ports = replicate 32 ahci_port_zero\<rparr>"

section \<open>Stores to memory\<close>

definition store_bytes :: "usize \<Rightarrow> u8 list \<Rightarrow> pmem \<Rightarrow> pmem" where
  "store_bytes a bs m = (\<lambda>x. if a \<le> x \<and> x < a + length bs then bs ! (x - a) else m x)"

definition store_u16 :: "usize \<Rightarrow> u16 \<Rightarrow> pmem \<Rightarrow> pmem" where
  "store_u16 a v = store_bytes a (to_le_bytes 2 (unat v))"

definition store_u32 :: "usize \<Rightarrow> u32 \<Rightarrow> pmem \<Rightarrow> pmem" where
  "store_u32 a v = store_bytes a (to_le_bytes 4 (unat v))"

section \<open>Ports\<close>

definition ahci_get_device_type :: "hardware \<Rightarrow> usize \<Rightarrow> io \<Rightarrow> ahci_device_type \<times> io" where
  "ahci_get_device_type hw base io =
     (let (ssts, io1) = read_volatile32 hw (base + AHCI_PORT_SSTS) io;
          (sig, io2) = read_volatile32 hw (base + AHCI_PORT_SIG) io1;
          det = ssts AND 0x0F;
          ipm = drop_bit 8 ssts AND 0x0F
      in (if det \<noteq> 0x03 \<or> ipm \<noteq> 0x01 then AHCI_DEV_NULL
          else if sig = AHCI_SIG_SATA then AHCI_DEV_SATA
          else if sig = AHCI_SIG_SATAPI then AHCI_DEV_SATAPI
          else if sig = AHCI_SIG_SEMB then AHCI_DEV_SEMB
          else if sig = AHCI_SIG_PM then AHCI_DEV_PM
          else AHCI_DEV_NULL, io2))"

text \<open>The two loops that wait until the port is idle, with what is left of the counter.\<close>

primrec ahci_wait_idle :: "nat \<Rightarrow> hardware \<Rightarrow> usize \<Rightarrow> io \<Rightarrow> bool \<times> io" where
  "ahci_wait_idle 0 hw base io = (False, io)"
| "ahci_wait_idle (Suc timeout) hw base io =
     (let (cmd, io1) = read_volatile32 hw (base + AHCI_PORT_CMD) io
      in if cmd AND AHCI_PORT_CMD_FR = 0 \<and> cmd AND AHCI_PORT_CMD_CR = 0 then (True, io1) else ahci_wait_idle timeout hw base io1)"

definition ahci_stop_cmd_engine :: "hardware \<Rightarrow> usize \<Rightarrow> io \<Rightarrow> int \<times> io" where
  "ahci_stop_cmd_engine hw base io =
     (let (cmd, io1) = read_volatile32 hw (base + AHCI_PORT_CMD) io;
          io2 = write_volatile32 (base + AHCI_PORT_CMD) (cmd AND NOT AHCI_PORT_CMD_ST) io1;
          io3 = write_volatile32 (base + AHCI_PORT_CMD) (cmd AND NOT AHCI_PORT_CMD_FRE) io2;
          (ok, io4) = ahci_wait_idle 500000 hw base io3
      in (if ok then 0 else - 1, io4))"

definition ahci_start_cmd_engine :: "hardware \<Rightarrow> usize \<Rightarrow> io \<Rightarrow> int \<times> io" where
  "ahci_start_cmd_engine hw base io =
     (let (_, io1) = ahci_wait_idle 500000 hw base io;
          (cmd, io2) = read_volatile32 hw (base + AHCI_PORT_CMD) io1;
          io3 = write_volatile32 (base + AHCI_PORT_CMD) (cmd OR AHCI_PORT_CMD_FRE) io2;
          (cmd1, io4) = read_volatile32 hw (base + AHCI_PORT_CMD) io3
      in (0, write_volatile32 (base + AHCI_PORT_CMD) (cmd1 OR AHCI_PORT_CMD_ST) io4))"

text \<open>A command header has 32 bytes, with \<open>prdtl\<close> at offset 2, \<open>ctba\<close> at 8 and \<open>ctbau\<close> at 12.\<close>

definition ahci_header :: "usize \<Rightarrow> usize \<Rightarrow> nat \<Rightarrow> pmem \<Rightarrow> pmem" where
  "ahci_header cl ct i m =
     store_u32 (cl + 32 * i + 12) 0
       (store_u32 (cl + 32 * i + 8) (word_of_nat (ct + i * AHCI_CMD_TABLE_SIZE))
         (store_u16 (cl + 32 * i + 2) AHCI_PRDT_ENTRIES m))"

definition cmd_list_addr :: "nat \<Rightarrow> usize" where
  "cmd_list_addr n = 0x400000 + n * 0x2000"

definition ahci_init_port :: "hardware \<Rightarrow> nat \<Rightarrow> usize \<Rightarrow> ahci_port \<times> pmem \<times> io \<Rightarrow> ahci_port \<times> pmem \<times> io" where
  "ahci_init_port hw n base = (\<lambda>(p, m, io).
     let (ty, io1) = ahci_get_device_type hw base io;
         p1 = p\<lparr>port_num := n, port_base := base, dev_type := ty\<rparr>
     in if ty = AHCI_DEV_NULL then (p1, m, io1)
        else let io2 = snd (ahci_stop_cmd_engine hw base io1);
                 cl = cmd_list_addr n;
                 m1 = write_bytes m cl 0 1024;
                 io3 = write_volatile32 (base + AHCI_PORT_CLBU) 0 (write_volatile32 (base + AHCI_PORT_CLB) (word_of_nat cl) io2);
                 fis = cl + 1024;
                 m2 = write_bytes m1 fis 0 256;
                 io4 = write_volatile32 (base + AHCI_PORT_FBU) 0 (write_volatile32 (base + AHCI_PORT_FB) (word_of_nat fis) io3);
                 ct = cl + 4096;
                 m3 = fold (ahci_header cl ct) [0..<AHCI_CMD_SLOT_COUNT] m2;
                 io5 = snd (ahci_start_cmd_engine hw base io4)
             in (p1\<lparr>cmd_list := cl, fis_recv := fis, cmd_table := ct\<rparr>, m3, io5))"

section \<open>Controller\<close>

definition ahci_try_port :: "hardware \<Rightarrow> u32 \<Rightarrow> nat \<Rightarrow> ahci_controller \<times> pmem \<times> io \<Rightarrow> ahci_controller \<times> pmem \<times> io" where
  "ahci_try_port hw pi i = (\<lambda>(c, m, io).
     if pi AND push_bit i 1 = 0 then (c, m, io)
     else let (p, m1, io1) = ahci_init_port hw i (ahci_base c + 0x100 + i * AHCI_PORT_SIZE) (ports c ! i, m, io);
              c1 = c\<lparr>ports := (ports c)[i := p]\<rparr>
          in (if dev_type p \<noteq> AHCI_DEV_NULL then c1\<lparr>port_count := port_count c1 + 1\<rparr> else c1, m1, io1))"

definition ahci_init :: "hardware \<Rightarrow> ahci_controller \<times> pmem \<times> io \<Rightarrow> int \<times> ahci_controller \<times> pmem \<times> io" where
  "ahci_init hw = (\<lambda>(c, m, io).
     let base = 0xFEC00000;
         (cap, io1) = read_volatile32 hw (base + AHCI_CAP) io;
         (vs, io2) = read_volatile32 hw (base + AHCI_VS) io1;
         (ghc, io3) = read_volatile32 hw (base + AHCI_GHC) io2;
         io4 = write_volatile32 (base + AHCI_GHC) (ghc OR AHCI_GHC_AE) io3;
         (pi, io5) = read_volatile32 hw (base + AHCI_PI) io4;
         (c1, m1, io6) = fold (ahci_try_port hw pi) [0..<32]
           (c\<lparr>ahci_base := base, ahci_cap := cap, ahci_version := vs, port_count := 0\<rparr>, m, io5)
     in (if port_count c1 > 0 then 0 else - 1, c1, m1, io6))"

section \<open>NVMe\<close>

text \<open>
  \<open>pci\<close> gives the 32 bits behind the data port for the value in the address port; the ports \<open>0xCFC\<close> and \<open>0xCFD\<close> are their lowest two bytes.
\<close>

definition pci_address :: "nat \<Rightarrow> nat \<Rightarrow> nat \<Rightarrow> u32" where
  "pci_address bus dev func =
     push_bit 31 1 OR push_bit 16 (word_of_nat bus) OR push_bit 11 (word_of_nat dev) OR push_bit 8 (word_of_nat func)"

fun nvme_scan :: "(u32 \<Rightarrow> u32) \<Rightarrow> u32 list \<Rightarrow> int" where
  "nvme_scan pci [] = - 1"
| "nvme_scan pci (addr # as) =
     (let vendor = pci addr in
      if vendor = 0xFFFFFFFF \<or> vendor = 0 then nvme_scan pci as
      else let class_code = ucast (drop_bit 8 (pci (addr OR 0x09))) :: u8;
               subclass = ucast (pci (addr OR 0x09)) :: u8
           in if class_code = 0x01 \<and> subclass = 0x08 then 0 else nvme_scan pci as)"

definition nvme_detect :: "(u32 \<Rightarrow> u32) \<Rightarrow> int" where
  "nvme_detect pci =
     nvme_scan pci (concat (map (\<lambda>bus. concat (map (\<lambda>dev. map (pci_address bus dev) [0..<8]) [0..<32])) [0..<256]))"

section \<open>Structures in memory\<close>

lemma mem_bytes_cong: "(\<And>k. k < n \<Longrightarrow> m (a + k) = m' (a + k)) \<Longrightarrow> mem_bytes m a n = mem_bytes m' a n"
  by (simp add: mem_bytes_def)

lemma mem_bytes_store: "length bs = n \<Longrightarrow> mem_bytes (store_bytes a bs m) a n = bs"
  by (simp add: mem_bytes_def store_bytes_def list_eq_iff_nth_eq)

lemma mem_store: "mem_u16 (store_u16 a v m) a = v" "mem_u32 (store_u32 a w m) a = w"
  unfolding store_u16_def store_u32_def
  by (simp_all add: mem_bytes_store le_word_to_le_bytes_id del: to_le_bytes_numeral)

lemma mem_bytes_store_other: "b + length bs \<le> a \<or> a + n \<le> b \<Longrightarrow> mem_bytes (store_bytes b bs m) a n = mem_bytes m a n"
  by (rule mem_bytes_cong) (auto simp: store_bytes_def)

definition header_ok :: "pmem \<Rightarrow> usize \<Rightarrow> usize \<Rightarrow> nat \<Rightarrow> bool" where
  "header_ok m cl ct i \<longleftrightarrow> mem_u16 m (cl + 32 * i + 2) = AHCI_PRDT_ENTRIES \<and>
     mem_u32 m (cl + 32 * i + 8) = word_of_nat (ct + i * AHCI_CMD_TABLE_SIZE) \<and> mem_u32 m (cl + 32 * i + 12) = 0"

lemma header_ok_cong:
  assumes "header_ok m cl ct i" "\<And>x. cl + 32 * i \<le> x \<Longrightarrow> x < cl + 32 * i + 32 \<Longrightarrow> m' x = m x"
  shows "header_ok m' cl ct i"
proof -
  have e: "mem_bytes m' (cl + 32 * i + d) l = mem_bytes m (cl + 32 * i + d) l" if "d + l \<le> 32" for d l
    by (rule mem_bytes_cong, rule assms(2)) (use that in auto)
  have "2 + 2 \<le> (32 :: nat)" "8 + 4 \<le> (32 :: nat)" "12 + 4 \<le> (32 :: nat)" by simp_all
  then show ?thesis using assms(1) unfolding header_ok_def by (simp only: e)
qed

lemma ahci_header_ok: "header_ok (ahci_header cl ct i m) cl ct i"
proof -
  let ?a = "cl + 32 * i"
  let ?m1 = "store_u16 (?a + 2) AHCI_PRDT_ENTRIES m"
  let ?m2 = "store_u32 (?a + 8) (word_of_nat (ct + i * AHCI_CMD_TABLE_SIZE)) ?m1"
  have e: "ahci_header cl ct i m = store_u32 (?a + 12) 0 ?m2" by (simp add: ahci_header_def)
  have "mem_bytes (ahci_header cl ct i m) (?a + 8) 4 = mem_bytes ?m2 (?a + 8) 4"
    unfolding e by (subst store_u32_def) (rule mem_bytes_store_other, simp del: to_le_bytes_numeral)
  moreover have "mem_bytes (ahci_header cl ct i m) (?a + 2) 2 = mem_bytes ?m1 (?a + 2) 2"
  proof -
    have "mem_bytes (ahci_header cl ct i m) (?a + 2) 2 = mem_bytes ?m2 (?a + 2) 2"
      unfolding e by (subst store_u32_def) (rule mem_bytes_store_other, simp del: to_le_bytes_numeral)
    also have "\<dots> = mem_bytes ?m1 (?a + 2) 2"
      by (subst store_u32_def) (rule mem_bytes_store_other, simp del: to_le_bytes_numeral)
    finally show ?thesis .
  qed
  ultimately show ?thesis unfolding header_ok_def by (simp only: mem_store) (simp only: e mem_store)
qed

lemma ahci_header_other: "x < cl + 32 * i \<or> cl + 32 * i + 32 \<le> x \<Longrightarrow> ahci_header cl ct i m x = m x"
  by (auto simp: ahci_header_def store_u16_def store_u32_def store_bytes_def simp del: to_le_bytes_numeral)

lemma ahci_headers:
  "(\<forall>i < n. header_ok (fold (ahci_header cl ct) [0..<n] m) cl ct i) \<and>
   (\<forall>x. x < cl \<or> cl + 32 * n \<le> x \<longrightarrow> fold (ahci_header cl ct) [0..<n] m x = m x)"
proof (induction n)
  case (Suc n)
  let ?m = "fold (ahci_header cl ct) [0..<n] m"
  have f: "fold (ahci_header cl ct) [0..<Suc n] m = ahci_header cl ct n ?m" by simp
  have "header_ok (ahci_header cl ct n ?m) cl ct i" if "i < n" for i
  proof -
    have "header_ok ?m cl ct i" using Suc.IH \<open>i < n\<close> by blast
    then show ?thesis by (rule header_ok_cong) (use \<open>i < n\<close> in \<open>auto intro: ahci_header_other\<close>)
  qed
  then have "\<forall>i < Suc n. header_ok (ahci_header cl ct n ?m) cl ct i" using ahci_header_ok less_Suc_eq by blast
  moreover have "\<forall>x. x < cl \<or> cl + 32 * Suc n \<le> x \<longrightarrow> ahci_header cl ct n ?m x = m x"
    using Suc.IH by (auto simp: ahci_header_other)
  ultimately show ?case unfolding f by blast
qed simp

text \<open>What a port with a device finds in memory.\<close>

lemma init_port_memory:
  assumes "ahci_init_port hw n base (p, m, io) = (p', m', io')" "dev_type p' \<noteq> AHCI_DEV_NULL"
  shows "cmd_list p' = cmd_list_addr n" "cmd_table p' = cmd_list_addr n + 4096"
    "\<forall>i < 32. header_ok m' (cmd_list_addr n) (cmd_list_addr n + 4096) i"
    "\<forall>x. x < cmd_list_addr n \<or> cmd_list_addr n + 1280 \<le> x \<longrightarrow> m' x = m x"
proof -
  define m2 where "m2 = write_bytes (write_bytes m (cmd_list_addr n) 0 1024) (cmd_list_addr n + 1024) 0 256"
  have d: "cmd_list p' = cmd_list_addr n \<and> cmd_table p' = cmd_list_addr n + 4096 \<and>
      m' = fold (ahci_header (cmd_list_addr n) (cmd_list_addr n + 4096)) [0..<32] m2"
    using assms by (auto simp: ahci_init_port_def Let_def m2_def AHCI_CMD_SLOT_COUNT_def split: prod.splits if_splits simp del: upt_conv_Cons_Cons)
  note h = ahci_headers[of 32 "cmd_list_addr n" "cmd_list_addr n + 4096" m2]
  show "cmd_list p' = cmd_list_addr n" "cmd_table p' = cmd_list_addr n + 4096" using d by simp_all
  show "\<forall>i < 32. header_ok m' (cmd_list_addr n) (cmd_list_addr n + 4096) i" using h d by metis
  have "m2 x = m x" if "x < cmd_list_addr n \<or> cmd_list_addr n + 1280 \<le> x" for x using that by (auto simp: m2_def write_bytes_def)
  then show "\<forall>x. x < cmd_list_addr n \<or> cmd_list_addr n + 1280 \<le> x \<longrightarrow> m' x = m x" using h d by auto
qed

definition port_ready :: "ahci_port \<Rightarrow> nat \<Rightarrow> pmem \<Rightarrow> bool" where
  "port_ready p i m \<longleftrightarrow> port_num p = i \<and> cmd_list p = cmd_list_addr i \<and> cmd_table p = cmd_list_addr i + 4096 \<and>
     (\<forall>s < 32. header_ok m (cmd_list p) (cmd_table p) s)"

definition has_device :: "ahci_controller \<Rightarrow> nat set" where
  "has_device c = {i. i < 32 \<and> dev_type (ports c ! i) \<noteq> AHCI_DEV_NULL}"

definition scanned :: "nat \<Rightarrow> pmem \<Rightarrow> ahci_controller \<times> pmem \<times> io \<Rightarrow> bool" where
  "scanned k m0 = (\<lambda>(c, m, io). length (ports c) = 32 \<and> has_device c \<subseteq> {..<k} \<and> unat (port_count c) = card (has_device c) \<and>
     (\<forall>i \<in> has_device c. port_ready (ports c ! i) i m) \<and> (\<forall>x. x < 0x400000 \<or> 0x440000 \<le> x \<longrightarrow> m x = m0 x))"

lemma scanned_step:
  assumes "scanned k m0 st" "k < 32"
  shows "scanned (Suc k) m0 (ahci_try_port hw pi k st)"
proof -
  obtain c m io where st: "st = (c, m, io)" by (cases st)
  note inv = assms(1)[unfolded st scanned_def prod.case]
  obtain p m1 io1 where p: "ahci_init_port hw k (ahci_base c + 0x100 + k * AHCI_PORT_SIZE) (ports c ! k, m, io) = (p, m1, io1)" by (metis prod_cases3)
  let ?c = "c\<lparr>ports := (ports c)[k := p]\<rparr>"
  have len: "length (ports c) = 32" using inv by simp
  have k: "k \<notin> has_device c" and fin: "finite (has_device c)" using inv by (auto intro: finite_subset)
  consider "pi AND push_bit k 1 = 0" | "pi AND push_bit k 1 \<noteq> 0" "dev_type p = AHCI_DEV_NULL" | "pi AND push_bit k 1 \<noteq> 0" "dev_type p \<noteq> AHCI_DEV_NULL"
    by blast
  then show ?thesis
  proof cases
    case 1
    then show ?thesis using inv by (auto simp: st scanned_def ahci_try_port_def)
  next
    case 2
    have "m1 = m" using p 2(2) by (auto simp: ahci_init_port_def Let_def split: prod.splits if_splits)
    moreover have "has_device ?c = has_device c" using 2(2) k len assms(2) by (auto simp: has_device_def nth_list_update split: if_splits)
    moreover have "ports ?c ! i = ports c ! i" if "i \<in> has_device c" for i using that k by (cases "i = k") simp_all
    ultimately show ?thesis using inv 2 p by (auto simp: st scanned_def ahci_try_port_def)
  next
    case 3
    note mem = init_port_memory[OF p 3(2)]
    have n: "port_num p = k" using p by (auto simp: ahci_init_port_def Let_def split: prod.splits if_splits)
    have dev: "has_device ?c = insert k (has_device c)" using 3(2) len assms(2) by (auto simp: has_device_def nth_list_update split: if_splits)
    have "card (has_device c) < 32" using k assms(2) inv card_mono[of "{..<k}" "has_device c"] by simp
    then have "unat (port_count c + 1) = unat (port_count c) + 1" using inv by (simp add: unat_word_ariths)
    then have cnt: "unat (port_count c + 1) = card (has_device ?c)" using inv dev k fin by simp
    have "port_ready (ports ?c ! i) i m1" if "i \<in> has_device ?c" for i
    proof (cases "i = k")
      case True
      then show ?thesis using mem n len assms(2) by (simp add: port_ready_def)
    next
      case False
      then have i: "i \<in> has_device c" "i < k" using that dev inv by auto
      have "header_ok m1 (cmd_list_addr i) (cmd_list_addr i + 4096) s" if "s < 32" for s
      proof (rule header_ok_cong)
        show "header_ok m (cmd_list_addr i) (cmd_list_addr i + 4096) s" using inv i(1) that by (auto simp: port_ready_def)
        show "m1 x = m x" if "x < cmd_list_addr i + 32 * s + 32" for x
          using mem(4) that \<open>s < 32\<close> i(2) by (auto simp: cmd_list_addr_def)
      qed
      then show ?thesis using inv i False by (auto simp: port_ready_def)
    qed
    moreover have "m1 x = m0 x" if "x < 0x400000 \<or> 0x440000 \<le> x" for x
      using mem(4) inv that assms(2) by (auto simp: cmd_list_addr_def)
    ultimately show ?thesis using 3 p cnt dev len inv by (auto simp: st scanned_def ahci_try_port_def has_device_def)
  qed
qed

lemma scanned_all: "n \<le> 32 \<Longrightarrow> scanned 0 m0 st \<Longrightarrow> scanned n m0 (fold (ahci_try_port hw pi) [0..<n] st)"
  by (induction n) (auto intro: scanned_step)

lemma ahci_init_scanned:
  assumes "ahci_init hw (g_ahci, m, io) = (r, c, m', io')"
  shows "scanned 32 m (c, m', io')" "r = (if has_device c = {} then - 1 else 0)"
proof -
  obtain hwb cap vs io5 pi where f: "fold (ahci_try_port hw pi) [0..<32]
      (g_ahci\<lparr>ahci_base := hwb, ahci_cap := cap, ahci_version := vs, port_count := 0\<rparr>, m, io5) = (c, m', io')"
    and r: "r = (if port_count c > 0 then 0 else - 1)"
    using assms by (auto simp: ahci_init_def Let_def split: prod.splits simp del: upt_rec_numeral)
  have "scanned 0 m (g_ahci\<lparr>ahci_base := hwb, ahci_cap := cap, ahci_version := vs, port_count := 0\<rparr>, m, io5)"
    by (auto simp: scanned_def has_device_def g_ahci_def ahci_port_zero_def)
  from scanned_all[OF le_refl this, of hw pi] show s: "scanned 32 m (c, m', io')" unfolding f .
  have "port_count c > 0 \<longleftrightarrow> has_device c \<noteq> {}"
    using s by (auto simp: scanned_def word_less_nat_alt card_gt_0_iff has_device_def)
  then show "r = (if has_device c = {} then - 1 else 0)" using r by simp
qed

lemma nvme_scan_iff:
  "nvme_scan pci as = (if \<exists>a \<in> set as. pci a \<noteq> 0xFFFFFFFF \<and> pci a \<noteq> 0 \<and> (ucast (drop_bit 8 (pci (a OR 0x09))) :: u8) = 0x01 \<and>
     (ucast (pci (a OR 0x09)) :: u8) = 0x08 then 0 else - 1)"
  by (induction as) (auto simp: Let_def)

section \<open>Properties\<close>


text \<open>A controller with disks at the first two ports.\<close>

definition two_disks :: hardware where
  "two_disks = \<lparr>port_value = (\<lambda>_ _. 0),
     reg32_value = (\<lambda>_ a. if a = 0xFEC0000C then 3 else if a mod 0x80 = 0x28 then 0x103 else if a mod 0x80 = 0x24 then 0x101 else 0),
     reg64_value = (\<lambda>_ _. 0)\<rparr>"

lemma init_port_type: "dev_type (fst (ahci_init_port hw n base (p, m, io))) = fst (ahci_get_device_type hw base io)"
  by (simp add: ahci_init_port_def Let_def split: prod.splits)

lemma found_devices:
  assumes "length (ports c) = 32" "n \<le> 32" "\<And>k io. k < 32 \<Longrightarrow> fst (ahci_get_device_type hw (ahci_base c + 0x100 + k * AHCI_PORT_SIZE) io) = AHCI_DEV_SATA"
  shows "case fold (ahci_try_port hw pi) [0..<n] (c, m, io) of (c', m', io') \<Rightarrow> length (ports c') = 32 \<and> ahci_base c' = ahci_base c \<and>
    (\<forall>i < n. pi AND push_bit i 1 \<noteq> 0 \<longrightarrow> dev_type (ports c' ! i) = AHCI_DEV_SATA)"
  using assms(2)
proof (induction n)
  case (Suc n)
  obtain c1 m1 io1 where 1: "fold (ahci_try_port hw pi) [0..<n] (c, m, io) = (c1, m1, io1)" by (metis prod_cases3)
  obtain p m2 io2 where p: "ahci_init_port hw n (ahci_base c1 + 0x100 + n * AHCI_PORT_SIZE) (ports c1 ! n, m1, io1) = (p, m2, io2)" by (metis prod_cases3)
  have b: "ahci_base c1 = ahci_base c" using Suc 1 by simp
  have d: "dev_type p = AHCI_DEV_SATA"
    using init_port_type[of hw n "ahci_base c1 + 0x100 + n * AHCI_PORT_SIZE" "ports c1 ! n" m1 io1] p assms(3)[of n] Suc.prems b by simp
  have f: "fold (ahci_try_port hw pi) [0..<Suc n] (c, m, io) = ahci_try_port hw pi n (c1, m1, io1)" using 1 by simp
  have t: "ahci_try_port hw pi n (c1, m1, io1) =
      (if pi AND push_bit n 1 = 0 then (c1, m1, io1) else (c1\<lparr>ports := (ports c1)[n := p], port_count := port_count c1 + 1\<rparr>, m2, io2))"
    using p d by (simp add: ahci_try_port_def)
  have "length (ports c1) = 32" "\<forall>i < n. pi AND push_bit i 1 \<noteq> 0 \<longrightarrow> dev_type (ports c1 ! i) = AHCI_DEV_SATA"
    using Suc.IH Suc.prems 1 by simp_all
  then show ?case unfolding f t using b d Suc.prems by (auto simp: nth_list_update less_Suc_eq)
qed (use assms(1) in simp)

lemma two_disks_devices:
  assumes "ahci_init two_disks (g_ahci, m, []) = (r, c, m', io')"
  shows "0 \<in> has_device c" "Suc 0 \<in> has_device c"
proof -
  have ty: "fst (ahci_get_device_type two_disks (0xFEC00000 + 0x100 + k * AHCI_PORT_SIZE) io) = AHCI_DEV_SATA" for k io
  proof -
    have a: "0xFEC00000 + 0x100 + k * AHCI_PORT_SIZE + AHCI_PORT_SSTS = 0xFEC00128 + k * 0x80"
      "0xFEC00000 + 0x100 + k * AHCI_PORT_SIZE + AHCI_PORT_SIG = 0xFEC00124 + k * 0x80" by (simp_all add: ahci_regs)
    have r: "(0xFEC00128 + k * 0x80) mod 0x80 = (0x28 :: nat)" "(0xFEC00124 + k * 0x80) mod 0x80 = (0x24 :: nat)"
      unfolding mod_mult_self1 by simp_all
    have "reg32_value two_disks i (0xFEC00128 + k * 0x80) = 0x103" "reg32_value two_disks i (0xFEC00124 + k * 0x80) = 0x101" for i
      unfolding two_disks_def hardware.select_convs r by simp_all
    then show ?thesis unfolding ahci_get_device_type_def read_volatile32_def a by (simp add: AHCI_SIG_SATA_def Let_def)
  qed
  obtain cap vs io5 where f: "fold (ahci_try_port two_disks 3) [0..<32]
      (g_ahci\<lparr>ahci_base := 0xFEC00000, ahci_cap := cap, ahci_version := vs, port_count := 0\<rparr>, m, io5) = (c, m', io')"
    using assms by (auto simp: ahci_init_def Let_def read_volatile32_def two_disks_def ahci_regs split: prod.splits simp del: upt_rec_numeral)
  have "\<forall>i < 32. (3 :: u32) AND push_bit i 1 \<noteq> 0 \<longrightarrow> dev_type (ports c ! i) = AHCI_DEV_SATA"
    using found_devices[of "g_ahci\<lparr>ahci_base := 0xFEC00000, ahci_cap := cap, ahci_version := vs, port_count := 0\<rparr>" 32 two_disks 3 m io5] ty f
    by (simp add: g_ahci_def)
  then show "0 \<in> has_device c" "Suc 0 \<in> has_device c" by (auto simp: has_device_def dest: spec[of _ 0] spec[of _ 1])
qed


text \<open>
  Command tables overlap. A port gets 8 KiB, but its 32 command tables of 256 bytes start 4 KiB into them: slots 16 to 19 of a port with a device have their table inside the 1024 bytes of
  the command list of the next port.
\<close>
theorem ahci_slots_overlap:
  assumes "ahci_init hw (g_ahci, m, io) = (r, c, m', io')" "n \<in> has_device c" "Suc n \<in> has_device c" "j < 4"
  shows "mem_u32 m' (cmd_list (ports c ! n) + 32 * (16 + j) + 8) = word_of_nat (cmd_list (ports c ! Suc n) + 256 * j) \<and> 256 * j + 256 \<le> 1024"
proof -
  have r: "port_ready (ports c ! n) n m'" "port_ready (ports c ! Suc n) (Suc n) m'"
    using ahci_init_scanned(1)[OF assms(1)] assms(2,3) by (auto simp: scanned_def)
  have "header_ok m' (cmd_list_addr n) (cmd_list_addr n + 4096) (16 + j)" using r(1) assms(4) by (auto simp: port_ready_def)
  moreover have "cmd_list_addr n + 4096 + (16 + j) * AHCI_CMD_TABLE_SIZE = cmd_list_addr (Suc n) + 256 * j"
    by (simp add: cmd_list_addr_def AHCI_CMD_TABLE_SIZE_def)
  ultimately show ?thesis using r assms(4) by (simp add: header_ok_def port_ready_def)
qed

theorem ahci_slots_overlap_witness:
  "\<exists>c m' io'. ahci_init two_disks (g_ahci, \<lambda>_. 0, []) = (0, c, m', io') \<and>
     mem_u32 m' (cmd_list (ports c ! 0) + 32 * 16 + 8) = word_of_nat (cmd_list (ports c ! 1))"
proof -
  obtain r c m' io' where i: "ahci_init two_disks (g_ahci, \<lambda>_. 0, []) = (r, c, m', io')" by (metis prod_cases4)
  have "r = 0" using ahci_init_scanned(2)[OF i] two_disks_devices[OF i] by auto
  then show ?thesis using ahci_slots_overlap[OF i two_disks_devices[OF i], of 0] i by auto
qed

text \<open>Stopping a port that runs does not clear its start bit: the second write is made from the first value.\<close>

lemma ahci_stop_keeps_start:
  assumes "ahci_stop_cmd_engine hw base io = (r, io')"
  shows "\<exists>es. io' = io @ [Read32 (base + AHCI_PORT_CMD) (reg32_value hw io (base + AHCI_PORT_CMD)),
      Write32 (base + AHCI_PORT_CMD) (reg32_value hw io (base + AHCI_PORT_CMD) AND NOT AHCI_PORT_CMD_ST),
      Write32 (base + AHCI_PORT_CMD) (reg32_value hw io (base + AHCI_PORT_CMD) AND NOT AHCI_PORT_CMD_FRE)] @ es \<and>
    (\<forall>e \<in> set es. \<exists>v. e = Read32 (base + AHCI_PORT_CMD) v) \<and> length es \<le> 500000"
proof -
  have w: "\<exists>es. snd (ahci_wait_idle n hw base io1) = io1 @ es \<and> (\<forall>e \<in> set es. \<exists>v. e = Read32 (base + AHCI_PORT_CMD) v) \<and> length es \<le> n" for n io1
  proof (induction n arbitrary: io1)
    case (Suc n)
    let ?v = "reg32_value hw io1 (base + AHCI_PORT_CMD)"
    obtain es where "snd (ahci_wait_idle n hw base (io1 @ [Read32 (base + AHCI_PORT_CMD) ?v])) = (io1 @ [Read32 (base + AHCI_PORT_CMD) ?v]) @ es"
      "\<forall>e \<in> set es. \<exists>v. e = Read32 (base + AHCI_PORT_CMD) v" "length es \<le> n" using Suc.IH by blast
    then show ?case
      by (cases "?v AND AHCI_PORT_CMD_FR = 0 \<and> ?v AND AHCI_PORT_CMD_CR = 0")
        (auto simp: read_volatile32_def Let_def intro: exI[of _ "Read32 (base + AHCI_PORT_CMD) ?v # es"])
  qed simp
  let ?v = "reg32_value hw io (base + AHCI_PORT_CMD)"
  let ?io = "io @ [Read32 (base + AHCI_PORT_CMD) ?v, Write32 (base + AHCI_PORT_CMD) (?v AND NOT AHCI_PORT_CMD_ST),
      Write32 (base + AHCI_PORT_CMD) (?v AND NOT AHCI_PORT_CMD_FRE)]"
  have "io' = snd (ahci_wait_idle 500000 hw base ?io)"
    using assms by (auto simp: ahci_stop_cmd_engine_def read_volatile32_def write_volatile32_def Let_def split_beta)
  then show ?thesis using w[of 500000 ?io] by auto
qed

text \<open>
  The search for NVMe. \<open>nvme_detect\<close> looks at all 65536 functions of the bus and succeeds exactly when one of them that exists has 1 and 8 in the second and first byte that the configuration
  space returns for register 9.
\<close>
theorem nvme_detect_finds:
  "nvme_detect pci = (if \<exists>bus < 256. \<exists>dev < 32. \<exists>func < 8. let a = pci_address bus dev func in
     pci a \<noteq> 0xFFFFFFFF \<and> pci a \<noteq> 0 \<and> (ucast (drop_bit 8 (pci (a OR 0x09))) :: u8) = 0x01 \<and> (ucast (pci (a OR 0x09)) :: u8) = 0x08 then 0 else - 1)"
  unfolding nvme_detect_def nvme_scan_iff Let_def by (rule if_cong) (auto simp: atLeast0LessThan)

end
