(* ===== verification/Cpp_Std.thy ===== *)
theory Cpp_Std
  imports Syscall
begin

text \<open>
  The run-time library of user programs (\<open>src/user/cpp_std.cpp\<close>): the bump allocator behind \<open>operator new\<close>, and the memory functions, on the bytes of the address space. What
  the system call \<open>mmap\<close> returns is an argument of the allocator; in this kernel it always fails. \<open>operator delete\<close> does nothing in all its forms.
\<close>

section \<open>Allocator\<close>

record cpp_heap =
  g_heap_start :: u64
  g_heap_current :: u64
  g_heap_end :: u64

definition cpp_heap_init :: cpp_heap where
  "cpp_heap_init = \<lparr>g_heap_start = 0x500000, g_heap_current = 0x500000, g_heap_end = 0x800000\<rparr>"

definition round16 :: "u64 \<Rightarrow> u64" where
  "round16 sz = (sz + 15) AND NOT 15"

text \<open>The test of the end, and the call that moves it.\<close>

definition heap_reserve :: "(u64 \<Rightarrow> u64 \<Rightarrow> int) \<Rightarrow> u64 \<Rightarrow> cpp_heap \<Rightarrow> cpp_heap option" where
  "heap_reserve mmap sz h =
     (if g_heap_current h + sz > g_heap_end h
      then (if mmap (g_heap_end h) sz \<ge> 0 then Some (h\<lparr>g_heap_end := g_heap_end h + sz\<rparr>) else None)
      else Some h)"

definition operator_new :: "(u64 \<Rightarrow> u64 \<Rightarrow> int) \<Rightarrow> u64 \<Rightarrow> cpp_heap \<times> pmem \<Rightarrow> u64 \<times> cpp_heap \<times> pmem" where
  "operator_new mmap sz = (\<lambda>(h, m).
     let sz1 = round16 (if sz = 0 then 1 else sz) in
     case heap_reserve mmap sz1 h of
       None \<Rightarrow> (0, h, m)
     | Some h1 \<Rightarrow> (g_heap_current h1, h1\<lparr>g_heap_current := g_heap_current h1 + sz1\<rparr>,
                   write_bytes m (unat (g_heap_current h1)) 0 (unat sz1)))"

definition operator_new_aligned :: "(u64 \<Rightarrow> u64 \<Rightarrow> int) \<Rightarrow> u64 \<Rightarrow> u64 \<Rightarrow> cpp_heap \<times> pmem \<Rightarrow> u64 \<times> cpp_heap \<times> pmem" where
  "operator_new_aligned mmap sz alignment = (\<lambda>(h, m).
     let sz1 = (if sz = 0 then 1 else sz);
         aligned = (g_heap_current h + alignment - 1) AND NOT (alignment - 1);
         padding = aligned - g_heap_current h;
         total_size = round16 (padding + sz1)
     in case heap_reserve mmap total_size h of
          None \<Rightarrow> (0, h, m)
        | Some h1 \<Rightarrow> (aligned, h1\<lparr>g_heap_current := g_heap_current h1 + total_size\<rparr>, write_bytes m (unat aligned) 0 (unat sz1)))"

definition operator_delete :: "u64 \<Rightarrow> cpp_heap \<times> pmem \<Rightarrow> cpp_heap \<times> pmem" where
  "operator_delete ptr st = st"

text \<open>A sequence of allocations, with the sizes that were asked for.\<close>

fun operator_news :: "(u64 \<Rightarrow> u64 \<Rightarrow> int) \<Rightarrow> u64 list \<Rightarrow> cpp_heap \<times> pmem \<Rightarrow> (u64 \<times> u64) list \<times> cpp_heap \<times> pmem" where
  "operator_news mmap [] st = ([], st)"
| "operator_news mmap (sz # szs) st =
     (let (p, st1) = operator_new mmap sz st; (ps, st2) = operator_news mmap szs st1 in ((p, sz) # ps, st2))"

section \<open>Memory functions\<close>

definition copy_byte :: "usize \<Rightarrow> usize \<Rightarrow> nat \<Rightarrow> pmem \<Rightarrow> pmem" where
  "copy_byte d s i m = m(d + i := m (s + i))"

definition memcpy :: "usize \<Rightarrow> usize \<Rightarrow> nat \<Rightarrow> pmem \<Rightarrow> pmem" where
  "memcpy d s n m = fold (copy_byte d s) [0..<n] m"

definition memmove :: "usize \<Rightarrow> usize \<Rightarrow> nat \<Rightarrow> pmem \<Rightarrow> pmem" where
  "memmove d s n m =
     (if d < s then fold (copy_byte d s) [0..<n] m
      else if d > s then fold (copy_byte d s) (rev [0..<n]) m
      else m)"

definition memset :: "usize \<Rightarrow> int \<Rightarrow> nat \<Rightarrow> pmem \<Rightarrow> pmem" where
  "memset s c n m = fold (\<lambda>i m. m(s + i := word_of_int c)) [0..<n] m"

fun memcmp_from :: "nat list \<Rightarrow> usize \<Rightarrow> usize \<Rightarrow> pmem \<Rightarrow> int" where
  "memcmp_from [] a b m = 0"
| "memcmp_from (i # is) a b m =
     (if m (a + i) \<noteq> m (b + i) then uint (m (a + i)) - uint (m (b + i)) else memcmp_from is a b m)"

definition memcmp :: "usize \<Rightarrow> usize \<Rightarrow> nat \<Rightarrow> pmem \<Rightarrow> int" where
  "memcmp a b n m = memcmp_from [0..<n] a b m"

partial_function (option) strlen_from :: "pmem \<Rightarrow> usize \<Rightarrow> nat \<Rightarrow> nat option" where
  "strlen_from m s len = (if m (s + len) \<noteq> 0 then strlen_from m s (len + 1) else Some len)"

definition strlen :: "pmem \<Rightarrow> usize \<Rightarrow> nat option" where
  "strlen m s = strlen_from m s 0"

section \<open>Copying\<close>

definition copied :: "usize \<Rightarrow> usize \<Rightarrow> nat \<Rightarrow> pmem \<Rightarrow> pmem" where
  "copied d s n m = (\<lambda>x. if d \<le> x \<and> x < d + n then m (s + (x - d)) else m x)"

lemma copy_forward: "d \<le> s \<or> s + n \<le> d \<Longrightarrow> fold (copy_byte d s) [0..<n] m = copied d s n m"
proof (induction n)
  case (Suc n)
  then have "fold (copy_byte d s) [0..<n] m = copied d s n m" by auto
  moreover have "copy_byte d s n (copied d s n m) = copied d s (Suc n) m"
    using Suc.prems by (auto simp: fun_eq_iff copied_def copy_byte_def)
  ultimately show ?case by simp
qed (auto simp: fun_eq_iff copied_def)

lemma copy_backward: "s \<le> d \<Longrightarrow> fold (copy_byte d s) (rev [0..<n]) m = copied d s n m"
proof (induction n arbitrary: m)
  case (Suc n)
  then have "fold (copy_byte d s) (rev [0..<Suc n]) m = copied d s n (copy_byte d s n m)" by simp
  also have "\<dots> = copied d s (Suc n) m" using Suc.prems by (auto simp: fun_eq_iff copied_def copy_byte_def)
  finally show ?case .
qed (auto simp: fun_eq_iff copied_def)

lemma memset_fills: "memset s c n m = write_bytes m s (word_of_int c) n"
proof -
  have "fold (\<lambda>i m. m(s + i := word_of_int c)) [0..<n] m = (\<lambda>x. if s \<le> x \<and> x < s + n then word_of_int c else m x)"
    by (induction n) (auto simp: fun_eq_iff)
  then show ?thesis by (simp add: memset_def write_bytes_def fun_eq_iff)
qed

lemma memcmp_zero: "memcmp a b n m = 0 \<longleftrightarrow> (\<forall>i < n. m (a + i) = m (b + i))"
proof -
  have "memcmp_from is a b m = 0 \<longleftrightarrow> (\<forall>i \<in> set is. m (a + i) = m (b + i))" for "is"
    by (induction "is") (auto simp: word_uint_eq_iff)
  then show ?thesis by (auto simp: memcmp_def)
qed

lemma strlen_finds: "(\<forall>i < n. m (s + i) \<noteq> 0) \<Longrightarrow> m (s + n) = 0 \<Longrightarrow> strlen m s = Some n"
proof -
  have "strlen_from m s k = Some n" if "k \<le> n" "\<forall>i < n. m (s + i) \<noteq> 0" "m (s + n) = 0" for k
    using that by (induction "n - k" arbitrary: k) (subst strlen_from.simps, simp)+
  then show "(\<forall>i < n. m (s + i) \<noteq> 0) \<Longrightarrow> m (s + n) = 0 \<Longrightarrow> strlen m s = Some n" by (simp add: strlen_def)
qed

section \<open>Blocks\<close>

lemma round16_unat:
  assumes "unat sz + 15 < 2 ^ 64"
  shows "unat (round16 sz) = (unat sz + 15) div 16 * 16"
proof -
  have "unat (sz + 15) = unat sz + 15" using assms by (simp add: unat_word_ariths)
  moreover have "(w :: u64) AND NOT 15 = push_bit 4 (drop_bit 4 w)" for w
  proof -
    have "(15 :: u64) = mask 4" by (simp add: mask_eq_exp_minus_1)
    then show ?thesis by (auto simp: bit_eq_iff bit_simps)
  qed
  moreover have "unat (push_bit 4 (drop_bit 4 w)) = unat w div 16 * 16" for w :: u64
  proof -
    have "push_bit 4 (drop_bit 4 w) = (w div 16) * 16" by (simp add: push_bit_eq_mult drop_bit_eq_div)
    moreover have "unat w < 2 ^ 64" using unsigned_less[of w, where 'a = nat] by simp
    then have "unat w div 16 < 2 ^ 64" "unat w div 16 * 16 < 2 ^ 64" by auto
    ultimately show ?thesis by (simp add: unat_word_ariths)
  qed
  ultimately show ?thesis by (simp add: round16_def)
qed

definition cpp_heap_ok :: "cpp_heap \<Rightarrow> bool" where
  "cpp_heap_ok h \<longleftrightarrow> 0x500000 \<le> unat (g_heap_current h) \<and> unat (g_heap_current h) \<le> 0x800000 \<and> g_heap_end h = 0x800000 \<and> unat (g_heap_current h) mod 16 = 0"

lemma operator_new_cases:
  assumes "cpp_heap_ok h" "\<And>a n. mmap a n < 0" "unat sz < 2 ^ 62" "operator_new mmap sz (h, m) = (p, h', m')"
  shows "cpp_heap_ok h' \<and> unat (g_heap_current h) \<le> unat (g_heap_current h') \<and>
    (p \<noteq> 0 \<longrightarrow> p = g_heap_current h \<and> unat p + unat sz \<le> unat (g_heap_current h') \<and> (\<forall>x. unat p \<le> x \<and> x < unat p + unat sz \<longrightarrow> m' x = 0)) \<and>
    (p = 0 \<longleftrightarrow> 0x800000 < unat (g_heap_current h) + (max 1 (unat sz) + 15) div 16 * 16)"
proof -
  define n where "n = round16 (if sz = 0 then 1 else sz)"
  define s where "s = max 1 (unat sz)"
  have s: "unat (if sz = 0 then 1 else sz) = s" using unat_gt_0[of sz] by (auto simp: s_def)
  have n: "unat n = (s + 15) div 16 * 16" "s < 2 ^ 62"
    using assms(3) round16_unat[of "if sz = 0 then 1 else sz"] by (simp_all add: n_def s s_def)
  note ok = assms(1)[unfolded cpp_heap_ok_def]
  have sum: "unat (g_heap_current h + n) = unat (g_heap_current h) + unat n" 
  proof -
    have "unat n \<le> s + 15" unfolding n(1) by (rule div_times_less_eq_dividend)
    then show ?thesis using ok n(2) by (simp add: unat_word_ariths)
  qed
  have lim: "g_heap_current h + n > g_heap_end h \<longleftrightarrow> 0x800000 < unat (g_heap_current h) + unat n" using ok sum by (simp add: word_less_nat_alt)
  have "s \<le> unat n" using n(1) by presburger
  show ?thesis
  proof (cases "g_heap_current h + n > g_heap_end h")
    case True
    then have "(p, h', m') = (0, h, m)" using assms(2)[of "g_heap_end h" n] assms(4) by (simp add: operator_new_def heap_reserve_def n_def[symmetric] Let_def not_le)
    then show ?thesis using True lim n(1) assms(1) by (simp add: s_def)
  next
    case False
    then have r: "p = g_heap_current h" "h' = h\<lparr>g_heap_current := g_heap_current h + n\<rparr>" "m' = write_bytes m (unat (g_heap_current h)) 0 (unat n)"
      using assms(4) by (auto simp: operator_new_def heap_reserve_def n_def[symmetric] Let_def)
    have "p \<noteq> 0" using ok r(1) by auto
    moreover have "(unat (g_heap_current h) + unat n) mod 16 = 0" using ok n(1) by presburger
    ultimately show ?thesis using False lim sum ok r n(1) \<open>s \<le> unat n\<close> by (auto simp: cpp_heap_ok_def s_def write_bytes_def)
  qed
qed

section \<open>Properties\<close>

text \<open>
  C35. \<open>memmove\<close> copies. However source and destination overlap, the destination holds the bytes that the source held, and nothing else changes.
\<close>
theorem memmove_copies: "memmove d s n m x = (if d \<le> x \<and> x < d + n then m (s + (x - d)) else m x)"
proof -
  have "memmove d s n m = copied d s n m"
    by (cases "d < s"; cases "d = s") (auto simp: memmove_def copy_forward copy_backward copied_def fun_eq_iff)
  then show ?thesis by (simp add: copied_def)
qed



end
