(* ===== verification/User_Programs.thy ===== *)
theory User_Programs
  imports Syscall "HOL-Library.Monad_Syntax"
begin

text \<open>
  The user programs (\<open>src/user/shell.cpp\<close> and \<open>src/user/init.cpp\<close>). A program is a function on the list of system calls it has made; the texts that pointers point to are strings
  without a zero byte. What a call returns, and what it leaves in the caller's buffer, are parameters, functions of the calls made so far; the answers this kernel gives are in \<open>Syscall\<close>. A
  program that loops for ever has no result. The pointers of a token list into the ln, and the zeros written between the tokens, are the tokens themselves.
\<close>

section \<open>Calls\<close>

datatype user_call =
    CRead int nat
  | COpen string u64
  | CClose int
  | CMkdir string nat
  | CGetdents int nat
  | CMount string string string
  | CExit int
  | CGetpid
  | CPrint string
  | CReadline nat

fun call_nr :: "user_call \<Rightarrow> u64" where
  "call_nr (CRead _ _) = 0"
| "call_nr (COpen _ _) = 2"
| "call_nr (CClose _) = 3"
| "call_nr (CMkdir _ _) = 6"
| "call_nr (CGetdents _ _) = 8"
| "call_nr (CMount _ _ _) = 10"
| "call_nr (CExit _) = 21"
| "call_nr CGetpid = 23"
| "call_nr (CPrint _) = 100"
| "call_nr (CReadline _) = 101"

record user_kernel =
  answer :: "user_call list \<Rightarrow> user_call \<Rightarrow> int"
  left_in_buffer :: "user_call list \<Rightarrow> string"

record user_state =
  calls :: "user_call list"
  g_cwd :: string
  g_running :: bool

definition user_statics :: user_state where
  "user_statics = \<lparr>calls = [], g_cwd = ''/'', g_running = True\<rparr>"

definition user_syscall :: "user_kernel \<Rightarrow> user_call \<Rightarrow> user_state \<Rightarrow> int \<times> user_state" where
  "user_syscall K c s = (answer K (calls s) c, s\<lparr>calls := calls s @ [c]\<rparr>)"

definition user_do :: "user_kernel \<Rightarrow> user_call \<Rightarrow> user_state \<Rightarrow> user_state" where
  "user_do K c s = snd (user_syscall K c s)"

definition user_print :: "user_kernel \<Rightarrow> string \<Rightarrow> user_state \<Rightarrow> user_state" where
  "user_print K str = user_do K (CPrint str)"

definition user_println :: "user_kernel \<Rightarrow> string \<Rightarrow> user_state \<Rightarrow> user_state" where
  "user_println K str s = user_do K (CPrint [CHR 0x0A]) (user_print K str s)"

section \<open>Strings\<close>

definition char_val :: "char \<Rightarrow> int" where
  "char_val c = (let n = of_char c in if n \<ge> 128 then n - 256 else n)"

fun strcmp :: "string \<Rightarrow> string \<Rightarrow> int" where
  "strcmp (a # as) (b # bs) = (if a = b then strcmp as bs else char_val a - char_val b)"
| "strcmp as [] = (case as of [] \<Rightarrow> 0 | a # _ \<Rightarrow> char_val a)"
| "strcmp [] (b # bs) = - char_val b"

definition is_blank :: "char \<Rightarrow> bool" where
  "is_blank c \<longleftrightarrow> c = CHR '' '' \<or> c = CHR 0x09"

primrec tokenize_from :: "nat \<Rightarrow> string \<Rightarrow> string list" where
  "tokenize_from 0 ln = []"
| "tokenize_from (Suc room) ln =
     (if ln = [] then []
      else takeWhile (\<lambda>c. \<not> is_blank c) ln # tokenize_from room (dropWhile is_blank (dropWhile (\<lambda>c. \<not> is_blank c) ln)))"

definition tokenize :: "string \<Rightarrow> string list" where
  "tokenize ln = tokenize_from 16 (dropWhile is_blank ln)"

section \<open>Numbers\<close>

text \<open>
  The decimal digits of a process identifier, written from position 14 of a buffer of 16 bytes towards the front; \<open>k\<close> is the position plus one. Then the two ways in which the programs
  move them to the front.
\<close>

primrec pid_digits :: "nat \<Rightarrow> nat \<Rightarrow> char list \<Rightarrow> nat \<times> char list" where
  "pid_digits 0 p buf = (0, buf)"
| "pid_digits (Suc k) p buf = (if p > 0 then pid_digits k (p div 10) (buf[k := char_of (48 + p mod 10)]) else (Suc k, buf))"

definition pid_text :: "nat \<Rightarrow> nat \<Rightarrow> string" where
  "pid_text extra pid =
     takeWhile (\<lambda>c. c \<noteq> CHR 0x00)
       (if pid = 0 then (replicate 16 (CHR 0x00))[0 := CHR ''0'']
        else let (shift, buf) = pid_digits 15 pid (replicate 16 (CHR 0x00))
             in fold (\<lambda>j b. b[j := b ! (j + shift), j + shift + extra := CHR 0x00]) [0..<14 - shift] buf)"

section \<open>Commands of the shell\<close>

definition user_cmd_ls :: "user_kernel \<Rightarrow> string list \<Rightarrow> user_state \<Rightarrow> user_state" where
  "user_cmd_ls K args s =
     (let path = (if length args \<ge> 2 then args ! 1 else g_cwd s);
          (fd, s1) = user_syscall K (COpen path 0) s
      in if fd < 0 then user_println K [CHR 0x27] (user_print K path (user_print K (''ls: cannot open '' @ [CHR 0x27]) s1))
         else let (bytes, s2) = user_syscall K (CGetdents fd 4096) s1;
                  s3 = user_println K
                         (if bytes > 0 then ''  (directory listing not yet implemented)''
                          else if bytes = 0 then ''  (empty directory)'' else ''ls: error reading directory'') s2
              in user_do K (CClose fd) s3)"

partial_function (option) cat_loop :: "user_kernel \<Rightarrow> int \<Rightarrow> user_state \<Rightarrow> user_state option" where
  "cat_loop K fd s =
     (let (bytes, s1) = user_syscall K (CRead fd 512) s
      in if bytes \<le> 0 then Some s1
         else cat_loop K fd (user_print K (take (nat bytes) (left_in_buffer K (calls s1))) s1))"

definition user_cmd_cat :: "user_kernel \<Rightarrow> string list \<Rightarrow> user_state \<Rightarrow> user_state option" where
  "user_cmd_cat K args s =
     (if length args < 2 then Some (user_println K ''cat: missing file operand'' s)
      else let path = args ! 1; (fd, s1) = user_syscall K (COpen path 0) s
           in if fd < 0 then Some (user_println K '': No such file'' (user_print K path (user_print K ''cat: '' s1)))
              else map_option (user_do K (CClose fd)) (cat_loop K fd s1))"

definition user_cmd_cd :: "string list \<Rightarrow> user_state \<Rightarrow> user_state" where
  "user_cmd_cd args s =
     (if length args < 2 then s\<lparr>g_cwd := ''/''\<rparr>
      else let path = args ! 1 in
        if path \<noteq> [] \<and> path ! 0 = CHR ''/''
        then (if length path < 512 then s\<lparr>g_cwd := path\<rparr> else s)
        else if length (g_cwd s) + length path + 2 < 512
        then s\<lparr>g_cwd := (if strcmp (g_cwd s) ''/'' \<noteq> 0 then g_cwd s @ ''/'' else g_cwd s) @ path\<rparr>
        else s)"

definition user_cmd_mkdir :: "user_kernel \<Rightarrow> string list \<Rightarrow> user_state \<Rightarrow> user_state" where
  "user_cmd_mkdir K args s =
     (if length args < 2 then user_println K ''mkdir: missing operand'' s
      else let (result, s1) = user_syscall K (CMkdir (args ! 1) 493) s
           in if result < 0
              then user_println K [CHR 0x27] (user_print K (args ! 1) (user_print K (''mkdir: cannot create '' @ [CHR 0x27]) s1)) else s1)"

definition user_cmd_mount :: "user_kernel \<Rightarrow> string list \<Rightarrow> user_state \<Rightarrow> user_state" where
  "user_cmd_mount K args s =
     (if length args < 4 then user_println K ''mount: usage: mount <device> <path> <fstype>'' s
      else let (result, s1) = user_syscall K (CMount (args ! 1) (args ! 2) (args ! 3)) s
           in if result < 0 then user_println K ''mount: failed'' s1
              else user_println K (args ! 2) (user_print K '' mounted at '' (user_print K (args ! 1) (user_print K ''mount: '' s1))))"

definition user_lines :: "user_kernel \<Rightarrow> string list \<Rightarrow> user_state \<Rightarrow> user_state" where
  "user_lines K ls = fold (user_println K) ls"

definition user_cmd_sysinfo :: "user_kernel \<Rightarrow> user_state \<Rightarrow> user_state" where
  "user_cmd_sysinfo K s =
     (let s1 = user_lines K [''DeltaOS v0.1.0'', ''Kernel: Rust #![no_std] x86_64'', ''Filesystem: NTFS (delta_ntfs)'',
                 ''Scheduler: Round-Robin with priorities'', ''Memory: PMM (bitmap) + VMM (4-level paging)'',
                 ''Drivers: AHCI, NVMe, PS/2 Keyboard (C)'', ''Shell: C++17 freestanding''] s;
          (pid, s2) = user_syscall K CGetpid s1
      in user_println K (pid_text 1 (nat pid)) (user_print K ''Current PID: '' s2))"

text \<open>The dash in the first line is three bytes in UTF-8.\<close>

definition user_cmd_help :: "user_kernel \<Rightarrow> user_state \<Rightarrow> user_state" where
  "user_cmd_help K =
     user_lines K [''DeltaOS Shell '' @ [CHR 0xE2, CHR 0x80, CHR 0x94] @ '' Available commands:'', ''  ls [path]        - List directory contents'',
       ''  cat <file>       - Display file contents'', ''  cd <path>        - Change directory'',
       ''  pwd              - Print working directory'', ''  mkdir <dir>      - Create directory'',
       ''  mount <dev> <path> <fstype> - Mount filesystem'', ''  sysinfo          - Show system information'',
       ''  help             - Show this help'', ''  exit             - Exit shell'']"

definition user_cmd_exit :: "user_kernel \<Rightarrow> user_state \<Rightarrow> user_state" where
  "user_cmd_exit K s = (user_println K ''Goodbye!'' s)\<lparr>g_running := False\<rparr>"

definition user_execute_command :: "user_kernel \<Rightarrow> string list \<Rightarrow> user_state \<Rightarrow> user_state option" where
  "user_execute_command K args s =
     (case args of
        [] \<Rightarrow> Some s
      | cmd # _ \<Rightarrow>
          if strcmp cmd ''ls'' = 0 then Some (user_cmd_ls K args s)
          else if strcmp cmd ''cat'' = 0 then user_cmd_cat K args s
          else if strcmp cmd ''cd'' = 0 then Some (user_cmd_cd args s)
          else if strcmp cmd ''pwd'' = 0 then Some (user_println K (g_cwd s) s)
          else if strcmp cmd ''mkdir'' = 0 then Some (user_cmd_mkdir K args s)
          else if strcmp cmd ''mount'' = 0 then Some (user_cmd_mount K args s)
          else if strcmp cmd ''sysinfo'' = 0 then Some (user_cmd_sysinfo K s)
          else if strcmp cmd ''help'' = 0 then Some (user_cmd_help K s)
          else if strcmp cmd ''exit'' = 0 then Some (user_cmd_exit K s)
          else Some (user_println K cmd (user_print K ''shell: unknown command: '' s)))"

section \<open>Main loops\<close>

definition show_prompt :: "user_kernel \<Rightarrow> user_state \<Rightarrow> user_state" where
  "show_prompt K s = user_print K ''$ '' (user_print K (g_cwd s) (user_print K ''deltaos:'' s))"

definition read_line :: "user_kernel \<Rightarrow> nat \<Rightarrow> user_state \<Rightarrow> string \<times> user_state" where
  "read_line K max_len s =
     (let (bytes, s1) = user_syscall K (CReadline max_len) s
      in if bytes < 0 then ([], s1)
         else let buffer = left_in_buffer K (calls s1)
              in (if buffer \<noteq> [] \<and> last buffer = CHR 0x0A then butlast buffer else buffer, s1))"

definition shell_turn :: "user_kernel \<Rightarrow> user_state \<Rightarrow> user_state option" where
  "shell_turn K s = (let (ln, s1) = read_line K 1024 (show_prompt K s) in user_execute_command K (tokenize ln) s1)"

partial_function (option) shell_loop :: "user_kernel \<Rightarrow> user_state \<Rightarrow> user_state option" where
  "shell_loop K s = (if g_running s then Option.bind (shell_turn K s) (shell_loop K) else Some s)"

definition shell_main :: "user_kernel \<Rightarrow> user_state \<Rightarrow> user_state option" where
  "shell_main K s =
     shell_loop K (user_lines K [[], ''DeltaOS Shell v0.1.0'', ''Type '' @ [CHR 0x27] @ ''help'' @ [CHR 0x27] @ '' for available commands.'', []] s)"

section \<open>The first program\<close>

definition init_mounts :: "user_kernel \<Rightarrow> user_state \<Rightarrow> user_state" where
  "init_mounts K s =
     (let (r, s1) = user_syscall K (CMount ''/dev/sda1'' ''/'' ''ntfs'') (user_println K ''[init] Mounting NTFS root filesystem...'' s)
      in if r < 0 then user_do K (CMount ''none'' ''/'' ''ramfs'') (user_println K ''[init] WARNING: NTFS mount failed, using ramfs'' s1)
         else user_println K ''[init] NTFS mounted at /'' s1)"

definition init_directories :: "user_kernel \<Rightarrow> user_state \<Rightarrow> user_state" where
  "init_directories K s =
     (let s1 = user_println K ''[init] Creating base directories...'' s;
          s2 = fold (\<lambda>(d, mode). user_do K (CMkdir d mode))
                 [(''/dev'', 493), (''/tmp'', 511), (''/proc'', 365), (''/mnt'', 493), (''/etc'', 493), (''/home'', 493)] s1;
          s3 = user_println K ''[init] Base directories created'' s2
      in user_println K ''[init] Virtual filesystems mounted''
           (user_do K (CMount ''none'' ''/proc'' ''procfs'') (user_do K (CMount ''none'' ''/dev'' ''devfs'') s3)))"

partial_function (option) init_respawn :: "user_kernel \<Rightarrow> user_state \<Rightarrow> user_state option" where
  "init_respawn K s = Option.bind (shell_main K s) (\<lambda>s1. init_respawn K (user_println K ''[init] Shell crashed, respawning...'' s1))"

definition init_main :: "user_kernel \<Rightarrow> user_state \<Rightarrow> user_state option" where
  "init_main K s =
     (let s1 = user_lines K [''=========================================='', ''  DeltaOS Init v0.1.0'', ''  First userspace process'',
                 ''=========================================='', []] s;
          (pid, s2) = user_syscall K CGetpid (user_print K ''[init] PID: '' s1);
          s3 = user_println K (pid_text 0 (unat (word_of_int pid :: u64))) s2;
          s4 = user_println K ''[init] Starting shell...'' (init_directories K (init_mounts K s3))
      in Option.bind (shell_main K s4) (\<lambda>s5. init_respawn K (user_println K ''[init] Shell exited, restarting...'' s5)))"

section \<open>What the calls leave alone\<close>

definition keeps :: "user_state \<Rightarrow> user_state \<Rightarrow> bool" where
  "keeps s s' \<longleftrightarrow> g_cwd s' = g_cwd s \<and> g_running s' = g_running s \<and> (\<exists>cs. calls s' = calls s @ cs)"

named_theorems keeps_rules \<open>steps that only make calls\<close>

lemma keeps_refl [keeps_rules]: "keeps s s"
  by (simp add: keeps_def)

lemma keeps_trans: "keeps a b \<Longrightarrow> keeps b c \<Longrightarrow> keeps a c"
  by (auto simp: keeps_def)

lemma keeps_syscall: "keeps s s1 \<Longrightarrow> user_syscall K c s1 = (r, s2) \<Longrightarrow> keeps s s2"
  by (auto simp: keeps_def user_syscall_def)

lemma keeps_do [keeps_rules]: "keeps s s1 \<Longrightarrow> keeps s (user_do K c s1)"
  by (auto simp: keeps_def user_do_def user_syscall_def)

lemma keeps_print [keeps_rules]: "keeps s s1 \<Longrightarrow> keeps s (user_print K l s1)" "keeps s s1 \<Longrightarrow> keeps s (user_println K l s1)"
  unfolding user_println_def user_print_def by (intro keeps_do; assumption)+

lemma keeps_lines [keeps_rules]: "keeps s s1 \<Longrightarrow> keeps s (user_lines K ls s1)"
  unfolding user_lines_def by (induction ls arbitrary: s1) (auto intro: keeps_rules)

lemma keeps_cat:
  assumes "cat_loop K fd s1 = Some s2" "keeps s s1"
  shows "keeps s s2"
proof -
  have "keeps s s1 \<longrightarrow> keeps s s2"
  proof (rule cat_loop.raw_induct[OF _ assms(1)])
    fix f K fd s1 s2
    assume IH: "\<And>K fd s1 s2. f K fd s1 = Some s2 \<Longrightarrow> keeps s s1 \<longrightarrow> keeps s s2"
      and r: "(let (bytes, s1) = user_syscall K (CRead fd 512) s1
        in if bytes \<le> 0 then Some s1 else f K fd (user_print K (take (nat bytes) (left_in_buffer K (calls s1))) s1)) = Some s2"
    obtain n t where t: "user_syscall K (CRead fd 512) s1 = (n, t)" by fastforce
    show "keeps s s1 \<longrightarrow> keeps s s2"
    proof
      assume "keeps s s1"
      then have "keeps s t" using t by (rule keeps_syscall)
      then show "keeps s s2" using r t IH keeps_print(1) by (auto split: if_splits)
    qed
  qed
  then show ?thesis using assms(2) by simp
qed

lemma keeps_commands:
  "keeps s (user_cmd_ls K args s)" "keeps s (user_cmd_mkdir K args s)" "keeps s (user_cmd_mount K args s)" "keeps s (user_cmd_sysinfo K s)"
  "keeps s (user_cmd_help K s)" "user_cmd_cat K args s = Some s' \<Longrightarrow> keeps s s'"
  unfolding user_cmd_ls_def user_cmd_mkdir_def user_cmd_mount_def user_cmd_sysinfo_def user_cmd_help_def user_cmd_cat_def Let_def
  by (auto intro!: keeps_rules intro: keeps_syscall[OF keeps_refl] keeps_syscall keeps_cat split: prod.splits if_splits)

definition cwd_ok :: "user_state \<Rightarrow> bool" where
  "cwd_ok s \<longleftrightarrow> length (g_cwd s) < 512 \<and> g_cwd s \<noteq> [] \<and> hd (g_cwd s) = CHR ''/''"

lemma keeps_cwd: "keeps s s' \<Longrightarrow> cwd_ok s \<Longrightarrow> cwd_ok s'"
  by (simp add: keeps_def cwd_ok_def)

lemma user_cmd_cd_ok: "cwd_ok s \<Longrightarrow> cwd_ok (user_cmd_cd args s)"
  by (auto simp: cwd_ok_def user_cmd_cd_def Let_def hd_conv_nth nth_append)

lemma user_execute_cwd:
  assumes "user_execute_command K args s = Some s'" "cwd_ok s"
  shows "cwd_ok s'"
proof (cases args)
  case (Cons cmd as)
  have k: "cwd_ok t" if "keeps s t" for t using that assms(2) by (rule keeps_cwd)
  have "cwd_ok (user_cmd_exit K s)" using k[OF keeps_print(2)[OF keeps_refl, of s K "''Goodbye!''"]] by (simp add: user_cmd_exit_def cwd_ok_def)
  then show ?thesis
    using assms(1) Cons k keeps_commands user_cmd_cd_ok[OF assms(2)] keeps_print[OF keeps_refl] keeps_print(2)[OF keeps_print(1)[OF keeps_refl]]
    by (auto simp: user_execute_command_def split: if_splits)
qed (use assms in \<open>simp add: user_execute_command_def\<close>)

lemma keeps_read_line: "read_line K n s1 = (ln, s2) \<Longrightarrow> keeps s s1 \<Longrightarrow> keeps s s2"
  by (auto simp: read_line_def Let_def intro: keeps_syscall split: prod.splits if_splits)

lemma keeps_prompt: "keeps s (show_prompt K s)"
  unfolding show_prompt_def by (intro keeps_rules)

section \<open>Tokens\<close>

lemma tokenize_from_words:
  "set (tokenize_from n (dropWhile is_blank ln)) \<subseteq> {w. w \<noteq> [] \<and> (\<forall>c \<in> set w. \<not> is_blank c)} \<and> length (tokenize_from n (dropWhile is_blank ln)) \<le> n"
proof (induction n arbitrary: ln)
  case (Suc n)
  show ?case
  proof (cases "dropWhile is_blank ln")
    case (Cons c cs)
    then have "\<not> is_blank c" by (metis hd_dropWhile list.distinct(1) list.sel(1))
    then show ?thesis using Suc.IH[of "dropWhile (\<lambda>c. \<not> is_blank c) (c # cs)"] Cons by (auto dest: set_takeWhileD)
  qed simp
qed simp

text \<open>The reference: the words between blanks, without the empty ones.\<close>

fun split_blank :: "string \<Rightarrow> string list" where
  "split_blank [] = [[]]"
| "split_blank (c # cs) = (if is_blank c then [] # split_blank cs else (c # hd (split_blank cs)) # tl (split_blank cs))"

definition blank_words :: "string \<Rightarrow> string list" where
  "blank_words ln = filter (\<lambda>w. w \<noteq> []) (split_blank ln)"

lemma split_blank_takeWhile:
  "split_blank ln = takeWhile (\<lambda>c. \<not> is_blank c) ln # tl (split_blank ln)"
  "tl (split_blank ln) = (case dropWhile (\<lambda>c. \<not> is_blank c) ln of [] \<Rightarrow> [] | _ # cs \<Rightarrow> split_blank cs)"
  by (induction ln) auto

lemma blank_words_dropWhile: "blank_words (dropWhile is_blank ln) = blank_words ln"
  by (induction ln) (auto simp: blank_words_def)

lemma tokenize_from_reference: "tokenize_from n (dropWhile is_blank ln) = take n (blank_words ln)"
proof (induction n arbitrary: ln)
  case (Suc n)
  show ?case
  proof (cases "dropWhile is_blank ln")
    case Nil
    have "blank_words ln = []" using blank_words_dropWhile[of ln] unfolding Nil by (simp add: blank_words_def)
    then show ?thesis unfolding Nil by simp
  next
    case (Cons c cs)
    let ?l = "c # cs" and ?r = "dropWhile (\<lambda>c. \<not> is_blank c) (c # cs)"
    have c: "\<not> is_blank c" using Cons by (metis hd_dropWhile list.distinct(1) list.sel(1))
    have "blank_words ln = blank_words ?l" using blank_words_dropWhile[of ln] Cons by simp
    also have "\<dots> = takeWhile (\<lambda>c. \<not> is_blank c) ?l # filter (\<lambda>w. w \<noteq> []) (tl (split_blank ?l))"
      unfolding blank_words_def by (subst split_blank_takeWhile(1)) (simp add: c del: split_blank.simps)
    also have "filter (\<lambda>w. w \<noteq> []) (tl (split_blank ?l)) = blank_words ?r"
    proof (cases ?r)
      case Nil
      then show ?thesis unfolding split_blank_takeWhile(2) Nil by (simp add: blank_words_def)
    next
      case (Cons d ds)
      have "is_blank d" using Cons by (metis (no_types, lifting) hd_dropWhile list.distinct(1) list.sel(1))
      then show ?thesis unfolding split_blank_takeWhile(2) Cons by (simp add: blank_words_def)
    qed
    finally show ?thesis using Suc.IH[of ?r] Cons by simp
  qed
qed simp

lemma tokenize_reference: "tokenize ln = take 16 (blank_words ln)"
  unfolding tokenize_def by (rule tokenize_from_reference)

section \<open>Process identifiers\<close>

text \<open>
  Both programs move one digit too few to the front, and the shell clears the next digit before it moves it: in this kernel, where the identifier is always 1, nothing is printed; of
  1234 the first program shows 123 and the shell 1.
\<close>

lemma pid_text_loses_digits:
  "pid_text 0 1 = []" "pid_text 1 1 = []" "pid_text 0 1234 = ''123''" "pid_text 1 1234 = ''1''"
  by code_simp+

section \<open>Properties\<close>

text \<open>
  C28. The working directory stays in its buffer. Whatever lines the user types, however long, and whatever the kernel answers, the working directory of the shell is
  never empty, begins with a slash and fits, with its end mark, into the 512 bytes reserved for it.
\<close>
theorem user_cwd_bounded:
  assumes "(\<lambda>s t. shell_turn K s = Some t)\<^sup>*\<^sup>* user_statics s"
  shows "length (g_cwd s) + 1 \<le> 512 \<and> g_cwd s \<noteq> [] \<and> hd (g_cwd s) = CHR ''/''"
proof -
  have "cwd_ok s" using assms
  proof (induction rule: rtranclp_induct)
    case base
    show ?case by (simp add: cwd_ok_def user_statics_def)
  next
    case (step s t)
    obtain ln s1 where r: "read_line K 1024 (show_prompt K s) = (ln, s1)" by fastforce
    have "cwd_ok s1" using keeps_cwd[OF keeps_read_line[OF r keeps_prompt]] step.IH by simp
    then show ?case using user_execute_cwd step.hyps(2) r by (simp add: shell_turn_def)
  qed
  then show ?thesis by (auto simp: cwd_ok_def)
qed

text \<open>A kernel whose keyboard delivers one line after the other.\<close>

definition typing :: "string list \<Rightarrow> user_kernel" where
  "typing ls = \<lparr>answer = (\<lambda>_ _. 0), left_in_buffer = (\<lambda>cs. ls ! (length (filter (\<lambda>c. \<exists>n. c = CReadline n) cs) - 1))\<rparr>"

theorem user_cwd_bounded_witness:
  "\<exists>s. shell_turn (typing [''cd home'']) user_statics = Some s \<and> g_cwd s = ''/home'' \<and> length (g_cwd s) + 1 \<le> 512"
proof -
  obtain s where s: "shell_turn (typing [''cd home'']) user_statics = Some s" "g_cwd s = ''/home''"
    by (simp add: shell_turn_def read_line_def show_prompt_def user_print_def user_do_def user_syscall_def user_statics_def typing_def tokenize_def
        is_blank_def numeral_eq_Suc user_execute_command_def user_cmd_cd_def char_val_def Let_def)
  then have "(\<lambda>s t. shell_turn (typing [''cd home'']) s = Some t)\<^sup>*\<^sup>* user_statics s" by blast
  from user_cwd_bounded[OF this] s show ?thesis by blast
qed

text \<open>With a kernel that delivers lines, the shell ends when it is told to.\<close>

lemma shell_turn_exit:
  assumes "answer K (calls (show_prompt K s)) (CReadline 1024) \<ge> 0"
    "left_in_buffer K (calls (show_prompt K s) @ [CReadline 1024]) = ''exit'' @ [CHR 0x0A]"
  shows "\<exists>s'. shell_turn K s = Some s' \<and> \<not> g_running s' \<and> shell_loop K s' = Some s'"
proof -
  let ?s = "(show_prompt K s)\<lparr>calls := calls (show_prompt K s) @ [CReadline 1024]\<rparr>"
  have "read_line K 1024 (show_prompt K s) = (''exit'', ?s)" using assms by (simp add: read_line_def user_syscall_def)
  moreover have "tokenize ''exit'' = [''exit'']" by (simp add: tokenize_def is_blank_def numeral_eq_Suc)
  ultimately have "shell_turn K s = Some (user_cmd_exit K ?s)" by (simp add: shell_turn_def user_execute_command_def char_val_def)
  then show ?thesis by (intro exI[of _ "user_cmd_exit K ?s"]) (simp add: user_cmd_exit_def shell_loop.simps)
qed

lemma shell_turn_no_input:
  assumes "answer K (calls (show_prompt K s)) (CReadline 1024) < 0"
  shows "\<exists>s'. shell_turn K s = Some s' \<and> keeps s s'"
proof -
  obtain r s1 where r: "user_syscall K (CReadline 1024) (show_prompt K s) = (r, s1)" by fastforce
  then have "r < 0" using assms by (simp add: user_syscall_def)
  then have "read_line K 1024 (show_prompt K s) = ([], s1)" using r by (simp add: read_line_def)
  moreover have "tokenize [] = []" by (simp add: tokenize_def numeral_eq_Suc)
  ultimately have "shell_turn K s = Some s1" by (simp add: shell_turn_def user_execute_command_def)
  then show ?thesis using keeps_syscall[OF keeps_prompt r] by blast
qed

text \<open>
  C25. The user shell gets no input. The kernel answers \<open>readline\<close> as it answers every call it does not implement; with these answers the shell never leaves its loop, so that it returns neither to
  the first program nor to its caller.
\<close>
theorem user_shell_never_ends:
  assumes "\<And>cs n. \<exists>hw m a b d e c io r c' io'. rust_syscall_handler hw m (call_nr (CReadline n)) a b d e (c, io) = Some (r, c', io') \<and>
      answer K cs (CReadline n) = sint r"
    and "g_running s"
  shows "shell_main K s = None \<and> init_main K s = None"
proof -
  have neg: "answer K cs (CReadline n) < 0" for cs n
  proof -
    obtain hw m a b d e c io r c' io' where "rust_syscall_handler hw m (call_nr (CReadline n)) a b d e (c, io) = Some (r, c', io')"
      "answer K cs (CReadline n) = sint r" using assms(1) by metis
    then show ?thesis by (auto simp: syscall_spec)
  qed
  have loop: "\<not> g_running s" if "shell_loop K s = Some t" for s t
  proof -
    have "answer K (calls (show_prompt K s)) (CReadline 1024) < 0 \<longrightarrow> (\<forall>cs. answer K cs (CReadline 1024) < 0) \<longrightarrow> \<not> g_running s"
    proof (rule shell_loop.raw_induct[OF _ that])
      fix f K s t
      assume IH: "\<And>K s t. f K s = Some t \<Longrightarrow>
          answer K (calls (show_prompt K s)) (CReadline 1024) < 0 \<longrightarrow> (\<forall>cs. answer K cs (CReadline 1024) < 0) \<longrightarrow> \<not> g_running s"
        and r: "(if g_running s then Option.bind (shell_turn K s) (f K) else Some s) = Some t"
      show "answer K (calls (show_prompt K s)) (CReadline 1024) < 0 \<longrightarrow> (\<forall>cs. answer K cs (CReadline 1024) < 0) \<longrightarrow> \<not> g_running s"
      proof (intro impI notI)
        assume a: "answer K (calls (show_prompt K s)) (CReadline 1024) < 0" "\<forall>cs. answer K cs (CReadline 1024) < 0" and g: "g_running s"
        obtain s' where s': "shell_turn K s = Some s'" "keeps s s'" using shell_turn_no_input[OF a(1)] by blast
        have "f K s' = Some t" using r g s' by simp
        then have "\<not> g_running s'" using IH a(2) by blast
        then show False using s'(2) g by (simp add: keeps_def)
      qed
    qed
    then show ?thesis using neg by blast
  qed
  have main: "shell_main K t = None" if "g_running t" for t
  proof (cases "shell_main K t")
    case (Some u)
    have "\<not> g_running (user_lines K [[], ''DeltaOS Shell v0.1.0'', ''Type '' @ [CHR 0x27] @ ''help'' @ [CHR 0x27] @ '' for available commands.'', []] t)"
      using loop Some unfolding shell_main_def by blast
    then show ?thesis using keeps_lines[OF keeps_refl] that by (auto simp: keeps_def)
  qed simp
  have "keeps t (init_directories K t)" for t
    unfolding init_directories_def Let_def by (auto intro!: keeps_rules)
  moreover have "keeps t (init_mounts K t)" for t
    unfolding init_mounts_def by (auto intro!: keeps_rules intro: keeps_syscall keeps_print(2)[OF keeps_refl] split: prod.splits)
  ultimately have up: "keeps t (init_directories K (init_mounts K t))" for t using keeps_trans by blast
  have "init_main K s = None"
  proof -
    obtain pid s2 where p: "user_syscall K CGetpid (user_print K ''[init] PID: '' (user_lines K [''=========================================='',
        ''  DeltaOS Init v0.1.0'', ''  First userspace process'', ''=========================================='', []] s)) = (pid, s2)" by fastforce
    have "keeps s s2" by (rule keeps_syscall[OF _ p]) (intro keeps_rules)
    then have "keeps s (user_println K ''[init] Starting shell...'' (init_directories K (init_mounts K (user_println K (pid_text 0 (unat (word_of_int pid :: u64))) s2))))"
      using up keeps_trans by (blast intro: keeps_rules)
    then have "g_running (user_println K ''[init] Starting shell...'' (init_directories K (init_mounts K (user_println K (pid_text 0 (unat (word_of_int pid :: u64))) s2))))"
      using assms(2) by (simp add: keeps_def)
    then show ?thesis unfolding init_main_def Let_def p prod.case using main by simp
  qed
  then show ?thesis using main assms(2) by simp
qed

definition this_kernel :: user_kernel where
  "this_kernel = \<lparr>answer = (\<lambda>_ c. sint (fst (the (rust_syscall_handler ready_hardware (\<lambda>_. 0) (call_nr c) 0 0 0 0 (demo_console, []))))),
     left_in_buffer = (\<lambda>_. [])\<rparr>"

theorem user_shell_never_ends_witness: "shell_main this_kernel user_statics = None \<and> init_main this_kernel user_statics = None"
proof (rule user_shell_never_ends)
  fix cs n
  have "rust_syscall_handler ready_hardware (\<lambda>_. 0) (call_nr (CReadline n)) 0 0 0 0 (demo_console, []) = Some (- 5, demo_console, [])"
    by (simp add: syscall_spec)
  then show "\<exists>hw m a b d e c io r c' io'. rust_syscall_handler hw m (call_nr (CReadline n)) a b d e (c, io) = Some (r, c', io') \<and>
      answer this_kernel cs (CReadline n) = sint r"
    unfolding this_kernel_def by (intro exI conjI) (assumption, simp)
qed (simp add: user_statics_def)

end
