(* ===== verification/Spec2Isabelle.thy ===== *)
theory Spec2Isabelle
  imports Ntfs_Records Context Boot Ahci Cpp_Std User_Programs
begin

text \<open>
  \<^bold>\<open>DeltaOS\<close>: a verification of the kernel (Rust, under \<open>src/src\<close>), of its drivers in C (\<open>src/drivers\<close>) and of its user programs in C++ (\<open>src/user\<close>).

  \<^bold>\<open>The program.\<close> The entry point \<open>kernel_main\<close> (\<open>lib.rs\<close>) starts the components in a fixed order and then runs the shell. It sets up the descriptor tables (\<open>arch/gdt.rs\<close>,
  \<open>arch/idt.rs\<close>), the physical memory manager, the page tables and the heap (\<open>memory/\<close>), reads the firmware tables (\<open>acpi/\<close>), programs timers (\<open>timer/\<close>) and interrupt controllers
  (\<open>apic/\<close>), creates the virtual file system (\<open>fs/\<close>), the module manager (\<open>module/\<close>) and the scheduler (\<open>sched/\<close>). From then on the timer interrupt drives the scheduler, the keyboard
  interrupt fills a ring buffer that the shell reads, and \<open>int 0x80\<close> enters the system calls (\<open>interrupts.rs\<close>, \<open>syscall.rs\<close>).

  \<^bold>\<open>How code becomes definitions.\<close> A struct is a record, an enumeration a datatype, a function a definition that takes and returns the state it works on. Machine integers are words of their width;
  \<open>usize\<close> is a natural number with the operations \<open>usize_add\<close>, \<open>usize_sub\<close>, \<open>usize_mul\<close> where the code can wrap, since the release build does not check for overflow. \<open>KernelResult\<close> is a sum with
  \<open>Err\<close> and \<open>Ok\<close>. A panic, a halt and waiting for ever are the absence of a result, \<open>None\<close>: a theorem that something returns is proved as such. Shared memory is explicit: the
  bitmap of the physical memory manager lives in the byte memory it manages, page tables in the memory they are walked in, stacks in the memory the context switch writes, and tasks are shared
  through references to a store. A device is a function of the accesses made so far (\<open>hardware\<close>), and a driver extends the sequence of accesses.

  \<^bold>\<open>Theories and what they model.\<close>

  \<^item> \<open>Prelude\<close>: result type, error codes and memory layout of \<open>lib.rs\<close>, arithmetic of \<open>usize\<close>, byte memory, and the contracts \<open>bitset\<close> and \<open>frame_source\<close>.
  \<^item> \<open>Pmm\<close> (\<open>memory/pmm.rs\<close>), \<open>Heap\<close> (\<open>memory/heap.rs\<close>), \<open>Vmm\<close> (\<open>memory/vmm.rs\<close>): all operations of the three memory managers. Allocation and release refine operations on the set of
    free frames, blocks and page tables never overlap, mapping and unmapping refine updates of a map from pages to frames, and the outcome of every error branch is stated.
  \<^item> \<open>Task\<close> (\<open>sched/task.rs\<close>), \<open>Scheduler\<close> (\<open>sched/scheduler.rs\<close>), \<open>Context\<close> (\<open>sched/context_switch.asm\<close>): tasks, signals, stacks, queues, and the register saving code. The step relation
    \<open>sched_step\<close> has every operation; its invariant (at most one task runs, no ready task is lost, identifiers are distinct) holds in all reachable states, and round robin is fair.
  \<^item> \<open>Ordered_Map\<close>: the standard library's \<open>BTreeMap\<close> and the contracts \<open>handle_source\<close> and \<open>handle_table\<close>; \<open>Bytes\<close>: slices and little-endian fields.
  \<^item> \<open>Vfs\<close> (\<open>fs/vfs.rs\<close>), \<open>Ntfs\<close> and \<open>Ntfs_Records\<close> (\<open>fs/ntfs.rs\<close>): mounts, path resolution, descriptors, and the parsers of boot sector, file records and run lists. Descriptors are never
    confused, parsing inverts the reference encoding, and the inputs on which a parser panics are characterised exactly.
  \<^item> \<open>Modules\<close> (\<open>module/manager.rs\<close>): symbols and the life cycle of modules.
  \<^item> \<open>Devices\<close>, \<open>Console\<close> (\<open>lib.rs\<close>): accesses to ports and registers, waiting, the screen and the serial port; printing refines an unbounded terminal.
  \<^item> \<open>Acpi\<close> (\<open>acpi/mod.rs\<close>), \<open>Timer\<close> (\<open>timer/mod.rs\<close>), \<open>Apic\<close> (\<open>apic/mod.rs\<close>): firmware tables, PIT, HPET, local APIC and IO APIC, with what the redirection table holds at the end.
  \<^item> \<open>Descriptors\<close> (\<open>arch/gdt.rs\<close>, \<open>arch/idt.rs\<close>, the stub table of \<open>boot/long_mode.asm\<close>): the encoded tables, decoded as the processor reads them.
  \<^item> \<open>Keyboard\<close> (\<open>interrupts.rs\<close>, \<open>drivers/keyboard.c\<close>): both keyboard drivers, as instances of the contract \<open>char_queue\<close>, and that they agree.
  \<^item> \<open>Syscall\<close> (\<open>syscall.rs\<close>) and \<open>Interrupts\<close> (\<open>interrupts.rs\<close>): the handlers on the joint state \<open>kernel\<close> of keyboard, timer, APIC, scheduler and console, the step relation \<open>irq_step\<close> and its
    invariant \<open>kernel_inv\<close>.
  \<^item> \<open>Format\<close>, \<open>Shell\<close> (\<open>lib.rs\<close>): printing and reading of numbers, all commands of the kernel's shell with their messages, the interpreter and the line editor.
  \<^item> \<open>Boot\<close> (\<open>lib.rs\<close>): \<open>init_pic\<close> and \<open>kernel_main\<close> up to the call of the shell, on the statics of all components.
  \<^item> \<open>Ahci\<close> (\<open>drivers/ahci.c\<close>): AHCI ports and their structures in memory, and the search for NVMe.
  \<^item> \<open>Cpp_Std\<close> (\<open>user/cpp_std.cpp\<close>), \<open>User_Programs\<close> (\<open>user/shell.cpp\<close>, \<open>user/init.cpp\<close>): the run-time library, the user shell and the first program, on the sequence of their system calls.

  \<^bold>\<open>Interfaces.\<close> Each contract between components is a locale and is interpreted on the model's own operations: \<open>bitset\<close> for the page bitmap and for the signals of a task, \<open>frame_source\<close> for
  pages, page tables and stacks, \<open>handle_source\<close> and \<open>handle_table\<close> for modules and file descriptors, \<open>file_reader\<close> for NTFS files, \<open>char_queue\<close> for the two keyboard buffers.

  \<^bold>\<open>The whole system.\<close> This theory adds the states that a booted kernel reaches by interrupts and typed lines, and shows that the invariants hold in all of them.

  \<^bold>\<open>Bounds and fuel.\<close> No model has a fuel argument of its own. Loops of the code with a counter (timeouts of 500000, 100000 and 1000 polls, 32 ports, 512 table entries) recurse on that counter or on the
  list of its values; loops over input recurse on the input; parsers that skip entries terminate because the offset grows. Loops that may not end (\<open>wait_port\<close>, \<open>strlen\<close>, the loops of the user
  programs) are partial functions, and theorems about them state when they return. Hypotheses such as \<open>kernel_end img < 2 ^ 63\<close> keep addresses of the linker away from the end of the address
  space, and \<open>tasks_left\<close> says that the 64-bit counter of task identifiers has not reached its end.

  \<^bold>\<open>What the proofs found.\<close> Some theorems state behaviour that is not what the code means to do: \<open>keyboard_interrupt_is_timer\<close> (key presses never reach the handler, because of an index in \<open>idt.rs\<close>),
  \<open>first_page_is_a_stack\<close> (pages and task stacks overlap), \<open>ahci_slots_overlap\<close>, \<open>ahci_stop_keeps_start\<close>, \<open>pid_text_loses_digits\<close>, \<open>user_shell_never_ends\<close>, and the exact panic conditions of
  the NTFS parser.

  \<^bold>\<open>Not modelled.\<close> The boot loader and early assembly (\<open>boot/boot.asm\<close>, \<open>boot/mbr.asm\<close>, and \<open>boot/long_mode.asm\<close> but for its stub table), which run before the kernel, in other processor modes; the panic and
  allocation error handlers, which print and halt; the messages that components print while they start (those of \<open>kernel_main\<close> and of the shell are modelled); the allocation of vectors and boxes on the
  heap by the compiled code; locks, since no operation takes a lock twice; more than one processor; interrupts in the middle of an operation, which are steps between operations; build files and
  scripts. NTFS data is never read from a disk by the code itself.
\<close>

section \<open>The running system\<close>

text \<open>
  The states a booted kernel can get into: interrupts, messages and the scheduling of tasks (\<open>irq_step\<close>) and lines typed at the shell, in any order, as long as task identifiers are left when
  a line is executed.
\<close>

inductive system_reach :: "image \<Rightarrow> u64 \<Rightarrow> ('f, 'i) boot \<Rightarrow> shell_kernel \<Rightarrow> bool" for img magic b where
  booted: "kernel_main img magic b = Some b' \<Longrightarrow> system_reach img magic b (bt_kernel b')"
| interrupt: "system_reach img magic b k \<Longrightarrow> irq_step (env_hw img) m k k' \<Longrightarrow> system_reach img magic b k'"
| command: "system_reach img magic b k \<Longrightarrow> tasks_left k \<Longrightarrow> execute_command (environment.truncate img) input k = Some k' \<Longrightarrow>
    system_reach img magic b k'"

lemma system_reach_inv:
  assumes "system_reach img magic b k" "loaded b" "machine_ready (environment.truncate img)" "valid_magic magic" "kernel_end img < 2 ^ 63"
  shows "kernel_inv k"
  using assms(1)
proof (induction rule: system_reach.induct)
  case (booted b')
  then show ?case using kernel_main_spec[OF assms(2-5)] by auto
next
  case (interrupt k m k')
  then show ?case using irq_step_inv by blast
next
  case (command k input k')
  have "serial_ready (environment.truncate img)" using assms(3) by (simp add: machine_ready_def)
  from runs_execute_command[OF this command.IH command.hyps(2), of input] show ?case using command.hyps(3) by (auto simp: runs_def)
qed



end
